(* ===== verification/Hub_Prelude.thy ===== *)
theory Hub_Prelude
  imports Main "HOL-Library.Word" "HOL-Library.AList" "HOL-Library.Sublist"
    "HOL-Library.Multiset"
begin

text \<open>
  What every component of the notification hub shares.
  \<^item> Go's fixed-width signed integers, read as \<open>int\<close> with the wrap-around written out:
    \<open>go_int64\<close>, \<open>go_int32\<close> and \<open>go_int8\<close> are the conversions, and every
    arithmetic result of the code that can leave its width goes through one of them.
  \<^item> The functions of Go's \<open>strings\<close> package the code calls, on byte strings.
  \<^item> Association lists, which model Go maps: the key lemmas and the invariant
    \<open>keys_ok\<close> (no key twice). A list's order stands for the order in which a
    \<open>range\<close> over the map visits it; Go leaves that order open, and no property of the
    development depends on it.
  \<^item> The named collections the component theories declare their rules into.
\<close>

named_theorems go_simps \<open>Go's integers and strings on concrete and in-range arguments\<close>
named_theorems alist_simps \<open>lookup after update and delete on association lists\<close>

type_synonym bytes = string

text \<open>An instant, in nanoseconds since Go's zero time (1 January of year 1, UTC).\<close>
type_synonym time = int

definition zero_time :: time where
  "zero_time = 0"

definition time_Second :: int where
  "time_Second = 1000000000"

section \<open>Fixed-width integers\<close>

definition go_int64 :: "int \<Rightarrow> int" where
  "go_int64 x = sint (word_of_int x :: 64 word)"

definition go_int32 :: "int \<Rightarrow> int" where
  "go_int32 x = sint (word_of_int x :: 32 word)"

definition go_int8 :: "int \<Rightarrow> int" where
  "go_int8 x = sint (word_of_int x :: 8 word)"

lemma go_int64_eq: "go_int64 x = (x + 2 ^ 63) mod 2 ^ 64 - 2 ^ 63"
  by (simp add: go_int64_def int_word_sint)

lemma go_int64_id [go_simps]: "- (2 ^ 63) \<le> x \<Longrightarrow> x < 2 ^ 63 \<Longrightarrow> go_int64 x = x"
  by (simp add: go_int64_def int_word_sint)

lemma go_int32_id [go_simps]: "- (2 ^ 31) \<le> x \<Longrightarrow> x < 2 ^ 31 \<Longrightarrow> go_int32 x = x"
  by (simp add: go_int32_def int_word_sint)

lemma go_int8_id [go_simps]: "- 128 \<le> x \<Longrightarrow> x < 128 \<Longrightarrow> go_int8 x = x"
  by (simp add: go_int8_def int_word_sint)

lemma go_int64_bounds: "- (2 ^ 63) \<le> go_int64 x \<and> go_int64 x < 2 ^ 63"
  using sint_ge [of "word_of_int x :: 64 word"] sint_lt [of "word_of_int x :: 64 word"]
  by (simp add: go_int64_def)

lemma go_int64_mod: "go_int64 (x + 2 ^ 64 * k) = go_int64 x"
proof -
  have "x + 2 ^ 64 * k + 2 ^ 63 = (x + 2 ^ 63) + 2 ^ 64 * k"
    by simp
  then have "(x + 2 ^ 64 * k + 2 ^ 63) mod 2 ^ 64 = (x + 2 ^ 63) mod 2 ^ 64"
    by (simp only: mod_mult_self2)
  then show ?thesis by (simp only: go_int64_eq)
qed

section \<open>The strings package\<close>

definition HasPrefix :: "bytes \<Rightarrow> bytes \<Rightarrow> bool" where
  "HasPrefix s p = prefix p s"

definition TrimPrefix :: "bytes \<Rightarrow> bytes \<Rightarrow> bytes" where
  "TrimPrefix s p = (if prefix p s then drop (length p) s else s)"

text \<open>The UTF-8 texts of the characters with Unicode's White Space property, as \<open>unicode.IsSpace\<close> has them.\<close>
definition unicode_spaces :: "bytes list" where
  "unicode_spaces = map (map char_of)
     ([[9], [10], [11], [12], [13], [32], [0xC2, 0x85], [0xC2, 0xA0], [0xE1, 0x9A, 0x80]] @
      map (\<lambda>n. [0xE2, 0x80, n]) [0x80 ..< 0x8B] @
      [[0xE2, 0x80, 0xA8], [0xE2, 0x80, 0xA9], [0xE2, 0x80, 0xAF], [0xE2, 0x81, 0x9F], [0xE3, 0x80, 0x80 :: nat]])"

text \<open>Cut off the given texts at the left end as long as one fits.\<close>
function trim_left :: "bytes list \<Rightarrow> bytes \<Rightarrow> bytes" where
  "trim_left ps s =
     (case find (\<lambda>p. p \<noteq> [] \<and> prefix p s) ps of
        None \<Rightarrow> s
      | Some p \<Rightarrow> trim_left ps (drop (length p) s))"
  by pat_completeness auto
termination
  by (relation "measure (\<lambda>(ps, s). length s)") (auto simp: find_Some_iff prefix_def)

declare trim_left.simps [simp del]

definition TrimSpace :: "bytes \<Rightarrow> bytes" where
  "TrimSpace s = rev (trim_left (map rev unicode_spaces) (rev (trim_left unicode_spaces s)))"

fun Contains :: "bytes \<Rightarrow> bytes \<Rightarrow> bool" where
  "Contains [] p = (p = [])"
| "Contains (c # s) p = (prefix p (c # s) \<or> Contains s p)"

lemma Contains_iff: "Contains s p \<longleftrightarrow> (\<exists>a b. s = a @ p @ b)"
proof (induction s)
  case Nil
  then show ?case by simp
next
  case (Cons c s)
  have "(\<exists>a b. c # s = a @ p @ b) \<longleftrightarrow> prefix p (c # s) \<or> (\<exists>a b. s = a @ p @ b)"
    by (auto simp: prefix_def Cons_eq_append_conv)
  with Cons show ?case by simp
qed

lemma TrimPrefix_append [simp]: "TrimPrefix (p @ s) p = s"
  by (simp add: TrimPrefix_def)

lemma take_take_append: "take k (take k xs @ ys) = take k (xs @ ys)"
  by (cases "k \<le> length xs") simp_all

section \<open>Go maps as association lists\<close>

definition keys_ok :: "('k \<times> 'v) list \<Rightarrow> bool" where
  "keys_ok m = distinct (map fst m)"

lemma keys_ok_Nil [simp, intro]: "keys_ok []"
  by (simp add: keys_ok_def)

lemma keys_ok_update [simp]: "keys_ok m \<Longrightarrow> keys_ok (AList.update k v m)"
  by (simp add: keys_ok_def distinct_update)

lemma keys_ok_delete [simp]: "keys_ok m \<Longrightarrow> keys_ok (AList.delete k m)"
  by (simp add: keys_ok_def distinct_delete)

lemma map_of_update_upd [simp, alist_simps]:
  "map_of (AList.update k v m) = (map_of m)(k \<mapsto> v)"
  by (rule update_conv')

lemma map_of_delete_upd [simp, alist_simps]:
  "map_of (AList.delete k m) = (map_of m)(k := None)"
  by (rule delete_conv')

lemma update_neq_Nil [simp]: "AList.update k v m \<noteq> []"
  by (induction m) auto

lemma map_of_Some_iff: "keys_ok m \<Longrightarrow> map_of m k = Some v \<longleftrightarrow> (k, v) \<in> set m"
  by (simp add: keys_ok_def)

lemma keys_ok_ball:
  "keys_ok m \<Longrightarrow> (\<forall>(k, v) \<in> set m. P k v) \<longleftrightarrow> (\<forall>k v. map_of m k = Some v \<longrightarrow> P k v)"
  by (auto simp: map_of_Some_iff)

lemma update_graph: "keys_ok m \<Longrightarrow> set (AList.update k v m) = insert (k, v) {(k', w) \<in> set m. k' \<noteq> k}"
  by (auto simp: map_of_Some_iff [symmetric] split: if_splits)

lemma delete_graph: "set (AList.delete k m) = {(k', w) \<in> set m. k' \<noteq> k}"
  by (auto simp: AList.delete_eq)

lemma distinct_snd_delete: "distinct (map snd m) \<Longrightarrow> distinct (map snd (AList.delete k m))"
  by (simp add: AList.delete_eq distinct_map_filter)

lemma map_of_empty_iff: "m = [] \<longleftrightarrow> (\<forall>k. map_of m k = None)"
  by (cases m) (auto simp: map_of_eq_None_iff)

lemma delete_empty_iff: "AList.delete k m = [] \<longleftrightarrow> (\<forall>k'. k' \<noteq> k \<longrightarrow> map_of m k' = None)"
  by (auto simp: map_of_empty_iff [of "AList.delete k m"])

lemma update_conv_append: "map_of m k = None \<Longrightarrow> AList.update k v m = m @ [(k, v)]"
  by (induction m) (auto split: if_splits)

lemma length_update_new: "map_of m k = None \<Longrightarrow> length (AList.update k v m) = Suc (length m)"
  by (induction m) auto

lemma length_update_old: "map_of m k = Some w \<Longrightarrow> length (AList.update k v m) = length m"
  by (induction m) (auto split: if_splits)

section \<open>Invariants of step relations\<close>

locale preserved =
  fixes step :: "'s \<Rightarrow> 's \<Rightarrow> bool" and inv :: "'s \<Rightarrow> bool"
  assumes step_preserves: "inv s \<Longrightarrow> step s s' \<Longrightarrow> inv s'"
begin

lemma reachable_inv: "step\<^sup>*\<^sup>* s s' \<Longrightarrow> inv s \<Longrightarrow> inv s'"
  by (induction rule: rtranclp_induct) (auto intro: step_preserves)

end

end
