(* ===== verification/Hub_Constants.thy ===== *)
theory Hub_Constants
  imports Hub_Prelude
begin

text \<open>
  Constants, response codes and Redis keys (src/internal/constant/app.go, src/pkg/redis/redis.go,
  src/pkg/httpcode/code.go, the codes of src/internal/dispatch/dispatcher.go and the error values
  of src/pkg/response/response.go). The message texts of the errors are Chinese prose; each text
  is one constructor of \<open>err_msg\<close>.

  The keys are plain concatenations with a colon between the parts. The four families never
  meet, but inside a family the parts are not delimited: keys identify their tenant and user
  only when the tenant identifier holds no colon.
\<close>

section \<open>Codes\<close>

definition SenderTypeUser :: int where "SenderTypeUser = 0"
definition SenderTypeTenant :: int where "SenderTypeTenant = 1"

definition NotifyCategoryUser :: int where "NotifyCategoryUser = 0"
definition NotifyCategoryTenant :: int where "NotifyCategoryTenant = 1"

definition NotifyStatusUnread :: int where "NotifyStatusUnread = 0"
definition NotifyStatusRead :: int where "NotifyStatusRead = 1"
definition NotifyStatusDeleted :: int where "NotifyStatusDeleted = 2"

definition TargetSingle :: int where "TargetSingle = 0"
definition TargetMultiple :: int where "TargetMultiple = 1"
definition TargetBroadcast :: int where "TargetBroadcast = 2"

lemmas code_defs = SenderTypeUser_def SenderTypeTenant_def NotifyCategoryUser_def
  NotifyCategoryTenant_def NotifyStatusUnread_def NotifyStatusRead_def NotifyStatusDeleted_def
  TargetSingle_def TargetMultiple_def TargetBroadcast_def

section \<open>Business errors\<close>

definition Success :: int where "Success = 0"
definition BadRequest :: int where "BadRequest = 400"
definition Unauthorized :: int where "Unauthorized = 401"
definition Forbidden :: int where "Forbidden = 403"
definition NotFound :: int where "NotFound = 404"
definition DBError :: int where "DBError = 500"
definition InternalError :: int where "InternalError = 500"

lemmas httpcode_defs = Success_def BadRequest_def Unauthorized_def Forbidden_def NotFound_def
  DBError_def InternalError_def

datatype err_msg =
    MsgTenantRequired | MsgSenderType | MsgTTLNegative | MsgSingleTarget | MsgMultipleTarget
  | MsgBroadcastTarget | MsgSenderTypeInvalid | MsgDefaultTTLNegative | MsgSendFailed
  | MsgIdsRequired | MsgNotifyIDFormat | MsgNotifyNotFound | MsgNotifyQueryFailed
  | MsgNoPermission | MsgStatusUpdateFailed | MsgBatchReadFailed | MsgTenantReadFailed
  | MsgBatchDeleteFailed | MsgTenantDeleteFailed | MsgQueryFailed
  | MsgTicketMarshal | MsgTicketEncrypt | MsgTicketSave
  | MsgTicketEmpty | MsgTicketUsed | MsgTicketDecrypt | MsgTicketUnmarshal
  | MsgBadParams

record code_error =
  Code :: int
  Msg :: err_msg

definition NewCodeError :: "int \<Rightarrow> err_msg \<Rightarrow> code_error" where
  "NewCodeError code msg = \<lparr>Code = code, Msg = msg\<rparr>"

section \<open>Redis keys\<close>

definition SpacePrefix :: bytes where
  "SpacePrefix = ''bs-notify-hub:''"

definition WrapKey :: "bytes \<Rightarrow> bytes" where
  "WrapKey key = SpacePrefix @ key"

definition KeyUnreadPersonalPrefix :: bytes where "KeyUnreadPersonalPrefix = ''unread:personal''"
definition KeyUnreadTenantPrefix :: bytes where "KeyUnreadTenantPrefix = ''unread:tenant''"
definition KeyBroadcastTotalPrefix :: bytes where "KeyBroadcastTotalPrefix = ''broadcast:total''"
definition KeyBroadcastOpPrefix :: bytes where "KeyBroadcastOpPrefix = ''broadcast:op''"

definition GetUnreadPersonalKey :: "bytes \<Rightarrow> bytes \<Rightarrow> bytes" where
  "GetUnreadPersonalKey tenantID userID =
     WrapKey (KeyUnreadPersonalPrefix @ '':'' @ tenantID @ '':'' @ userID)"

definition GetUnreadTenantKey :: "bytes \<Rightarrow> bytes \<Rightarrow> bytes" where
  "GetUnreadTenantKey tenantID userID =
     WrapKey (KeyUnreadTenantPrefix @ '':'' @ tenantID @ '':'' @ userID)"

definition GetBroadcastTotalKey :: "bytes \<Rightarrow> bytes" where
  "GetBroadcastTotalKey tenantID = WrapKey (KeyBroadcastTotalPrefix @ '':'' @ tenantID)"

definition GetBroadcastOpKey :: "bytes \<Rightarrow> bytes \<Rightarrow> bytes" where
  "GetBroadcastOpKey tenantID userID =
     WrapKey (KeyBroadcastOpPrefix @ '':'' @ tenantID @ '':'' @ userID)"

lemmas key_defs = GetUnreadPersonalKey_def GetUnreadTenantKey_def GetBroadcastTotalKey_def
  GetBroadcastOpKey_def WrapKey_def SpacePrefix_def KeyUnreadPersonalPrefix_def
  KeyUnreadTenantPrefix_def KeyBroadcastTotalPrefix_def KeyBroadcastOpPrefix_def

text \<open>A tenant identifier that cannot be confused with the separator of the keys.\<close>
definition colon_free :: "bytes \<Rightarrow> bool" where
  "colon_free s = (CHR '':'' \<notin> set s)"

lemma key_families_distinct [simp]:
  "GetUnreadPersonalKey t u \<noteq> GetUnreadTenantKey t' u'"
  "GetUnreadTenantKey t' u' \<noteq> GetUnreadPersonalKey t u"
  "GetUnreadPersonalKey t u \<noteq> GetBroadcastTotalKey t'"
  "GetBroadcastTotalKey t' \<noteq> GetUnreadPersonalKey t u"
  "GetUnreadPersonalKey t u \<noteq> GetBroadcastOpKey t' u'"
  "GetBroadcastOpKey t' u' \<noteq> GetUnreadPersonalKey t u"
  "GetUnreadTenantKey t u \<noteq> GetBroadcastTotalKey t'"
  "GetBroadcastTotalKey t' \<noteq> GetUnreadTenantKey t u"
  "GetUnreadTenantKey t u \<noteq> GetBroadcastOpKey t' u'"
  "GetBroadcastOpKey t' u' \<noteq> GetUnreadTenantKey t u"
  "GetBroadcastTotalKey t \<noteq> GetBroadcastOpKey t' u'"
  "GetBroadcastOpKey t' u' \<noteq> GetBroadcastTotalKey t"
  by (simp_all add: key_defs)

lemma separated_eq:
  "colon_free t \<Longrightarrow> colon_free t' \<Longrightarrow> t @ CHR '':'' # u = t' @ CHR '':'' # u' \<longleftrightarrow> t = t' \<and> u = u'"
proof (induction t arbitrary: t')
  case Nil
  then show ?case by (cases t') (auto simp: colon_free_def)
next
  case (Cons a t)
  then show ?case by (cases t') (auto simp: colon_free_def)
qed

lemma total_key_eq [simp]: "GetBroadcastTotalKey t = GetBroadcastTotalKey t' \<longleftrightarrow> t = t'"
  by (simp add: key_defs)

lemma personal_key_eq:
  "colon_free t \<Longrightarrow> colon_free t' \<Longrightarrow>
   GetUnreadPersonalKey t u = GetUnreadPersonalKey t' u' \<longleftrightarrow> t = t' \<and> u = u'"
  by (simp add: key_defs separated_eq)

lemma tenant_key_eq:
  "colon_free t \<Longrightarrow> colon_free t' \<Longrightarrow>
   GetUnreadTenantKey t u = GetUnreadTenantKey t' u' \<longleftrightarrow> t = t' \<and> u = u'"
  by (simp add: key_defs separated_eq)

lemma op_key_eq:
  "colon_free t \<Longrightarrow> colon_free t' \<Longrightarrow>
   GetBroadcastOpKey t u = GetBroadcastOpKey t' u' \<longleftrightarrow> t = t' \<and> u = u'"
  by (simp add: key_defs separated_eq)

text \<open>Inside one tenant no assumption is needed: the key determines the user.\<close>

lemma same_tenant_keys [simp]:
  "GetUnreadPersonalKey t u = GetUnreadPersonalKey t u' \<longleftrightarrow> u = u'"
  "GetUnreadTenantKey t u = GetUnreadTenantKey t u' \<longleftrightarrow> u = u'"
  "GetBroadcastOpKey t u = GetBroadcastOpKey t u' \<longleftrightarrow> u = u'"
  by (simp_all add: key_defs)

end
