(* ===== verification/Hub_Dto.thy ===== *)
theory Hub_Dto
  imports Hub_Constants
begin

text \<open>
  The messages the hub pushes to browsers (src/internal/dto/hub.go) and their wire codec.
  \<open>InternalMsg.Data\<close> is an \<open>interface{}\<close>: whatever the sender puts there travels as JSON, so
  the model keeps it as a \<open>json\<close> value, and \<open>NotifyMsgData_json\<close> is the image of the struct
  under its json tags.

  Encoding and decoding (\<open>encoding/json\<close> on the sending side, the third-party package sonic on
  the receiving side) are the parameter \<open>codec\<close>. What the code relies on is that a message
  survives the wire, \<open>on_wire\<close>: it encodes to some bytes that decode to it again. That is a
  hypothesis about each message, since JSON numbers beyond 2^53 do not survive.
\<close>

datatype json =
    JNull
  | JNum int
  | JStr bytes
  | JArr "json list"
  | JObj "(bytes \<times> json) list"

record subscribe_param =
  SubUserID :: bytes
  SubTenantID :: bytes
  SubConnID :: bytes

definition NotifyMsg :: bytes where "NotifyMsg = ''NOTIFY''"
definition TenantUnreadMsg :: bytes where "TenantUnreadMsg = ''TENANT_UNREAD''"
definition PersonalUnreadMsg :: bytes where "PersonalUnreadMsg = ''PERSONAL_UNREAD''"
definition Heartbeat :: bytes where "Heartbeat = ''HEARTBEAT''"

lemmas msg_type_defs = NotifyMsg_def TenantUnreadMsg_def PersonalUnreadMsg_def Heartbeat_def

record internal_msg =
  msg_Type :: bytes
  msg_Data :: json

record notify_msg_data =
  nd_NotifyID :: bytes
  nd_Title :: bytes
  nd_Content :: bytes
  nd_TenantID :: bytes
  nd_SenderID :: bytes
  nd_SenderType :: int
  nd_TargetIDs :: "bytes list"
  nd_EventType :: bytes
  nd_ExpireTime :: "time option"

record codec =
  json_Marshal :: "internal_msg \<Rightarrow> bytes option"
  sonic_Unmarshal :: "bytes \<Rightarrow> internal_msg option"
  json_Time :: "time \<Rightarrow> bytes"

definition on_wire :: "codec \<Rightarrow> internal_msg \<Rightarrow> bytes \<Rightarrow> bool" where
  "on_wire C m b = (json_Marshal C m = Some b \<and> sonic_Unmarshal C b = Some m)"

definition NotifyMsgData_json :: "codec \<Rightarrow> notify_msg_data \<Rightarrow> json" where
  "NotifyMsgData_json C d = JObj
     [(''notifyId'', JStr (nd_NotifyID d)),
      (''title'', JStr (nd_Title d)),
      (''content'', JStr (nd_Content d)),
      (''tenantId'', JStr (nd_TenantID d)),
      (''senderId'', JStr (nd_SenderID d)),
      (''senderType'', JNum (nd_SenderType d)),
      (''targetIds'', JArr (map JStr (nd_TargetIDs d))),
      (''eventType'', JStr (nd_EventType d)),
      (''expireTime'', (case nd_ExpireTime d of None \<Rightarrow> JNull | Some t \<Rightarrow> JStr (json_Time C t)))]"

end
