(* ===== verification/Conn_Pool.thy ===== *)
theory Conn_Pool
  imports Hub_Dto
begin

text \<open>
  The connection pool: src/pkg/pool/types.go, group.go and manager.go, and the only
  implementation of its \<open>Connection\<close> interface, \<open>HubSSEConnection\<close> of
  src/internal/service/hub.go.

  Connections and groups are pointers in the code, so the model has two heaps: \<open>conn_heap\<close>
  (connection reference to connection) and \<open>group_heap\<close> (group reference to group). A
  \<open>Manager\<close> maps tenant names to group references, a \<open>Group\<close> maps a user to the user's
  connections by connection id. The pool's operations take the connection type's \<open>Close\<close> as an
  argument, as the code takes it through the interface.

  Each operation here is one critical section of the code, or a composition of them run without
  interruption; \<open>Pool_Race\<close> interleaves the critical sections.

  Shown here: the pool invariant and its preservation, the refinement of the abstract pool
  (a map from tenant, user and connection id to a connection) by the nested maps, the laws of
  \<open>Connection\<close> for the SSE connection, and that no registered connection has a closed channel.
\<close>

section \<open>Connections\<close>

type_synonym conn_ref = nat
type_synonym group_ref = nat

text \<open>The dynamic values \<open>Write(data interface{})\<close> can be given.\<close>
datatype go_any = RawMessage bytes | OtherValue

datatype write_error = IllegalDataType | UnmarshalFailed | ChannelFull

text \<open>The outcome of a write: done, an error value, or Go's panic on a closed channel.\<close>
datatype write_outcome = WriteOk | WriteErr write_error | WritePanic

record hub_conn =
  MessageChan :: "internal_msg list"
  chan_closed :: bool
  close_once :: bool

definition chan_capacity :: nat where
  "chan_capacity = 100"

definition new_hub_conn :: hub_conn where
  "new_hub_conn = \<lparr>MessageChan = [], chan_closed = False, close_once = False\<rparr>"

definition HubSSEConnection_Write ::
  "codec \<Rightarrow> hub_conn \<Rightarrow> go_any \<Rightarrow> write_outcome \<times> hub_conn" where
  "HubSSEConnection_Write C c data =
     (case data of
        OtherValue \<Rightarrow> (WriteErr IllegalDataType, c)
      | RawMessage payload \<Rightarrow>
          (case sonic_Unmarshal C payload of
             None \<Rightarrow> (WriteErr UnmarshalFailed, c)
           | Some msg \<Rightarrow>
               if chan_closed c then (WritePanic, c)
               else if length (MessageChan c) < chan_capacity
               then (WriteOk, c\<lparr>MessageChan := MessageChan c @ [msg]\<rparr>)
               else (WriteErr ChannelFull, c)))"

definition HubSSEConnection_Close :: "hub_conn \<Rightarrow> hub_conn" where
  "HubSSEConnection_Close c =
     (if close_once c then c else c\<lparr>close_once := True, chan_closed := True\<rparr>)"

section \<open>Groups\<close>

type_synonym user_clients = "(bytes \<times> conn_ref) list"

record group =
  users :: "(bytes \<times> user_clients) list"

type_synonym 'c conn_heap = "conn_ref \<Rightarrow> 'c"

definition empty_group :: group where
  "empty_group = \<lparr>users = []\<rparr>"

definition clients_of :: "group \<Rightarrow> bytes \<Rightarrow> user_clients" where
  "clients_of g userID = (case map_of (users g) userID of None \<Rightarrow> [] | Some cl \<Rightarrow> cl)"

definition Group_Register ::
  "('c \<Rightarrow> 'c) \<Rightarrow> bytes \<Rightarrow> bytes \<Rightarrow> conn_ref \<Rightarrow> group \<times> 'c conn_heap \<Rightarrow> group \<times> 'c conn_heap" where
  "Group_Register cls userID connID conn = (\<lambda>(g, h).
     let h' = (case map_of (clients_of g userID) connID of
                 None \<Rightarrow> h
               | Some old \<Rightarrow> h(old := cls (h old)))
     in (g\<lparr>users := AList.update userID
              (AList.update connID conn (clients_of g userID)) (users g)\<rparr>, h'))"

text \<open>
  The result's first component is the code's return value: whether the group is empty now.
  \<open>exactConn\<close> is \<open>None\<close> for Go's nil, which matches any connection.
\<close>
definition Group_Unregister ::
  "('c \<Rightarrow> 'c) \<Rightarrow> bytes \<Rightarrow> bytes \<Rightarrow> conn_ref option \<Rightarrow> group \<times> 'c conn_heap
     \<Rightarrow> bool \<times> group \<times> 'c conn_heap" where
  "Group_Unregister cls userID connID exactConn = (\<lambda>(g, h).
     case map_of (users g) userID of
       None \<Rightarrow> (users g = [], g, h)
     | Some userClients \<Rightarrow>
         (case map_of userClients connID of
            None \<Rightarrow> (users g = [], g, h)
          | Some conn \<Rightarrow>
              if exactConn \<noteq> None \<and> exactConn \<noteq> Some conn then (users g = [], g, h)
              else
                let h' = h(conn := cls (h conn));
                    rest = AList.delete connID userClients;
                    us = (if rest = [] then AList.delete userID (users g)
                          else AList.update userID rest (users g))
                in (us = [], g\<lparr>users := us\<rparr>, h')))"

definition Group_IsEmpty :: "group \<Rightarrow> bool" where
  "Group_IsEmpty g = (users g = [])"

text \<open>The connections a \<open>RangeUser\<close> visits, in the order of the range.\<close>
definition Group_RangeUser :: "group \<Rightarrow> bytes \<Rightarrow> (bytes \<times> conn_ref) list" where
  "Group_RangeUser g userID = clients_of g userID"

section \<open>The manager\<close>

record 'c pool =
  groups :: "(bytes \<times> group_ref) list"
  group_heap :: "group_ref \<Rightarrow> group"
  next_group :: group_ref
  conns :: "'c conn_heap"

definition NewManager :: "'c conn_heap \<Rightarrow> 'c pool" where
  "NewManager h =
     \<lparr>groups = [], group_heap = (\<lambda>_. empty_group), next_group = 0, conns = h\<rparr>"

definition getOrCreateGroup :: "bytes \<Rightarrow> 'c pool \<Rightarrow> group_ref \<times> 'c pool" where
  "getOrCreateGroup name p =
     (case map_of (groups p) name of
        Some g \<Rightarrow> (g, p)
      | None \<Rightarrow>
          (next_group p,
           p\<lparr>groups := AList.update name (next_group p) (groups p),
             group_heap := (group_heap p)(next_group p := empty_group),
             next_group := Suc (next_group p)\<rparr>))"

definition getGroup :: "bytes \<Rightarrow> 'c pool \<Rightarrow> group_ref option" where
  "getGroup name p = map_of (groups p) name"

text \<open>\<open>g.Register\<close> and \<open>g.Unregister\<close> on a group reference: the group's own critical section.\<close>
definition register_at ::
  "('c \<Rightarrow> 'c) \<Rightarrow> group_ref \<Rightarrow> bytes \<Rightarrow> bytes \<Rightarrow> conn_ref \<Rightarrow> 'c pool \<Rightarrow> 'c pool" where
  "register_at cls r userID connID conn p =
     (case Group_Register cls userID connID conn (group_heap p r, conns p) of
        (g, h) \<Rightarrow> p\<lparr>group_heap := (group_heap p)(r := g), conns := h\<rparr>)"

definition unregister_at ::
  "('c \<Rightarrow> 'c) \<Rightarrow> group_ref \<Rightarrow> bytes \<Rightarrow> bytes \<Rightarrow> conn_ref option \<Rightarrow> 'c pool \<Rightarrow> bool \<times> 'c pool" where
  "unregister_at cls r userID connID exactConn p =
     (case Group_Unregister cls userID connID exactConn (group_heap p r, conns p) of
        (isEmpty, g, h) \<Rightarrow> (isEmpty, p\<lparr>group_heap := (group_heap p)(r := g), conns := h\<rparr>))"

text \<open>The second critical section of \<open>Manager.Unregister\<close>: recycle the group if it is empty.\<close>
definition reclaim :: "bytes \<Rightarrow> 'c pool \<Rightarrow> 'c pool" where
  "reclaim groupName p =
     (case map_of (groups p) groupName of
        None \<Rightarrow> p
      | Some current \<Rightarrow>
          if Group_IsEmpty (group_heap p current)
          then p\<lparr>groups := AList.delete groupName (groups p)\<rparr> else p)"

definition Manager_Register ::
  "('c \<Rightarrow> 'c) \<Rightarrow> bytes \<Rightarrow> bytes \<Rightarrow> bytes \<Rightarrow> conn_ref \<Rightarrow> 'c pool \<Rightarrow> 'c pool" where
  "Manager_Register cls groupName userID connID conn p =
     (case getOrCreateGroup groupName p of
        (r, p') \<Rightarrow> register_at cls r userID connID conn p')"

definition Manager_Unregister ::
  "('c \<Rightarrow> 'c) \<Rightarrow> bytes \<Rightarrow> bytes \<Rightarrow> bytes \<Rightarrow> conn_ref option \<Rightarrow> 'c pool \<Rightarrow> 'c pool" where
  "Manager_Unregister cls groupName userID connID exactConn p =
     (case getGroup groupName p of
        None \<Rightarrow> p
      | Some r \<Rightarrow>
          (case unregister_at cls r userID connID exactConn p of
             (isEmpty, p') \<Rightarrow> if \<not> isEmpty then p' else reclaim groupName p'))"

definition Manager_RangeUser :: "'c pool \<Rightarrow> bytes \<Rightarrow> bytes \<Rightarrow> (bytes \<times> conn_ref) list" where
  "Manager_RangeUser p groupName userID =
     (case getGroup groupName p of None \<Rightarrow> [] | Some r \<Rightarrow> Group_RangeUser (group_heap p r) userID)"

definition Manager_RangeGroup :: "'c pool \<Rightarrow> bytes \<Rightarrow> (bytes \<times> bytes \<times> conn_ref) list" where
  "Manager_RangeGroup p groupName =
     (case getGroup groupName p of
        None \<Rightarrow> []
      | Some r \<Rightarrow>
          concat (map (\<lambda>(uid, cl). map (\<lambda>(cid, c). (uid, cid, c)) cl) (users (group_heap p r))))"

definition Manager_Count :: "'c pool \<Rightarrow> nat" where
  "Manager_Count p =
     sum_list (map (\<lambda>(_, r). sum_list (map (\<lambda>(_, cl). length cl) (users (group_heap p r))))
       (groups p))"

definition Manager_GroupCount :: "'c pool \<Rightarrow> nat" where
  "Manager_GroupCount p = length (groups p)"

definition Manager_UserCount :: "'c pool \<Rightarrow> nat" where
  "Manager_UserCount p =
     length (remdups (concat (map (\<lambda>(_, r). map fst (users (group_heap p r))) (groups p))))"

definition Manager_GetOnlineUserIDs :: "'c pool \<Rightarrow> bytes \<Rightarrow> bytes list" where
  "Manager_GetOnlineUserIDs p groupName =
     (case getGroup groupName p of None \<Rightarrow> [] | Some r \<Rightarrow> map fst (users (group_heap p r)))"

text \<open>Per group: the number of users and the number of connections.\<close>
definition Manager_GroupStats :: "'c pool \<Rightarrow> (bytes \<times> nat \<times> nat) list" where
  "Manager_GroupStats p =
     map (\<lambda>(name, r).
            (name, length (users (group_heap p r)),
             sum_list (map (\<lambda>(_, cl). length cl) (users (group_heap p r)))))
       (groups p)"

section \<open>The abstract pool and the invariant\<close>

text \<open>
  The abstract pool is a partial map from tenant, user and connection id to a connection. An
  abstract \<open>Leave\<close> removes the entry only if it still holds the given connection.
\<close>
type_synonym abs_pool = "bytes \<times> bytes \<times> bytes \<Rightarrow> conn_ref option"

definition pool_lookup :: "'c pool \<Rightarrow> bytes \<Rightarrow> bytes \<Rightarrow> bytes \<Rightarrow> conn_ref option" where
  "pool_lookup p t u c =
     (case map_of (groups p) t of
        None \<Rightarrow> None
      | Some r \<Rightarrow> map_of (clients_of (group_heap p r) u) c)"

definition pool_abs :: "'c pool \<Rightarrow> abs_pool" where
  "pool_abs p = (\<lambda>(t, u, c). pool_lookup p t u c)"

definition abs_join :: "bytes \<Rightarrow> bytes \<Rightarrow> bytes \<Rightarrow> conn_ref \<Rightarrow> abs_pool \<Rightarrow> abs_pool" where
  "abs_join t u c r a = a((t, u, c) \<mapsto> r)"

definition abs_leave :: "bytes \<Rightarrow> bytes \<Rightarrow> bytes \<Rightarrow> conn_ref option \<Rightarrow> abs_pool \<Rightarrow> abs_pool" where
  "abs_leave t u c ex a =
     (if ex = None \<or> ex = a (t, u, c) then a((t, u, c) := None) else a)"

definition group_inv :: "group \<Rightarrow> bool" where
  "group_inv g = (keys_ok (users g) \<and> (\<forall>(u, cl) \<in> set (users g). keys_ok cl \<and> cl \<noteq> []))"

definition pool_inv :: "'c pool \<Rightarrow> bool" where
  "pool_inv p =
     (keys_ok (groups p) \<and> distinct (map snd (groups p)) \<and>
      (\<forall>(t, r) \<in> set (groups p). r < next_group p \<and> users (group_heap p r) \<noteq> []) \<and>
      (\<forall>r. group_inv (group_heap p r)))"

section \<open>Groups: lookups and invariant\<close>

lemma clients_of_empty [simp]: "clients_of empty_group u = []"
  by (simp add: clients_of_def empty_group_def)

lemma group_inv_empty [simp]: "group_inv empty_group"
  by (simp add: group_inv_def empty_group_def)

lemma group_inv_clients: "group_inv g \<Longrightarrow> keys_ok (clients_of g u)"
  by (auto simp: group_inv_def clients_of_def dest: map_of_SomeD split: option.splits)

lemma clients_of_empty_iff:
  "group_inv g \<Longrightarrow> clients_of g u = [] \<longleftrightarrow> map_of (users g) u = None"
  by (auto simp: group_inv_def clients_of_def dest: map_of_SomeD split: option.splits)

lemma users_empty_iff: "group_inv g \<Longrightarrow> users g = [] \<longleftrightarrow> (\<forall>u c. map_of (clients_of g u) c = None)"
  using clients_of_empty_iff [of g] map_of_empty_iff by metis

lemma clients_of_Register:
  "clients_of (fst (Group_Register cls u c conn (g, h))) u' =
     (if u' = u then AList.update c conn (clients_of g u) else clients_of g u')"
  by (simp add: Group_Register_def clients_of_def)

lemma group_inv_Register: "group_inv g \<Longrightarrow> group_inv (fst (Group_Register cls u c conn (g, h)))"
  using group_inv_clients [of g u]
  by (auto simp: group_inv_def Group_Register_def Let_def update_graph)

lemma clients_of_Unregister:
  assumes "group_inv g" and "Group_Unregister cls u c ex (g, h) = (e, g', h')"
  shows "map_of (clients_of g' u') c' =
     (if u' = u \<and> c' = c \<and> (ex = None \<or> ex = map_of (clients_of g u) c) then None
      else map_of (clients_of g u') c')"
  using assms
  by (auto simp: Group_Unregister_def Let_def clients_of_def delete_empty_iff
      split: option.splits if_splits)

lemma Unregister_empty:
  "Group_Unregister cls u c ex (g, h) = (e, g', h') \<Longrightarrow> e \<longleftrightarrow> users g' = []"
  by (auto simp: Group_Unregister_def Let_def split: option.splits if_splits)

lemma group_inv_map_of:
  "group_inv g \<longleftrightarrow> keys_ok (users g) \<and>
     (\<forall>u cl. map_of (users g) u = Some cl \<longrightarrow> keys_ok cl \<and> cl \<noteq> [])"
  unfolding group_inv_def using keys_ok_ball [of "users g" "\<lambda>_ cl. keys_ok cl \<and> cl \<noteq> []"] by blast

lemma group_inv_Unregister:
  "group_inv g \<Longrightarrow> Group_Unregister cls u c ex (g, h) = (e, g', h') \<Longrightarrow> group_inv g'"
  by (auto simp: group_inv_map_of Group_Unregister_def Let_def split: option.splits if_splits) blast+

section \<open>The manager refines the abstract pool\<close>

lemma pool_inv_New [simp]: "pool_inv (NewManager h)"
  by (simp add: pool_inv_def NewManager_def)

lemma pool_inv_group: "pool_inv p \<Longrightarrow> group_inv (group_heap p r)"
  by (simp add: pool_inv_def)

lemma pool_fresh_ref: "pool_inv p \<Longrightarrow> map_of (groups p) t \<noteq> Some (next_group p)"
  by (auto simp: pool_inv_def dest: map_of_SomeD)

lemma pool_inv_nonempty:
  "pool_inv p \<Longrightarrow> map_of (groups p) t = Some r \<Longrightarrow> users (group_heap p r) \<noteq> []"
  by (auto simp: pool_inv_def dest: map_of_SomeD)

lemma pool_inv_inj:
  assumes "pool_inv p" and "map_of (groups p) t = Some r" and "map_of (groups p) t' = Some r"
  shows "t' = t"
proof -
  have "inj_on snd (set (groups p))" and "(t, r) \<in> set (groups p)" and "(t', r) \<in> set (groups p)"
    using assms by (auto simp: pool_inv_def distinct_map dest: map_of_SomeD)
  then show ?thesis using inj_onD [of snd "set (groups p)" "(t, r)" "(t', r)"] by simp
qed

lemma pool_lookup_at:
  assumes "pool_inv p" and "map_of (groups p) t = Some r"
    and "groups p' = groups p" and "group_heap p' = (group_heap p)(r := g)"
  shows "pool_lookup p' t' u' c' =
     (if t' = t then map_of (clients_of g u') c' else pool_lookup p t' u' c')"
proof (cases "map_of (groups p) t' = Some r")
  case True
  with assms pool_inv_inj [OF assms(1,2) True] show ?thesis by (simp add: pool_lookup_def)
next
  case False
  with assms show ?thesis by (auto simp: pool_lookup_def split: option.splits)
qed

text \<open>\<open>getOrCreateGroup\<close> changes no lookup: a new group is empty and has a fresh reference.\<close>

lemma getOrCreateGroup_known:
  "map_of (groups p) t = Some r \<Longrightarrow> getOrCreateGroup t p = (r, p)"
  by (simp add: getOrCreateGroup_def)

lemma Manager_Register_known:
  assumes "pool_inv p" and "map_of (groups p) t = Some r"
  shows "pool_lookup (Manager_Register cls t u c conn p) t' u' c' =
     (if (t', u', c') = (t, u, c) then Some conn else pool_lookup p t' u' c')"
proof -
  obtain g h where gh: "Group_Register cls u c conn (group_heap p r, conns p) = (g, h)"
    by fastforce
  have "pool_lookup (Manager_Register cls t u c conn p) t' u' c' =
      (if t' = t then map_of (clients_of g u') c' else pool_lookup p t' u' c')"
    using assms gh
    by (intro pool_lookup_at) (auto simp: Manager_Register_def getOrCreateGroup_known register_at_def)
  then show ?thesis
    using clients_of_Register [of cls u c conn "group_heap p r" "conns p" u'] assms(2)
    by (auto simp: gh pool_lookup_def)
qed

lemma Manager_Register_new:
  assumes "pool_inv p" and "map_of (groups p) t = None"
  shows "pool_lookup (Manager_Register cls t u c conn p) t' u' c' =
     (if (t', u', c') = (t, u, c) then Some conn else pool_lookup p t' u' c')"
proof -
  obtain g h where gh: "Group_Register cls u c conn (empty_group, conns p) = (g, h)"
    by fastforce
  have "pool_lookup (Manager_Register cls t u c conn p) t' u' c' =
      (if t' = t then map_of (clients_of g u') c' else pool_lookup p t' u' c')"
    using assms pool_fresh_ref [OF assms(1), of t'] gh
    by (auto simp: Manager_Register_def getOrCreateGroup_def register_at_def pool_lookup_def
        split: option.splits)
  then show ?thesis
    using clients_of_Register [of cls u c conn empty_group "conns p" u'] assms(2)
    by (auto simp: gh pool_lookup_def)
qed

lemma pool_lookup_Register:
  "pool_inv p \<Longrightarrow> pool_lookup (Manager_Register cls t u c conn p) t' u' c' =
     (if (t', u', c') = (t, u, c) then Some conn else pool_lookup p t' u' c')"
  by (cases "map_of (groups p) t") (simp_all only: Manager_Register_known Manager_Register_new)

lemma pool_lookup_reclaim:
  assumes "\<And>r. group_inv (group_heap p r)"
  shows "pool_lookup (reclaim t p) t' u' c' = pool_lookup p t' u' c'"
  using users_empty_iff [OF assms]
  by (auto simp: reclaim_def pool_lookup_def Group_IsEmpty_def split: option.splits)

lemma pool_lookup_Unregister:
  assumes inv: "pool_inv p"
  shows "pool_lookup (Manager_Unregister cls t u c ex p) t' u' c' =
     (if (t', u', c') = (t, u, c) \<and> (ex = None \<or> ex = pool_lookup p t u c) then None
      else pool_lookup p t' u' c')"
proof (cases "map_of (groups p) t")
  case None
  then show ?thesis by (auto simp: Manager_Unregister_def getGroup_def pool_lookup_def)
next
  case (Some r)
  obtain e g h where u: "Group_Unregister cls u c ex (group_heap p r, conns p) = (e, g, h)"
    by (metis prod_cases3)
  let ?p' = "p\<lparr>group_heap := (group_heap p)(r := g), conns := h\<rparr>"
  have gi: "group_inv (group_heap ?p' r')" for r'
    using group_inv_Unregister [OF pool_inv_group [OF inv] u] pool_inv_group [OF inv] by simp
  have "pool_lookup (Manager_Unregister cls t u c ex p) t' u' c' = pool_lookup ?p' t' u' c'"
    using Some u pool_lookup_reclaim [of ?p', OF gi]
    by (simp add: Manager_Unregister_def getGroup_def unregister_at_def)
  also have "\<dots> = (if t' = t then map_of (clients_of g u') c' else pool_lookup p t' u' c')"
    by (rule pool_lookup_at [OF inv Some]) simp_all
  finally show ?thesis
    using clients_of_Unregister [OF pool_inv_group [OF inv] u, of u' c'] Some
    by (auto simp: pool_lookup_def)
qed

text \<open>The invariant is kept by both operations: groups stay apart and none is left empty.\<close>

definition refs_ok :: "'c pool \<Rightarrow> bool" where
  "refs_ok p =
     (keys_ok (groups p) \<and> distinct (map snd (groups p)) \<and>
      (\<forall>(t, r) \<in> set (groups p). r < next_group p) \<and> (\<forall>r. group_inv (group_heap p r)))"

lemma pool_inv_iff:
  "pool_inv p \<longleftrightarrow> refs_ok p \<and>
     (\<forall>t r. map_of (groups p) t = Some r \<longrightarrow> users (group_heap p r) \<noteq> [])"
  by (auto simp: pool_inv_def refs_ok_def keys_ok_def)

lemma refs_ok_getOrCreate:
  assumes "refs_ok p" and "getOrCreateGroup t p = (r, p')"
  shows "refs_ok p'"
proof (cases "map_of (groups p) t")
  case None
  then have gs: "AList.update t (next_group p) (groups p) = groups p @ [(t, next_group p)]"
    by (simp add: update_conv_append)
  from assms None show ?thesis
    by (fastforce simp: getOrCreateGroup_def refs_ok_def gs keys_ok_def map_of_eq_None_iff)
next
  case (Some r')
  with assms show ?thesis by (simp add: getOrCreateGroup_def)
qed

lemma refs_ok_register_at: "refs_ok p \<Longrightarrow> refs_ok (register_at cls r u c conn p)"
  using group_inv_Register [of "group_heap p r" cls u c conn "conns p"]
  by (auto simp: refs_ok_def register_at_def split: prod.splits)

lemma refs_ok_unregister_at:
  "refs_ok p \<Longrightarrow> unregister_at cls r u c ex p = (e, p') \<Longrightarrow> refs_ok p'"
  using group_inv_Unregister [of "group_heap p r" cls u c ex "conns p"]
  by (auto simp: refs_ok_def unregister_at_def split: prod.splits)

lemma refs_ok_reclaim: "refs_ok p \<Longrightarrow> refs_ok (reclaim t p)"
  by (auto simp: refs_ok_def reclaim_def delete_graph distinct_snd_delete split: option.splits)

lemma users_register_at [simp]: "users (group_heap (register_at cls r u c conn p) r) \<noteq> []"
  by (simp add: register_at_def Group_Register_def Let_def)

lemma register_at_frame [simp]:
  "groups (register_at cls r u c conn p) = groups p"
  "next_group (register_at cls r u c conn p) = next_group p"
  "r' \<noteq> r \<Longrightarrow> group_heap (register_at cls r u c conn p) r' = group_heap p r'"
  by (simp_all add: register_at_def split: prod.splits)

lemma unregister_at_frame:
  "unregister_at cls r u c ex p = (e, p') \<Longrightarrow> groups p' = groups p \<and> next_group p' = next_group p
     \<and> (\<forall>r'. r' \<noteq> r \<longrightarrow> group_heap p' r' = group_heap p r') \<and> (e \<longleftrightarrow> users (group_heap p' r) = [])"
  by (auto simp: unregister_at_def dest: Unregister_empty split: prod.splits)

lemma pool_inv_Register:
  assumes "pool_inv p"
  shows "pool_inv (Manager_Register cls t u c conn p)"
proof -
  obtain r p' where g: "getOrCreateGroup t p = (r, p')" by fastforce
  have "refs_ok p'" using assms refs_ok_getOrCreate [OF _ g] by (simp add: pool_inv_iff)
  moreover have "users (group_heap p' r') \<noteq> []"
    if "map_of (groups p') t' = Some r'" "r' \<noteq> r" for t' r'
    using assms g that by (auto simp: getOrCreateGroup_def pool_inv_iff split: option.splits if_splits)
  ultimately show ?thesis
    using g by (simp add: Manager_Register_def pool_inv_iff refs_ok_register_at)
      (metis register_at_frame(3) users_register_at)
qed

lemma pool_inv_Unregister:
  assumes "pool_inv p"
  shows "pool_inv (Manager_Unregister cls t u c ex p)"
proof (cases "map_of (groups p) t")
  case None
  with assms show ?thesis by (simp add: Manager_Unregister_def getGroup_def)
next
  case (Some r)
  obtain e p' where u: "unregister_at cls r u c ex p = (e, p')" by fastforce
  note fr = unregister_at_frame [OF u]
  have ok: "refs_ok p'" using assms refs_ok_unregister_at [OF _ u] by (simp add: pool_inv_iff)
  have ne: "users (group_heap p' r') \<noteq> []"
    if "map_of (groups p') t' = Some r'" "t' \<noteq> t \<or> \<not> e" for t' r'
    using assms fr that Some pool_inv_inj [OF assms Some, of t'] by (auto simp: pool_inv_iff) metis+
  show ?thesis
  proof (cases e)
    case True
    with ok ne fr Some u show ?thesis
      by (auto simp: Manager_Unregister_def getGroup_def pool_inv_iff refs_ok_reclaim)
        (auto simp: reclaim_def Group_IsEmpty_def split: if_splits)
  next
    case False
    with ok ne fr Some u show ?thesis
      by (auto simp: Manager_Unregister_def getGroup_def pool_inv_iff)
  qed
qed

section \<open>Ranges and statistics\<close>

lemma set_RangeUser:
  "pool_inv p \<Longrightarrow> set (Manager_RangeUser p t u) = {(c, r). pool_lookup p t u c = Some r}"
  by (cases "map_of (groups p) t")
    (simp_all add: Manager_RangeUser_def getGroup_def Group_RangeUser_def pool_lookup_def
      map_of_Some_iff group_inv_clients pool_inv_group)

lemma distinct_RangeUser: "pool_inv p \<Longrightarrow> distinct (map fst (Manager_RangeUser p t u))"
  using group_inv_clients [OF pool_inv_group, of p]
  by (auto simp: Manager_RangeUser_def getGroup_def Group_RangeUser_def keys_ok_def
      split: option.splits)

lemma clients_of_iff:
  assumes "group_inv g"
  shows "map_of (clients_of g u) c = Some r \<longleftrightarrow> (\<exists>cl. (u, cl) \<in> set (users g) \<and> (c, r) \<in> set cl)"
proof -
  have us: "map_of (users g) u = Some cl \<longleftrightarrow> (u, cl) \<in> set (users g)" for cl
    using assms by (intro map_of_Some_iff) (simp add: group_inv_def)
  have "map_of (clients_of g u) c = Some r \<longleftrightarrow> (c, r) \<in> set (clients_of g u)"
    by (rule map_of_Some_iff [OF group_inv_clients [OF assms]])
  also have "\<dots> \<longleftrightarrow> (\<exists>cl. map_of (users g) u = Some cl \<and> (c, r) \<in> set cl)"
    by (cases "map_of (users g) u") (simp_all add: clients_of_def)
  finally show ?thesis by (simp only: us)
qed

lemma group_entries:
  "group_inv g \<Longrightarrow> set (concat (map (\<lambda>(uid, cl). map (\<lambda>(cid, c). (uid, cid, c)) cl) (users g)))
    = {(u, c, r). map_of (clients_of g u) c = Some r}"
  by (force simp: clients_of_iff)

lemma set_RangeGroup:
  "pool_inv p \<Longrightarrow> set (Manager_RangeGroup p t) = {(u, c, r). pool_lookup p t u c = Some r}"
  by (cases "map_of (groups p) t")
    (simp add: Manager_RangeGroup_def getGroup_def pool_lookup_def,
     simp only: Manager_RangeGroup_def getGroup_def pool_lookup_def option.case
      group_entries [OF pool_inv_group])

lemma set_OnlineUserIDs:
  assumes "pool_inv p"
  shows "set (Manager_GetOnlineUserIDs p t) = {u. \<exists>c r. pool_lookup p t u c = Some r}"
proof (cases "map_of (groups p) t")
  case None
  then show ?thesis by (simp add: Manager_GetOnlineUserIDs_def getGroup_def pool_lookup_def)
next
  case (Some r)
  have "u \<in> fst ` set (users (group_heap p r)) \<longleftrightarrow> clients_of (group_heap p r) u \<noteq> []" for u
    using clients_of_empty_iff [OF pool_inv_group [OF assms], of r u]
    by (simp add: map_of_eq_None_iff)
  with Some show ?thesis
    by (simp add: Manager_GetOnlineUserIDs_def getGroup_def pool_lookup_def map_of_empty_iff) blast
qed

lemma distinct_OnlineUserIDs: "pool_inv p \<Longrightarrow> distinct (Manager_GetOnlineUserIDs p t)"
  using pool_inv_group [of p]
  by (auto simp: Manager_GetOnlineUserIDs_def getGroup_def group_inv_def keys_ok_def
      split: option.splits)

lemma UserCount_card:
  assumes "pool_inv p"
  shows "Manager_UserCount p = card {u. \<exists>t c r. pool_lookup p t u c = Some r}"
proof -
  let ?us = "concat (map (\<lambda>(_, r). map fst (users (group_heap p r))) (groups p))"
  have on: "set (Manager_GetOnlineUserIDs p t) =
      (case map_of (groups p) t of None \<Rightarrow> {} | Some r \<Rightarrow> fst ` set (users (group_heap p r)))" for t
    by (cases "map_of (groups p) t") (simp_all add: Manager_GetOnlineUserIDs_def getGroup_def)
  have "u \<in> set ?us \<longleftrightarrow> (\<exists>t. u \<in> set (Manager_GetOnlineUserIDs p t))" for u
  proof
    assume "u \<in> set ?us"
    then obtain t r where "(t, r) \<in> set (groups p)" and u: "u \<in> fst ` set (users (group_heap p r))"
      by auto
    then have "map_of (groups p) t = Some r" using assms by (simp add: pool_inv_def keys_ok_def)
    with u have "u \<in> set (Manager_GetOnlineUserIDs p t)" by (simp add: on)
    then show "\<exists>t. u \<in> set (Manager_GetOnlineUserIDs p t)" by blast
  next
    assume "\<exists>t. u \<in> set (Manager_GetOnlineUserIDs p t)"
    then obtain t where t: "u \<in> set (Manager_GetOnlineUserIDs p t)" by blast
    then obtain r where "map_of (groups p) t = Some r" and "u \<in> fst ` set (users (group_heap p r))"
      by (cases "map_of (groups p) t") (simp_all add: on)
    then show "u \<in> set ?us" by (force dest: map_of_SomeD)
  qed
  then have "set ?us = {u. \<exists>t c r. pool_lookup p t u c = Some r}"
    using set_OnlineUserIDs [OF assms] by blast
  then show ?thesis
    by (simp only: Manager_UserCount_def length_remdups_card_conv)
qed

lemma GroupCount_card:
  assumes "pool_inv p"
  shows "Manager_GroupCount p = card {t. \<exists>u c r. pool_lookup p t u c = Some r}"
proof -
  have "(\<exists>u c r. pool_lookup p t u c = Some r) \<longleftrightarrow> map_of (groups p) t \<noteq> None" for t
    using users_empty_iff [OF pool_inv_group [OF assms]] pool_inv_nonempty [OF assms, of t]
    by (cases "map_of (groups p) t") (auto simp: pool_lookup_def)
  then have "{t. \<exists>u c r. pool_lookup p t u c = Some r} = set (map fst (groups p))"
    by (auto simp: map_of_eq_None_iff)
  moreover have "distinct (map fst (groups p))"
    using assms by (simp add: pool_inv_def keys_ok_def)
  ultimately show ?thesis
    by (simp only: Manager_GroupCount_def distinct_card length_map)
qed

section \<open>The Connection interface\<close>

text \<open>
  What the pool and the dispatcher rely on: \<open>Close\<close> may be called again, it leaves the
  connection closed, and a write to an open connection never panics and leaves it open.
  \<open>conns_open\<close> is the client's invariant: every registered connection is open and registered
  under one key only.
\<close>

definition conns_open :: "('c \<Rightarrow> bool) \<Rightarrow> 'c pool \<Rightarrow> bool" where
  "conns_open op p =
     ((\<forall>t u c r. pool_lookup p t u c = Some r \<longrightarrow> op (conns p r)) \<and>
      (\<forall>t u c t' u' c' r. pool_lookup p t u c = Some r \<and> pool_lookup p t' u' c' = Some r
          \<longrightarrow> (t, u, c) = (t', u', c')))"

definition registered :: "'c pool \<Rightarrow> conn_ref \<Rightarrow> bool" where
  "registered p r = (\<exists>t u c. pool_lookup p t u c = Some r)"

lemma conns_openI:
  assumes "\<And>t u c r. pool_lookup p t u c = Some r \<Longrightarrow> op (conns p r)"
    and "\<And>t u c t' u' c' r. pool_lookup p t u c = Some r \<Longrightarrow> pool_lookup p t' u' c' = Some r
           \<Longrightarrow> (t, u, c) = (t', u', c')"
  shows "conns_open op p"
  using assms unfolding conns_open_def by blast

lemma conns_openD: "conns_open op p \<Longrightarrow> pool_lookup p t u c = Some r \<Longrightarrow> op (conns p r)"
  unfolding conns_open_def by blast

lemma conns_open_unique:
  "conns_open op p \<Longrightarrow> pool_lookup p t u c = Some r \<Longrightarrow> pool_lookup p t' u' c' = Some r
     \<Longrightarrow> (t', u', c') = (t, u, c)"
  unfolding conns_open_def by blast

lemma conns_Register:
  assumes "pool_inv p"
  shows "conns (Manager_Register cls t u c conn p) =
    (case pool_lookup p t u c of None \<Rightarrow> conns p | Some old \<Rightarrow> (conns p)(old := cls (conns p old)))"
  by (cases "map_of (groups p) t")
    (auto simp: Manager_Register_def getOrCreateGroup_def register_at_def Group_Register_def
      pool_lookup_def Let_def split: option.split)

lemma conns_Unregister:
  assumes "pool_inv p"
  shows "conns (Manager_Unregister cls t u c ex p) =
    (case pool_lookup p t u c of
       None \<Rightarrow> conns p
     | Some r \<Rightarrow> if ex = None \<or> ex = Some r then (conns p)(r := cls (conns p r)) else conns p)"
  by (auto simp: Manager_Unregister_def getGroup_def unregister_at_def Group_Unregister_def
      reclaim_def pool_lookup_def clients_of_def Let_def split: option.splits if_splits prod.splits)

locale connection =
  fixes cwrite :: "'c \<Rightarrow> 'd \<Rightarrow> write_outcome \<times> 'c"
    and cclose :: "'c \<Rightarrow> 'c"
    and is_open :: "'c \<Rightarrow> bool"
  assumes close_closes: "\<not> is_open (cclose c)"
    and close_again: "cclose (cclose c) = cclose c"
    and write_open: "is_open c \<Longrightarrow> cwrite c d = (w, c') \<Longrightarrow> w \<noteq> WritePanic \<and> is_open c'"
begin

lemma join_keeps_open:
  assumes inv: "pool_inv p" and opn: "conns_open is_open p"
    and new: "\<not> registered p r" and r: "is_open (conns p r)"
  shows "conns_open is_open (Manager_Register cclose t u c r p)"
proof (rule conns_openI)
  fix t' u' c' r'
  assume lk: "pool_lookup (Manager_Register cclose t u c r p) t' u' c' = Some r'"
  have "pool_lookup p t u c \<noteq> Some r' \<and> is_open (conns p r')"
  proof (cases "(t', u', c') = (t, u, c)")
    case True
    with lk inv have "r' = r" by (simp add: pool_lookup_Register)
    with new r show ?thesis by (auto simp: registered_def)
  next
    case False
    with lk inv have "pool_lookup p t' u' c' = Some r'"
      by (simp add: pool_lookup_Register split: if_splits)
    with False conns_open_unique [OF opn this, of t u c] conns_openD [OF opn this]
    show ?thesis by blast
  qed
  then show "is_open (conns (Manager_Register cclose t u c r p) r')"
    by (auto simp: conns_Register [OF inv] split: option.split)
next
  fix t1 u1 c1 t2 u2 c2 r'
  assume "pool_lookup (Manager_Register cclose t u c r p) t1 u1 c1 = Some r'"
    and "pool_lookup (Manager_Register cclose t u c r p) t2 u2 c2 = Some r'"
  with new conns_open_unique [OF opn, of t1 u1 c1 r' t2 u2 c2] show "(t1, u1, c1) = (t2, u2, c2)"
    by (auto simp: pool_lookup_Register [OF inv] registered_def split: if_splits)
qed

lemma leave_keeps_open:
  assumes inv: "pool_inv p" and opn: "conns_open is_open p"
  shows "conns_open is_open (Manager_Unregister cclose t u c ex p)"
proof (rule conns_openI)
  fix t' u' c' r'
  assume lk: "pool_lookup (Manager_Unregister cclose t u c ex p) t' u' c' = Some r'"
  then have old: "pool_lookup p t' u' c' = Some r'"
    by (simp add: pool_lookup_Unregister [OF inv] split: if_splits)
  show "is_open (conns (Manager_Unregister cclose t u c ex p) r')"
  proof (cases "pool_lookup p t u c = Some r' \<and> (ex = None \<or> ex = Some r')")
    case True
    with conns_open_unique [OF opn old, of t u c] lk show ?thesis
      by (simp add: pool_lookup_Unregister [OF inv])
  next
    case False
    then show ?thesis
      using conns_openD [OF opn old] by (auto simp: conns_Unregister [OF inv] split: option.split)
  qed
next
  fix t1 u1 c1 t2 u2 c2 r'
  assume "pool_lookup (Manager_Unregister cclose t u c ex p) t1 u1 c1 = Some r'"
    and "pool_lookup (Manager_Unregister cclose t u c ex p) t2 u2 c2 = Some r'"
  then show "(t1, u1, c1) = (t2, u2, c2)"
    using conns_open_unique [OF opn, of t2 u2 c2 r' t1 u1 c1]
    by (simp add: pool_lookup_Unregister [OF inv] split: if_splits)
qed

lemma registered_write_safe:
  assumes "conns_open is_open p" and "registered p r" and "cwrite (conns p r) d = (w, c')"
  shows "w \<noteq> WritePanic \<and> is_open c'"
proof -
  from assms(2) obtain t u c where "pool_lookup p t u c = Some r" unfolding registered_def by blast
  with assms(1) have "is_open (conns p r)" by (rule conns_openD)
  then show ?thesis using assms(3) by (rule write_open)
qed

end

definition hub_open :: "hub_conn \<Rightarrow> bool" where
  "hub_open c = (\<not> chan_closed c \<and> \<not> close_once c)"

interpretation sse: connection "HubSSEConnection_Write C" HubSSEConnection_Close hub_open for C
  by unfold_locales
    (auto simp: HubSSEConnection_Write_def HubSSEConnection_Close_def hub_open_def
      split: go_any.splits option.splits if_splits)

section \<open>Properties\<close>

text \<open>C8: The nested maps of groups, users and connections implement the abstract pool. Registering
  is an update of the abstract map at (tenant, user, connection id); unregistering removes the
  entry exactly when no connection was given or the entry still holds the given one, so a late
  \<open>Leave\<close> never removes the connection that replaced it; and both operations keep the pool's
  invariant, in particular no empty group and no user without a connection stays behind.\<close>
theorem pool_refines_abstract_pool:
  assumes "pool_inv p"
  shows "pool_abs (Manager_Register cls t u c r p) = abs_join t u c r (pool_abs p) \<and>
         pool_abs (Manager_Unregister cls t u c ex p) = abs_leave t u c ex (pool_abs p) \<and>
         pool_inv (Manager_Register cls t u c r p) \<and> pool_inv (Manager_Unregister cls t u c ex p)"
  using pool_inv_Register [OF assms] pool_inv_Unregister [OF assms]
  by (auto simp: pool_abs_def abs_join_def abs_leave_def fun_eq_iff
      pool_lookup_Register [OF assms] pool_lookup_Unregister [OF assms])

theorem pool_refines_abstract_pool_witness:
  "pool_abs (Manager_Register id ''T'' ''U'' ''c'' 7 (NewManager id))
     = abs_join ''T'' ''U'' ''c'' 7 (pool_abs (NewManager id))"
  using pool_refines_abstract_pool [OF pool_inv_New, of id "''T''" "''U''" "''c''" 7 id None] by blast

text \<open>C16: The dashboard's figures are exact: the online tenants, the online users (counted once over
  all tenants) and the users listed for a tenant are those with a connection in the pool, and a
  walk over a tenant's group or over one user visits exactly that tenant's or user's connections.\<close>
theorem pool_statistics_exact:
  assumes "pool_inv p"
  shows "Manager_GroupCount p = card {t. \<exists>u c r. pool_lookup p t u c = Some r} \<and>
         Manager_UserCount p = card {u. \<exists>t c r. pool_lookup p t u c = Some r} \<and>
         distinct (Manager_GetOnlineUserIDs p t) \<and>
         set (Manager_GetOnlineUserIDs p t) = {u. \<exists>c r. pool_lookup p t u c = Some r} \<and>
         set (Manager_RangeGroup p t) = {(u, c, r). pool_lookup p t u c = Some r} \<and>
         set (Manager_RangeUser p t u) = {(c, r). pool_lookup p t u c = Some r}"
  using GroupCount_card [OF assms] UserCount_card [OF assms] distinct_OnlineUserIDs [OF assms]
    set_OnlineUserIDs [OF assms] set_RangeGroup [OF assms] set_RangeUser [OF assms] by blast

theorem pool_statistics_exact_witness:
  "Manager_GroupCount (Manager_Register id ''T'' ''U'' ''c'' 7 (NewManager id)) =
     card {t. \<exists>u c r. pool_lookup (Manager_Register id ''T'' ''U'' ''c'' 7 (NewManager id)) t u c = Some r}
   \<and> Manager_GroupCount (Manager_Register id ''T'' ''U'' ''c'' 7 (NewManager id)) = 1"
proof (rule conjI)
  let ?p = "Manager_Register id ''T'' ''U'' ''c'' 7 (NewManager id)"
  show "Manager_GroupCount ?p = card {t. \<exists>u c r. pool_lookup ?p t u c = Some r}"
    using pool_statistics_exact [OF pool_inv_Register [OF pool_inv_New], of id "''T''" "''U''" "''c''" 7 id]
    by blast
  show "Manager_GroupCount ?p = 1"
    by (simp add: Manager_Register_def NewManager_def getOrCreateGroup_def register_at_def
        Group_Register_def Manager_GroupCount_def)
qed

end
