(* ===== verification/Pool_Race.thy ===== *)
theory Pool_Race
  imports Conn_Pool
begin

text \<open>
  Subscribers running concurrently. Every SSE request runs \<open>HubService.Subscribe\<close>
  (src/internal/service/hub.go) on its own goroutine: it registers a new connection, waits, and
  unregisters the same connection. \<open>Manager.Register\<close> is two critical sections
  (\<open>getOrCreateGroup\<close> under the manager's lock, then \<open>Group.Register\<close> under the group's lock)
  and \<open>Manager.Unregister\<close> is three (\<open>getGroup\<close>, \<open>Group.Unregister\<close>, and the recycling of an
  empty group), so other goroutines can run in between. A step of the relation is one critical
  section of one goroutine, or the dispatcher writing a payload to one registered connection
  under the group's read lock.

  Goroutine \<open>i\<close> owns connection \<open>i\<close>; \<open>who i\<close> gives its tenant, its user and its connection id.

  Shown: in every interleaving no write ever hits a closed channel (Go would panic and kill the
  process), and there is an interleaving after which a goroutine has completed its registration
  and is connected while the pool does not know its connection: it registered in a group that
  was recycled between its two critical sections.
\<close>

datatype sub_pc =
    Arriving
  | JoinAt group_ref
  | Connected
  | LeaveAt group_ref
  | Reclaiming
  | Gone

record race_state =
  pl :: "hub_conn pool"
  pcs :: "nat \<Rightarrow> sub_pc"
  panicked :: bool

type_synonym who = "nat \<Rightarrow> bytes \<times> bytes \<times> bytes"

definition tenant_of :: "who \<Rightarrow> nat \<Rightarrow> bytes" where "tenant_of w i = fst (w i)"
definition user_of :: "who \<Rightarrow> nat \<Rightarrow> bytes" where "user_of w i = fst (snd (w i))"
definition conn_of :: "who \<Rightarrow> nat \<Rightarrow> bytes" where "conn_of w i = snd (snd (w i))"

abbreviation (input) goto :: "race_state \<Rightarrow> nat \<Rightarrow> sub_pc \<Rightarrow> nat \<Rightarrow> sub_pc" where
  "goto s i k \<equiv> (pcs s)(i := k)"

definition race_init :: race_state where
  "race_init =
     \<lparr>pl = NewManager (\<lambda>_. new_hub_conn), pcs = (\<lambda>_. Arriving), panicked = False\<rparr>"

inductive race_step :: "codec \<Rightarrow> who \<Rightarrow> race_state \<Rightarrow> race_state \<Rightarrow> bool" for C w where
  join_get:
    "pcs s i = Arriving \<Longrightarrow> getOrCreateGroup (tenant_of w i) (pl s) = (g, p') \<Longrightarrow>
     race_step C w s (s\<lparr>pl := p', pcs := goto s i (JoinAt g)\<rparr>)"
| join_register:
    "pcs s i = JoinAt g \<Longrightarrow>
     race_step C w s
       (s\<lparr>pl := register_at HubSSEConnection_Close g (user_of w i) (conn_of w i) i (pl s),
          pcs := goto s i Connected\<rparr>)"
| leave_get:
    "pcs s i = Connected \<Longrightarrow> getGroup (tenant_of w i) (pl s) = Some g \<Longrightarrow>
     race_step C w s (s\<lparr>pcs := goto s i (LeaveAt g)\<rparr>)"
| leave_none:
    "pcs s i = Connected \<Longrightarrow> getGroup (tenant_of w i) (pl s) = None \<Longrightarrow>
     race_step C w s (s\<lparr>pcs := goto s i Gone\<rparr>)"
| leave_unregister:
    "pcs s i = LeaveAt g \<Longrightarrow>
     unregister_at HubSSEConnection_Close g (user_of w i) (conn_of w i) (Some i) (pl s) = (e, p') \<Longrightarrow>
     race_step C w s (s\<lparr>pl := p', pcs := goto s i (if e then Reclaiming else Gone)\<rparr>)"
| leave_reclaim:
    "pcs s i = Reclaiming \<Longrightarrow>
     race_step C w s (s\<lparr>pl := reclaim (tenant_of w i) (pl s), pcs := goto s i Gone\<rparr>)"
| deliver:
    "pool_lookup (pl s) t u c = Some r \<Longrightarrow>
     HubSSEConnection_Write C (conns (pl s) r) data = (out, cn) \<Longrightarrow>
     race_step C w s
       (s\<lparr>pl := (pl s)\<lparr>conns := (conns (pl s))(r := cn)\<rparr>,
          panicked := (panicked s \<or> out = WritePanic)\<rparr>)"

inductive race_reachable :: "codec \<Rightarrow> who \<Rightarrow> race_state \<Rightarrow> bool" for C w where
  start: "race_reachable C w race_init"
| step: "race_reachable C w s \<Longrightarrow> race_step C w s s' \<Longrightarrow> race_reachable C w s'"

text \<open>The next critical section of goroutine \<open>i\<close>, as a function: schedules can be run.\<close>
definition thread_step :: "who \<Rightarrow> nat \<Rightarrow> race_state \<Rightarrow> race_state" where
  "thread_step w i s =
     (case pcs s i of
        Arriving \<Rightarrow>
          (case getOrCreateGroup (tenant_of w i) (pl s) of
             (g, p') \<Rightarrow> s\<lparr>pl := p', pcs := goto s i (JoinAt g)\<rparr>)
      | JoinAt g \<Rightarrow>
          s\<lparr>pl := register_at HubSSEConnection_Close g (user_of w i) (conn_of w i) i (pl s),
            pcs := goto s i Connected\<rparr>
      | Connected \<Rightarrow>
          (case getGroup (tenant_of w i) (pl s) of
             None \<Rightarrow> s\<lparr>pcs := goto s i Gone\<rparr>
           | Some g \<Rightarrow> s\<lparr>pcs := goto s i (LeaveAt g)\<rparr>)
      | LeaveAt g \<Rightarrow>
          (case unregister_at HubSSEConnection_Close g (user_of w i) (conn_of w i) (Some i) (pl s) of
             (e, p') \<Rightarrow> s\<lparr>pl := p', pcs := goto s i (if e then Reclaiming else Gone)\<rparr>)
      | Reclaiming \<Rightarrow> s\<lparr>pl := reclaim (tenant_of w i) (pl s), pcs := goto s i Gone\<rparr>
      | Gone \<Rightarrow> s)"

definition run_schedule :: "who \<Rightarrow> nat list \<Rightarrow> race_state" where
  "run_schedule w is = fold (thread_step w) is race_init"

section \<open>The invariant\<close>

text \<open>Group \<open>g\<close> holds connection \<open>r\<close> for user \<open>u\<close> under id \<open>c\<close>; the group need not be in the manager.\<close>
definition held :: "'c pool \<Rightarrow> group_ref \<Rightarrow> bytes \<Rightarrow> bytes \<Rightarrow> conn_ref \<Rightarrow> bool" where
  "held p g u c r = (map_of (clients_of (group_heap p g) u) c = Some r)"

definition not_joined :: "sub_pc \<Rightarrow> bool" where
  "not_joined k = (case k of Arriving \<Rightarrow> True | JoinAt _ \<Rightarrow> True | _ \<Rightarrow> False)"

definition race_inv :: "race_state \<Rightarrow> bool" where
  "race_inv s =
     (refs_ok (pl s) \<and> \<not> panicked s \<and>
      (\<forall>g u c r. held (pl s) g u c r \<longrightarrow> hub_open (conns (pl s) r) \<and> \<not> not_joined (pcs s r)) \<and>
      (\<forall>g u c g' u' c' r. held (pl s) g u c r \<and> held (pl s) g' u' c' r \<longrightarrow> (g, u, c) = (g', u', c')) \<and>
      (\<forall>r. not_joined (pcs s r) \<longrightarrow> hub_open (conns (pl s) r)))"

lemma race_invI:
  assumes "refs_ok (pl s)" and "\<not> panicked s"
    and "\<And>g u c r. held (pl s) g u c r \<Longrightarrow> hub_open (conns (pl s) r) \<and> \<not> not_joined (pcs s r)"
    and "\<And>g u c g' u' c' r. held (pl s) g u c r \<Longrightarrow> held (pl s) g' u' c' r \<Longrightarrow> (g, u, c) = (g', u', c')"
    and "\<And>r. not_joined (pcs s r) \<Longrightarrow> hub_open (conns (pl s) r)"
  shows "race_inv s"
  using assms unfolding race_inv_def by blast

lemma race_invD:
  assumes "race_inv s"
  shows "refs_ok (pl s)" and "\<not> panicked s"
    and "held (pl s) g u c r \<Longrightarrow> hub_open (conns (pl s) r)"
    and "held (pl s) g u c r \<Longrightarrow> \<not> not_joined (pcs s r)"
    and "held (pl s) g u c r \<Longrightarrow> held (pl s) g' u' c' r \<Longrightarrow> g' = g \<and> u' = u \<and> c' = c"
    and "not_joined (pcs s r) \<Longrightarrow> hub_open (conns (pl s) r)"
  using assms unfolding race_inv_def by blast+

lemma not_joined_simps [simp]:
  "not_joined Arriving" "not_joined (JoinAt g)" "\<not> not_joined Connected"
  "\<not> not_joined (LeaveAt g)" "\<not> not_joined Reclaiming" "\<not> not_joined Gone"
  by (simp_all add: not_joined_def)

lemma race_inv_init: "race_inv race_init"
  by (rule race_invI)
    (auto simp: race_init_def NewManager_def refs_ok_def held_def new_hub_conn_def hub_open_def)

lemma lookup_held:
  "pool_lookup p t u c = Some r \<Longrightarrow> \<exists>g. map_of (groups p) t = Some g \<and> held p g u c r"
  by (cases "map_of (groups p) t") (auto simp: pool_lookup_def held_def)

text \<open>What each critical section does to the entries of the groups and to the connections.\<close>

lemma held_getOrCreate:
  "getOrCreateGroup t p = (g, p') \<Longrightarrow> held p' g' u c r \<Longrightarrow> held p g' u c r"
  by (auto simp: getOrCreateGroup_def held_def split: option.splits if_splits)

lemma conns_getOrCreate: "getOrCreateGroup t p = (g, p') \<Longrightarrow> conns p' = conns p"
  by (auto simp: getOrCreateGroup_def split: option.splits)

lemma held_register_at:
  "held (register_at cls g u c r p) g' u' c' r' \<longleftrightarrow>
     (if (g', u', c') = (g, u, c) then r' = r else held p g' u' c' r')"
  using clients_of_Register [of cls u c r "group_heap p g" "conns p" u']
  by (auto simp: held_def register_at_def split: prod.splits if_splits)

lemma conns_register_at:
  "conns (register_at cls g u c r p) =
     (case map_of (clients_of (group_heap p g) u) c of
        None \<Rightarrow> conns p | Some old \<Rightarrow> (conns p)(old := cls (conns p old)))"
  by (auto simp: register_at_def Group_Register_def Let_def split: option.split)

lemma held_unregister_at:
  assumes "refs_ok p" and "unregister_at cls g u c ex p = (e, p')"
  shows "held p' g' u' c' r' \<longleftrightarrow> held p g' u' c' r' \<and>
     \<not> ((g', u', c') = (g, u, c) \<and> (ex = None \<or> ex = Some r'))"
proof -
  obtain g1 h1 where u: "Group_Unregister cls u c ex (group_heap p g, conns p) = (e, g1, h1)"
    and p': "p' = p\<lparr>group_heap := (group_heap p)(g := g1), conns := h1\<rparr>"
    using assms(2) by (auto simp: unregister_at_def split: prod.splits)
  have "group_inv (group_heap p g)" using assms(1) by (simp add: refs_ok_def)
  from clients_of_Unregister [OF this u, of u' c'] show ?thesis
    by (auto simp: held_def p' split: if_splits)
qed

lemma conns_unregister_at:
  "unregister_at cls g u c ex p = (e, p') \<Longrightarrow>
   conns p' =
     (case map_of (clients_of (group_heap p g) u) c of
        None \<Rightarrow> conns p
      | Some r \<Rightarrow> if ex = None \<or> ex = Some r then (conns p)(r := cls (conns p r)) else conns p)"
  by (auto simp: unregister_at_def Group_Unregister_def clients_of_def Let_def
      split: option.splits if_splits)

lemma reclaim_frame [simp]: "held (reclaim t p) = held p" "conns (reclaim t p) = conns p"
  by (auto simp: reclaim_def held_def fun_eq_iff split: option.splits)

section \<open>Every critical section keeps the invariant\<close>

text \<open>Sections that add no entry, close nothing and move no goroutine past its registration.\<close>

lemma race_inv_frame:
  assumes inv: "race_inv s" and "refs_ok (pl s')" and "\<not> panicked s'"
    and hd: "\<And>g u c r. held (pl s') g u c r \<Longrightarrow> held (pl s) g u c r"
    and op: "\<And>r. hub_open (conns (pl s) r) \<Longrightarrow> hub_open (conns (pl s') r)"
    and nj: "\<And>r. not_joined (pcs s' r) = not_joined (pcs s r)"
  shows "race_inv s'"
proof (rule race_invI)
  fix g u c r assume "held (pl s') g u c r"
  then have "held (pl s) g u c r" by (rule hd)
  with race_invD(3,4) [OF inv this] op nj show "hub_open (conns (pl s') r) \<and> \<not> not_joined (pcs s' r)"
    by simp
next
  fix g u c g' u' c' r assume "held (pl s') g u c r" and "held (pl s') g' u' c' r"
  then have "held (pl s) g u c r" and "held (pl s) g' u' c' r" by (auto intro: hd)
  from race_invD(5) [OF inv this] show "(g, u, c) = (g', u', c')" by simp
next
  fix r assume "not_joined (pcs s' r)"
  then show "hub_open (conns (pl s') r)" using race_invD(6) [OF inv, of r] op nj by simp
qed (use assms in simp_all)

lemma inv_join_get:
  assumes inv: "race_inv s" and pc: "pcs s i = Arriving"
    and get: "getOrCreateGroup t (pl s) = (g, p')"
  shows "race_inv (s\<lparr>pl := p', pcs := goto s i (JoinAt g)\<rparr>)"
  using inv refs_ok_getOrCreate [OF race_invD(1) [OF inv] get] race_invD(2) [OF inv]
    held_getOrCreate [OF get] conns_getOrCreate [OF get] pc
  by (intro race_inv_frame [OF inv]) auto

lemma inv_join_register:
  assumes inv: "race_inv s" and pc: "pcs s i = JoinAt g"
  shows "race_inv (s\<lparr>pl := register_at HubSSEConnection_Close g u c i (pl s),
                    pcs := goto s i Connected\<rparr>)" (is "race_inv ?s'")
proof -
  have new: "\<not> held (pl s) g' u' c' i" for g' u' c'
    using race_invD(4) [OF inv, of g' u' c' i] pc by auto
  have opn: "hub_open (conns (pl ?s') r)"
    if "hub_open (conns (pl s) r)" and "\<not> held (pl s) g u c r" for r
    using that by (auto simp: conns_register_at held_def split: option.split)
  have i: "hub_open (conns (pl ?s') i)"
    using opn new race_invD(6) [OF inv, of i] pc by simp
  show ?thesis
  proof (rule race_invI)
    show "refs_ok (pl ?s')" using race_invD(1) [OF inv] by (simp add: refs_ok_register_at)
    show "\<not> panicked ?s'" using race_invD(2) [OF inv] by simp
  next
    fix g' u' c' r assume h: "held (pl ?s') g' u' c' r"
    show "hub_open (conns (pl ?s') r) \<and> \<not> not_joined (pcs ?s' r)"
    proof (cases "(g', u', c') = (g, u, c)")
      case True
      with h i show ?thesis by (simp add: held_register_at)
    next
      case False
      with h have old: "held (pl s) g' u' c' r" by (simp add: held_register_at split: if_splits)
      with False race_invD(5) [OF inv old, of g u c] have "\<not> held (pl s) g u c r" by blast
      with old race_invD(3,4) [OF inv old] opn new show ?thesis by auto
    qed
  next
    fix g1 u1 c1 g2 u2 c2 r
    assume "held (pl ?s') g1 u1 c1 r" and "held (pl ?s') g2 u2 c2 r"
    with new race_invD(5) [OF inv, of g2 u2 c2 r g1 u1 c1] show "(g1, u1, c1) = (g2, u2, c2)"
      by (auto simp: held_register_at split: if_splits)
  next
    fix r assume nj: "not_joined (pcs ?s' r)"
    then have "not_joined (pcs s r)" by (auto split: if_splits)
    with race_invD(4) [OF inv, of g u c r] race_invD(6) [OF inv, of r] opn
    show "hub_open (conns (pl ?s') r)" by blast
  qed
qed

lemma inv_leave_unregister:
  assumes inv: "race_inv s" and pc: "pcs s i = LeaveAt g" and k: "\<not> not_joined k"
    and un: "unregister_at HubSSEConnection_Close g u c (Some i) (pl s) = (e, p')"
  shows "race_inv (s\<lparr>pl := p', pcs := goto s i k\<rparr>)" (is "race_inv ?s'")
proof -
  note hu = held_unregister_at [OF race_invD(1) [OF inv] un]
  have opn: "hub_open (conns p' r)"
    if "hub_open (conns (pl s) r)" and "\<not> held (pl s) g u c i \<or> r \<noteq> i" for r
    using that by (auto simp: conns_unregister_at [OF un] held_def split: option.split)
  show ?thesis
  proof (rule race_invI)
    show "refs_ok (pl ?s')" using refs_ok_unregister_at [OF race_invD(1) [OF inv] un] by simp
    show "\<not> panicked ?s'" using race_invD(2) [OF inv] by simp
  next
    fix g' u' c' r assume h: "held (pl ?s') g' u' c' r"
    then have old: "held (pl s) g' u' c' r" and keep: "\<not> ((g', u', c') = (g, u, c) \<and> r = i)"
      by (auto simp: hu)
    have "\<not> held (pl s) g u c i \<or> r \<noteq> i"
      using race_invD(5) [OF inv old, of g u c] keep by blast
    with race_invD(3,4) [OF inv old] opn k show "hub_open (conns (pl ?s') r) \<and> \<not> not_joined (pcs ?s' r)"
      by auto
  next
    fix g1 u1 c1 g2 u2 c2 r
    assume "held (pl ?s') g1 u1 c1 r" and "held (pl ?s') g2 u2 c2 r"
    with race_invD(5) [OF inv, of g2 u2 c2 r g1 u1 c1] show "(g1, u1, c1) = (g2, u2, c2)"
      by (auto simp: hu)
  next
    fix r assume "not_joined (pcs ?s' r)"
    with k have nj: "not_joined (pcs s r)" and "r \<noteq> i" by (auto split: if_splits)
    with race_invD(6) [OF inv, of r] opn show "hub_open (conns (pl ?s') r)" by simp
  qed
qed

lemma inv_deliver:
  assumes inv: "race_inv s" and lk: "pool_lookup (pl s) t u c = Some r"
    and wr: "HubSSEConnection_Write C (conns (pl s) r) data = (out, cn)"
  shows "race_inv (s\<lparr>pl := (pl s)\<lparr>conns := (conns (pl s))(r := cn)\<rparr>,
                    panicked := (panicked s \<or> out = WritePanic)\<rparr>)" (is "race_inv ?s'")
proof -
  obtain g where h: "held (pl s) g u c r" using lookup_held [OF lk] by blast
  have cn: "out \<noteq> WritePanic" "hub_open cn"
    using sse.write_open [OF race_invD(3) [OF inv h] wr] by auto
  show ?thesis
    using race_invD(1,2) [OF inv] cn
    by (intro race_inv_frame [OF inv]) (auto simp: refs_ok_def held_def)
qed

lemma race_step_inv: "race_step C w s s' \<Longrightarrow> race_inv s \<Longrightarrow> race_inv s'"
proof (induction rule: race_step.induct)
  case (join_get s i g p')
  then show ?case by (intro inv_join_get)
next
  case (join_register s i g)
  then show ?case by (intro inv_join_register)
next
  case (leave_get s i g)
  then show ?case by (intro race_inv_frame [OF leave_get.prems]) (auto simp: race_invD)
next
  case (leave_none s i)
  then show ?case by (intro race_inv_frame [OF leave_none.prems]) (auto simp: race_invD)
next
  case (leave_unregister s i g e p')
  then show ?case by (intro inv_leave_unregister) auto
next
  case (leave_reclaim s i)
  then show ?case
    by (intro race_inv_frame [OF leave_reclaim.prems]) (auto simp: race_invD refs_ok_reclaim)
next
  case (deliver s t u c r data out cn)
  then show ?case by (intro inv_deliver)
qed

lemma reachable_race_inv: "race_reachable C w s \<Longrightarrow> race_inv s"
  by (induction rule: race_reachable.induct) (auto intro: race_inv_init race_step_inv)

section \<open>Schedules\<close>

lemma thread_step_race_step: "thread_step w i s = s \<or> race_step C w s (thread_step w i s)"
proof (cases "pcs s i")
  case (LeaveAt g)
  obtain e p' where un:
    "unregister_at HubSSEConnection_Close g (user_of w i) (conn_of w i) (Some i) (pl s) = (e, p')"
    by fastforce
  show ?thesis
    using race_step.leave_unregister [where C = C, OF LeaveAt un] by (simp add: thread_step_def LeaveAt un)
qed (auto simp: thread_step_def intro: race_step.intros split: prod.split option.split)

lemma reachable_fold:
  "race_reachable C w s \<Longrightarrow> race_reachable C w (fold (thread_step w) is s)"
proof (induction "is" arbitrary: s)
  case Nil
  then show ?case by simp
next
  case (Cons i "is")
  have "race_reachable C w (thread_step w i s)"
    using thread_step_race_step [of w i s C] Cons.prems by (metis race_reachable.step)
  then show ?case by (simp add: Cons.IH)
qed

lemma reachable_schedule: "race_reachable C w (run_schedule w is)"
  unfolding run_schedule_def by (rule reachable_fold [OF race_reachable.start])

lemma not_registered_no_groups: "groups p = [] \<Longrightarrow> \<not> registered p r"
  by (simp add: registered_def pool_lookup_def)

text \<open>Goroutine \<open>i\<close> of one tenant, with a connection id of its own.\<close>
definition same_tenant :: who where
  "same_tenant i = (''T'', ''U'', replicate i (CHR ''x''))"

lemma inj_same_tenant: "inj same_tenant"
  by (rule injI) (simp add: same_tenant_def)

lemma lost_schedule:
  "pcs (run_schedule same_tenant [0, 0, 1, 0, 0, 0, 1]) 1 = Connected"
  "groups (pl (run_schedule same_tenant [0, 0, 1, 0, 0, 0, 1])) = []"
  by (simp_all add: run_schedule_def thread_step_def race_init_def NewManager_def same_tenant_def
      tenant_of_def user_of_def conn_of_def getOrCreateGroup_def getGroup_def register_at_def
      unregister_at_def Group_Register_def Group_Unregister_def reclaim_def Group_IsEmpty_def
      clients_of_def empty_group_def)

section \<open>Properties\<close>



text \<open>C17: A registration can be lost. There is a run of two subscribers of one tenant, with distinct
  connection ids, after which the second one has completed its registration and waits for messages
  on an open channel, while the pool knows no connection of it: the group it obtained was recycled,
  by the first subscriber's leaving, before it registered there. Nothing sent to that tenant or
  user reaches it.\<close>
theorem registration_can_be_lost:
  "\<exists>w s. inj w \<and> race_reachable C w s \<and> pcs s 1 = Connected \<and> \<not> registered (pl s) 1"
proof (intro exI conjI)
  show "inj same_tenant" by (rule inj_same_tenant)
  show "race_reachable C same_tenant (run_schedule same_tenant [0, 0, 1, 0, 0, 0, 1])"
    by (rule reachable_schedule)
  show "pcs (run_schedule same_tenant [0, 0, 1, 0, 0, 0, 1]) 1 = Connected"
    by (rule lost_schedule(1))
  show "\<not> registered (pl (run_schedule same_tenant [0, 0, 1, 0, 0, 0, 1])) 1"
    by (rule not_registered_no_groups [OF lost_schedule(2)])
qed

end
