(* ===== verification/Http.thy ===== *)
theory Http
  imports Hub_Constants
begin

text \<open>
  Requests and responses as the handlers and guards see them: src/pkg/response/response.go and the trace
  guard src/internal/middleware/trace.go. The web framework hertz is not part of the repository; what
  the code reads of a request (headers, cookies, query parameters, the client's address) are functions
  to byte strings, empty where the request has nothing. The request's context holds the trace id,
  the framework's per-request keys hold the tenant a guard has set.

  A handler turns the request's keys and the state into a response and a state; a guard is a function
  from handlers to handlers. The texts of responses are constructors of \<open>web_msg\<close>.
\<close>

record request =
  rq_Method :: bytes
  rq_Path :: bytes
  rq_Header :: "bytes \<Rightarrow> bytes"
  rq_Cookie :: "bytes \<Rightarrow> bytes"
  rq_Query :: "bytes \<Rightarrow> bytes"
  rq_ClientIP :: bytes
  rq_Body :: bytes

datatype web_msg =
    OfError err_msg
  | MsgNotLoggedIn | MsgAdminSession | MsgLocalOnly | MsgSessionExpired | MsgWrongPassword | MsgLoginParams
  | MsgLoginOk | MsgLogoutOk | MsgSendOk | MsgBroadcastOk | MsgQueryOk | MsgReadOk | MsgReadAllOk
  | MsgDeleteOk | MsgClearOk | MsgTicketOk | MsgDashboardOk

record 'd body =
  b_Code :: int
  b_Msg :: web_msg
  b_Data :: "'d option"
  b_TraceID :: bytes

text \<open>
  What the framework sends: a JSON body, a redirect, a bare text, a static file
  with its content type, an event stream, or
  the empty response of a handler that wrote nothing.
\<close>
datatype 'd response =
    Json int "'d body"
  | Redirect int bytes
  | Text int bytes
  | File bytes bytes
  | Stream "(bytes \<times> bytes \<times> bytes) list"
  | Nothing

datatype set_cookie = SetCookie bytes bytes int

text \<open>The request's context: the value under the trace key, if any.\<close>
type_synonym ctx = "bytes option"

definition GetTraceID :: "ctx \<Rightarrow> bytes" where
  "GetTraceID c = (case c of Some traceID \<Rightarrow> traceID | None \<Rightarrow> [])"

definition SetTraceID :: "ctx \<Rightarrow> bytes \<Rightarrow> ctx" where
  "SetTraceID c traceID = Some traceID"

definition StatusOK :: int where "StatusOK = 200"

definition OkResp :: "ctx \<Rightarrow> web_msg \<Rightarrow> 'd option \<Rightarrow> 'd response" where
  "OkResp c msg data = Json StatusOK \<lparr>b_Code = Success, b_Msg = msg, b_Data = data, b_TraceID = GetTraceID c\<rparr>"

definition ErrResp :: "ctx \<Rightarrow> code_error \<Rightarrow> 'd response" where
  "ErrResp c err =
     Json StatusOK \<lparr>b_Code = InternalError, b_Msg = OfError (Msg err), b_Data = None, b_TraceID = GetTraceID c\<rparr>"

text \<open>Handlers: context, the tenant key, the state.\<close>
type_synonym ('d, 'w) handler = "ctx \<Rightarrow> bytes option \<Rightarrow> 'w \<Rightarrow> 'd response \<times> 'w"

text \<open>\<open>TraceMiddleware\<close>: \<open>fresh\<close> is the text of a new uuid. It also answers with the id as a header.\<close>
definition TraceMiddleware :: "bytes \<Rightarrow> request \<Rightarrow> ('d, 'w) handler \<Rightarrow> ('d, 'w) handler" where
  "TraceMiddleware fresh rq next c tenant w =
     (let traceID = (if rq_Header rq ''X-Trace-UserID'' = [] then fresh else rq_Header rq ''X-Trace-UserID'')
      in next (SetTraceID c traceID) tenant w)"

lemma trace_roundtrip [simp]: "GetTraceID (SetTraceID c t) = t"
  by (simp add: GetTraceID_def SetTraceID_def)

text \<open>The code of an error never reaches the client: every error response is an internal error.\<close>
lemma error_code_dropped: "ErrResp c (NewCodeError code m) = ErrResp c (NewCodeError code' m)"
  by (simp add: ErrResp_def NewCodeError_def)

end
