(* ===== verification/Go_Base64.thy ===== *)
theory Go_Base64
  imports Hub_Prelude
begin

text \<open>
  Base64 of Go's package encoding/base64 with padding: \<open>EncodeToString\<close> and \<open>DecodeString\<close> of an
  encoding with the given alphabet. The decoder skips newlines and carriage returns, accepts padding
  at the very end only, and ignores the unused bits of the last group, as the package does. Shown:
  decoding inverts encoding for every alphabet of 64 distinct characters without the padding and the
  newline characters.
\<close>

definition b64_std :: bytes where
  "b64_std = ''ABCDEFGHIJKLMNOPQRSTUVWXYZabcdefghijklmnopqrstuvwxyz0123456789+/''"

definition b64_url :: bytes where
  "b64_url = ''ABCDEFGHIJKLMNOPQRSTUVWXYZabcdefghijklmnopqrstuvwxyz0123456789-_''"

definition b64_pad :: char where "b64_pad = CHR ''=''"

definition index_of :: "bytes \<Rightarrow> char \<Rightarrow> nat option" where
  "index_of alphabet c = (if c \<in> set alphabet then Some (length (takeWhile (\<lambda>x. x \<noteq> c) alphabet)) else None)"

text \<open>The four digits of a 24-bit group, and its three bytes.\<close>
definition b64_digits :: "bytes \<Rightarrow> nat \<Rightarrow> bytes" where
  "b64_digits alphabet n =
     [alphabet ! (n div 262144 mod 64), alphabet ! (n div 4096 mod 64), alphabet ! (n div 64 mod 64), alphabet ! (n mod 64)]"

definition b64_bytes :: "nat \<Rightarrow> bytes" where
  "b64_bytes n = [char_of (n div 65536), char_of (n div 256), char_of n]"

fun b64_encode :: "bytes \<Rightarrow> bytes \<Rightarrow> bytes" where
  "b64_encode alphabet [] = []"
| "b64_encode alphabet [a] = take 2 (b64_digits alphabet (of_char a * 65536)) @ [b64_pad, b64_pad]"
| "b64_encode alphabet [a, b] =
     take 3 (b64_digits alphabet (of_char a * 65536 + of_char b * 256)) @ [b64_pad]"
| "b64_encode alphabet (a # b # c # xs) =
     b64_digits alphabet (of_char a * 65536 + of_char b * 256 + of_char c) @ b64_encode alphabet xs"

fun b64_decode_groups :: "bytes \<Rightarrow> bytes \<Rightarrow> bytes option" where
  "b64_decode_groups alphabet [] = Some []"
| "b64_decode_groups alphabet (a # b # c # d # xs) =
     (case (index_of alphabet a, index_of alphabet b) of
        (Some x, Some y) \<Rightarrow>
          if c = b64_pad then
            (if d = b64_pad \<and> xs = [] then Some (take 1 (b64_bytes (x * 262144 + y * 4096))) else None)
          else
            (case index_of alphabet c of
               None \<Rightarrow> None
             | Some z \<Rightarrow>
                 if d = b64_pad then
                   (if xs = [] then Some (take 2 (b64_bytes (x * 262144 + y * 4096 + z * 64))) else None)
                 else
                   (case index_of alphabet d of
                      None \<Rightarrow> None
                    | Some v \<Rightarrow>
                        map_option (append (b64_bytes (x * 262144 + y * 4096 + z * 64 + v)))
                          (b64_decode_groups alphabet xs)))
      | _ \<Rightarrow> None)"
| "b64_decode_groups alphabet _ = None"

definition b64_skipped :: "char \<Rightarrow> bool" where
  "b64_skipped c = (c = CHR ''\<newline>'' \<or> c = CHR 0x0D)"

definition b64_decode :: "bytes \<Rightarrow> bytes \<Rightarrow> bytes option" where
  "b64_decode alphabet s = b64_decode_groups alphabet (filter (\<lambda>c. \<not> b64_skipped c) s)"

definition alphabet_ok :: "bytes \<Rightarrow> bool" where
  "alphabet_ok a = (length a = 64 \<and> distinct a \<and> b64_pad \<notin> set a \<and> (\<forall>c \<in> set a. \<not> b64_skipped c))"

lemma alphabets [simp]: "alphabet_ok b64_std" "alphabet_ok b64_url"
  by code_simp+

lemma index_of_nth: "distinct a \<Longrightarrow> n < length a \<Longrightarrow> index_of a (a ! n) = Some n"
proof -
  assume a: "distinct a" "n < length a"
  have "takeWhile (\<lambda>x. x \<noteq> a ! n) (take n a @ a ! n # drop (Suc n) a) = take n a"
    using a by (subst takeWhile_append2) (auto simp: in_set_conv_nth distinct_conv_nth)
  with a show ?thesis by (simp add: index_of_def id_take_nth_drop [symmetric])
qed

lemma alphabet_digit:
  assumes "alphabet_ok a" and "n < 64"
  shows "index_of a (a ! n) = Some n \<and> a ! n \<noteq> b64_pad \<and> \<not> b64_skipped (a ! n)"
proof -
  have "a ! n \<in> set a" using assms by (simp add: alphabet_ok_def)
  with assms show ?thesis unfolding alphabet_ok_def by (metis index_of_nth)
qed

lemma digits_join:
  assumes "(n :: nat) < 16777216"
  shows "n div 262144 mod 64 * 262144 + n div 4096 mod 64 * 4096 + n div 64 mod 64 * 64 + n mod 64 = n"
proof -
  have "n div 262144 mod 64 = n div 262144" using assms by (simp add: less_mult_imp_div_less)
  moreover have "n div 4096 div 64 = n div 262144" "n div 64 div 64 = n div 4096"
    by (simp_all add: div_mult2_eq [symmetric])
  ultimately show ?thesis
    using div_mult_mod_eq [of n 64] div_mult_mod_eq [of "n div 64" 64] div_mult_mod_eq [of "n div 4096" 64]
    by linarith
qed

lemma of_char_less: "of_char (x :: char) < (256 :: nat)"
  using of_char_mod_256 [of x, where 'a = nat] mod_less_divisor [of 256 "of_char x :: nat"] by simp

lemma group_parts:
  assumes "B < 256" and "C < (256 :: nat)"
  shows "(A * 65536 + B * 256 + C) div 65536 = A" "(A * 65536 + B * 256 + C) div 256 = A * 256 + B"
    "(A * 65536 + B * 256 + C) mod 256 = C"
proof -
  have n: "A * 65536 + B * 256 + C = (B * 256 + C) + A * 65536" "A * 65536 + B * 256 + C = C + (A * 256 + B) * 256"
    by simp_all
  have "B * 256 + C < 65536" using assms by linarith
  then show "(A * 65536 + B * 256 + C) div 65536 = A" unfolding n(1) by simp
  show "(A * 65536 + B * 256 + C) div 256 = A * 256 + B" unfolding n(2) using assms(2) by simp
  show "(A * 65536 + B * 256 + C) mod 256 = C" unfolding n(2) using assms(2) by (simp only: mod_mult_self1 mod_less)
qed

lemma bytes_split:
  "b64_bytes (of_char a * 65536 + of_char b * 256 + of_char c) = [a, b, c]"
proof -
  have k: "(char_of n :: char) = char_of (n mod 256)" for n :: nat by simp
  have m: "(of_char a * 256 + of_char b) mod 256 = (of_char b :: nat)" using of_char_less [of b] by simp
  let ?n = "of_char a * 65536 + of_char b * 256 + of_char c :: nat"
  note g = group_parts [OF of_char_less [of b] of_char_less [of c], of "of_char a"]
  have "char_of (?n div 256) = b" by (metis k g(2) m char_of_char)
  moreover have "char_of ?n = c" by (metis k g(3) char_of_char)
  ultimately show ?thesis by (simp only: b64_bytes_def g(1) char_of_char)
qed

lemma group_less: "of_char a * 65536 + of_char b * 256 + of_char c < (16777216 :: nat)"
  using of_char_less [of a] of_char_less [of b] of_char_less [of c] by linarith

lemma encode_no_skips: "alphabet_ok al \<Longrightarrow> c \<in> set (b64_encode al xs) \<Longrightarrow> \<not> b64_skipped c"
proof (induction al xs rule: b64_encode.induct)
  have pad: "\<not> b64_skipped b64_pad" by code_simp
  have dig: "alphabet_ok al \<Longrightarrow> c \<in> set (b64_digits al n) \<Longrightarrow> \<not> b64_skipped c" for al n
    by (auto simp: b64_digits_def alphabet_digit)
  {
    case (2 al a)
    with pad dig show ?case by (auto dest!: in_set_takeD)
  next
    case (3 al a b)
    with pad dig show ?case by (auto dest!: in_set_takeD)
  next
    case (4 al a b c xs)
    with dig show ?case by auto
  }
qed simp

text \<open>A group of fewer than three bytes is padded with zeros, which the decoder cuts off again.\<close>
lemma group_digits:
  assumes "n = of_char a * 65536 + of_char b * 256 + of_char c"
  obtains x y z v where "x < 64" "y < 64" "z < 64" "v < 64" "b64_digits al n = [al ! x, al ! y, al ! z, al ! v]"
    "b64_bytes (x * 262144 + y * 4096 + z * 64 + v) = [a, b, c]" "z = n div 64 mod 64" "v = n mod 64"
proof (rule that [of "n div 262144 mod 64" "n div 4096 mod 64" "n div 64 mod 64" "n mod 64"])
  show "b64_bytes (n div 262144 mod 64 * 262144 + n div 4096 mod 64 * 4096 + n div 64 mod 64 * 64 + n mod 64) = [a, b, c]"
    unfolding assms digits_join [OF group_less [of a b c]] by (rule bytes_split)
qed (simp_all add: b64_digits_def)

lemma decode_groups_encode:
  "alphabet_ok al \<Longrightarrow> b64_decode_groups al (b64_encode al xs) = Some xs"
proof (induction al xs rule: b64_encode.induct)
  case (2 al a)
  define n :: nat where "n = of_char a * 65536 + of_char (CHR 0x00) * 256 + of_char (CHR 0x00)"
  have z: "n div 64 mod 64 = 0" "n mod 64 = 0" "of_char a * 65536 = n" by (simp_all add: n_def)
  obtain x y where "x < 64" "y < 64" "b64_digits al n = [al ! x, al ! y, al ! 0, al ! 0]"
    "b64_bytes (x * 262144 + y * 4096) = [a, CHR 0x00, CHR 0x00]"
    by (rule group_digits [OF n_def, of al]) (auto simp: z)
  with 2 show ?case by (simp add: z(3) alphabet_digit)
next
  case (3 al a b)
  define n :: nat where "n = of_char a * 65536 + of_char b * 256 + of_char (CHR 0x00)"
  have z: "n mod 64 = 0" "of_char a * 65536 + of_char b * 256 = n" by (simp_all add: n_def)
  obtain x y k where "x < 64" "y < 64" "k < 64" "b64_digits al n = [al ! x, al ! y, al ! k, al ! 0]"
    "b64_bytes (x * 262144 + y * 4096 + k * 64) = [a, b, CHR 0x00]"
    by (rule group_digits [OF n_def, of al]) (simp only: z mult_0 add_0_right)
  with 3 show ?case by (simp add: z(2) alphabet_digit numeral_3_eq_3)
next
  case (4 al a b c xs)
  define n :: nat where "n = of_char a * 65536 + of_char b * 256 + of_char c"
  obtain x y k v where "x < 64" "y < 64" "k < 64" "v < 64" "b64_digits al n = [al ! x, al ! y, al ! k, al ! v]"
    "b64_bytes (x * 262144 + y * 4096 + k * 64 + v) = [a, b, c]"
    by (rule group_digits [OF n_def, of al])
  with 4 show ?case by (simp add: n_def [symmetric] alphabet_digit)
qed simp

lemma b64_roundtrip [simp]: "alphabet_ok al \<Longrightarrow> b64_decode al (b64_encode al xs) = Some xs"
proof -
  assume a: "alphabet_ok al"
  have "filter (\<lambda>c. \<not> b64_skipped c) (b64_encode al xs) = b64_encode al xs"
    using encode_no_skips [OF a] by (simp add: filter_id_conv)
  with decode_groups_encode [OF a] show ?thesis by (simp add: b64_decode_def)
qed

end
