(* ===== verification/Jwt.thy ===== *)
theory Jwt
  imports Go_Base64 Hub_Constants
begin

text \<open>
  JSON web tokens: src/pkg/jwtutil/jwtutil.go. The third-party package golang-jwt and Go's key parsers
  (encoding/pem, crypto/x509) are parameters. \<open>jwt_lib\<close> holds \<open>jwt.Parse\<close> without claims validation
  (given the key function, which sees the token's algorithm), \<open>GetExpirationTime\<close> and a validator
  that requires an expiry; \<open>jwt_signed\<close> is the meaning of a signature, and \<open>jwt_ok\<close> what the code relies
  on: a token that parses was verified with the key its algorithm was given, and the validator lets no
  expired token pass.

  Shown: an accepted token is signed with RS256 under the configured key, carries the service's tag, and
  if it has an expiry has not reached it; a service without a tag accepts nothing; and which texts of a
  key are the same key.
\<close>

text \<open>A claim: null, a string, or another JSON value by its text.\<close>
datatype claim = ClaimNull | ClaimString bytes | ClaimOther bytes

type_synonym claims = "bytes \<Rightarrow> claim option"

record 'k jwt_lib =
  jwt_Parse :: "bytes \<Rightarrow> (bytes \<Rightarrow> 'k option) \<Rightarrow> (bool \<times> claims option) option"
  jwt_GetExpirationTime :: "claims \<Rightarrow> time option option"
  jwt_Validate :: "time \<Rightarrow> claims \<Rightarrow> bool"
  jwt_signed :: "bytes \<Rightarrow> bytes \<Rightarrow> 'k \<Rightarrow> claims option \<Rightarrow> bool"

definition jwt_ok :: "'k jwt_lib \<Rightarrow> bool" where
  "jwt_ok L =
     ((\<forall>tok kf c. jwt_Parse L tok kf = Some (True, c) \<longrightarrow> (\<exists>alg k. kf alg = Some k \<and> jwt_signed L tok alg k c)) \<and>
      (\<forall>now c t. jwt_Validate L now c \<longrightarrow> jwt_GetExpirationTime L c = Some (Some t) \<longrightarrow> now < t))"

section \<open>Keys\<close>

datatype 'k pkix = PkixRSA 'k | PkixOther

record 'k key_parsers =
  pem_Decode :: "bytes \<Rightarrow> bytes option"
  ParsePKIXPublicKey :: "bytes \<Rightarrow> 'k pkix option"
  ParsePKCS1PublicKey :: "bytes \<Rightarrow> 'k option"

datatype key_err = KeyEmpty | PemInvalid | Base64Invalid | KeyUnparsable | KeyNotRSA

definition clean_base64 :: "bytes \<Rightarrow> bytes" where
  "clean_base64 raw = filter (\<lambda>c. c \<noteq> CHR '' '') (filter (\<lambda>c. c \<noteq> CHR 0x0D) (filter (\<lambda>c. c \<noteq> CHR 0x0A) raw))"

definition ParseRSAPublicKey :: "'k key_parsers \<Rightarrow> bytes \<Rightarrow> key_err + 'k" where
  "ParseRSAPublicKey X raw0 =
     (let raw = TrimSpace raw0 in
      if raw = [] then Inl KeyEmpty
      else
        (case (if HasPrefix raw ''-----'' then
                 (case pem_Decode X raw of None \<Rightarrow> Inl PemInvalid | Some b \<Rightarrow> Inr b)
               else
                 (case b64_decode b64_std (clean_base64 raw) of None \<Rightarrow> Inl Base64Invalid | Some b \<Rightarrow> Inr b)) of
           Inl e \<Rightarrow> Inl e
         | Inr derBytes \<Rightarrow>
             (case ParsePKIXPublicKey X derBytes of
                None \<Rightarrow>
                  (case ParsePKCS1PublicKey X derBytes of
                     None \<Rightarrow> Inl KeyUnparsable
                   | Some pkcs1Key \<Rightarrow> Inr pkcs1Key)
              | Some (PkixRSA rsaKey) \<Rightarrow> Inr rsaKey
              | Some PkixOther \<Rightarrow> Inl KeyNotRSA)))"

section \<open>Tokens\<close>

datatype jwt_err = JwtParse | JwtInvalid | JwtClaims | JwtExpFormat | JwtExpired
  | JwtTagUnset | JwtTagMissing | JwtTagType | JwtTagMismatch

definition validateExpIfPresent :: "'k jwt_lib \<Rightarrow> time \<Rightarrow> claims \<Rightarrow> jwt_err option" where
  "validateExpIfPresent L now c =
     (case c ''exp'' of
        None \<Rightarrow> None
      | Some ClaimNull \<Rightarrow> None
      | Some _ \<Rightarrow>
          (case jwt_GetExpirationTime L c of
             None \<Rightarrow> Some JwtExpFormat
           | Some None \<Rightarrow> None
           | Some (Some _) \<Rightarrow> if jwt_Validate L now c then None else Some JwtExpired))"

definition validateTag :: "claims \<Rightarrow> bytes \<Rightarrow> jwt_err option" where
  "validateTag c expectedTag =
     (case c ''tag'' of
        None \<Rightarrow> Some JwtTagMissing
      | Some ClaimNull \<Rightarrow> Some JwtTagMissing
      | Some (ClaimOther _) \<Rightarrow> Some JwtTagType
      | Some (ClaimString tagStr) \<Rightarrow> if tagStr \<noteq> expectedTag then Some JwtTagMismatch else None)"

text \<open>The key function of \<open>ValidateToken\<close>.\<close>
definition rs256_only :: "'k \<Rightarrow> bytes \<Rightarrow> 'k option" where
  "rs256_only pubKey alg = (if alg \<noteq> ''RS256'' then None else Some pubKey)"

definition ValidateToken :: "'k jwt_lib \<Rightarrow> time \<Rightarrow> bytes \<Rightarrow> 'k \<Rightarrow> bytes \<Rightarrow> jwt_err + claims" where
  "ValidateToken L now tokenStr0 pubKey expectedTag =
     (let tokenStr = TrimSpace (TrimPrefix tokenStr0 ''Bearer '') in
      case jwt_Parse L tokenStr (rs256_only pubKey) of
        None \<Rightarrow> Inl JwtParse
      | Some (valid, cl) \<Rightarrow>
          if \<not> valid then Inl JwtInvalid
          else
            (case cl of
               None \<Rightarrow> Inl JwtClaims
             | Some c \<Rightarrow>
                 (case validateExpIfPresent L now c of
                    Some e \<Rightarrow> Inl e
                  | None \<Rightarrow>
                      if expectedTag = [] then Inl JwtTagUnset
                      else (case validateTag c expectedTag of Some e \<Rightarrow> Inl e | None \<Rightarrow> Inr c))))"

text \<open>What an accepted token is: the facts the guards of HTTP and gRPC rely on.\<close>
definition token_genuine :: "'k jwt_lib \<Rightarrow> time \<Rightarrow> bytes \<Rightarrow> 'k \<Rightarrow> bytes \<Rightarrow> claims \<Rightarrow> bool" where
  "token_genuine L now tokenStr pubKey tag c =
     (jwt_signed L (TrimSpace (TrimPrefix tokenStr ''Bearer '')) ''RS256'' pubKey (Some c) \<and>
      tag \<noteq> [] \<and> c ''tag'' = Some (ClaimString tag) \<and>
      (\<forall>t. c ''exp'' \<notin> {None, Some ClaimNull} \<longrightarrow> jwt_GetExpirationTime L c = Some (Some t) \<longrightarrow> now < t) \<and>
      (c ''exp'' \<notin> {None, Some ClaimNull} \<longrightarrow> jwt_GetExpirationTime L c \<noteq> None))"

lemma exp_accepted:
  assumes "jwt_ok L" and "validateExpIfPresent L now c = None" and "c ''exp'' \<notin> {None, Some ClaimNull}"
  shows "jwt_GetExpirationTime L c \<noteq> None \<and> (\<forall>t. jwt_GetExpirationTime L c = Some (Some t) \<longrightarrow> now < t)"
  using assms by (auto simp: validateExpIfPresent_def jwt_ok_def split: option.splits claim.splits if_splits)

lemma token_accepted:
  assumes ok: "jwt_ok L" and v: "ValidateToken L now tok pubKey tag = Inr c"
  shows "token_genuine L now tok pubKey tag c"
proof -
  from v have p: "jwt_Parse L (TrimSpace (TrimPrefix tok ''Bearer '')) (rs256_only pubKey) = Some (True, Some c)"
    and e: "validateExpIfPresent L now c = None" and t: "tag \<noteq> []" "validateTag c tag = None"
    by (auto simp: ValidateToken_def Let_def split: option.splits prod.splits if_splits)
  from ok p obtain alg k where "rs256_only pubKey alg = Some k"
    "jwt_signed L (TrimSpace (TrimPrefix tok ''Bearer '')) alg k (Some c)" unfolding jwt_ok_def by blast
  then have "jwt_signed L (TrimSpace (TrimPrefix tok ''Bearer '')) ''RS256'' pubKey (Some c)"
    by (auto simp: rs256_only_def split: if_splits)
  moreover have "c ''tag'' = Some (ClaimString tag)"
    using t(2) by (auto simp: validateTag_def split: option.splits claim.splits if_splits)
  ultimately show ?thesis
    using exp_accepted [OF ok e] t(1) by (simp add: token_genuine_def)
qed

text \<open>Without a configured tag nothing is accepted.\<close>
lemma no_tag_no_token: "ValidateToken L now tok pubKey [] \<noteq> Inr c"
  by (auto simp: ValidateToken_def Let_def split: option.splits prod.splits if_splits)

text \<open>A bare key may be written with any line breaks and blanks.\<close>
lemma clean_base64_idem: "clean_base64 (clean_base64 raw) = clean_base64 raw"
  by (simp add: clean_base64_def conj_ac)

lemma bare_key_exact:
  assumes "ParseRSAPublicKey X raw = Inr k" and "\<not> HasPrefix (TrimSpace raw) ''-----''"
  shows "\<exists>der. b64_decode b64_std (clean_base64 (TrimSpace raw)) = Some der \<and>
     (ParsePKIXPublicKey X der = Some (PkixRSA k) \<or>
      ParsePKIXPublicKey X der = None \<and> ParsePKCS1PublicKey X der = Some k)"
  using assms by (auto simp: ParseRSAPublicKey_def Let_def split: if_splits option.splits pkix.splits sum.splits)

end
