(* ===== verification/Session.thy ===== *)
theory Session
  imports Hub_Constants "HOL-Library.Signed_Division"
begin

text \<open>
  Console sessions: src/pkg/session/session.go. The store maps random identifiers to the tenant and the
  time of creation; a session is valid while it is younger than the store's time to live. The map is a
  partial function, the garbage collector's goroutine a step of a relation: \<open>store_step\<close> is one call or
  one tick of its ticker. The clock is the argument \<open>now\<close>; \<open>generateID\<close> takes the 32 random bytes.

  The interface \<open>session_register\<close> is what the login, logout and guard code relies on; it is
  interpreted on the store. Shown: the identifiers are a faithful image of the random bytes, the
  collector is unobservable (the store with it refines a store that never collects), and the
  lifetimes' wrap-around.
\<close>

record session =
  ss_TenantID :: bytes
  ss_createdAt :: time

record session_store =
  st_data :: "bytes \<Rightarrow> session option"
  st_ttl :: int

definition defaultSessionTTLSeconds :: int where
  "defaultSessionTTLSeconds = 2 * 60 * 60"

text \<open>\<open>t.Sub(u)\<close> of package time: a duration is an int64 and saturates.\<close>
definition time_Sub :: "time \<Rightarrow> time \<Rightarrow> int" where
  "time_Sub t u = max (- (2 ^ 63)) (min (2 ^ 63 - 1) (t - u))"

definition newStore :: session_store where
  "newStore = \<lparr>st_data = (\<lambda>_. None), st_ttl = defaultSessionTTLSeconds * time_Second\<rparr>"

definition InitTTL :: "int \<Rightarrow> session_store \<Rightarrow> session_store" where
  "InitTTL ttlSeconds s = (if ttlSeconds \<le> 0 then s else s\<lparr>st_ttl := go_int64 (ttlSeconds * time_Second)\<rparr>)"

definition TTLSeconds :: "session_store \<Rightarrow> int" where
  "TTLSeconds s = st_ttl s sdiv time_Second"

section \<open>Identifiers\<close>

definition hex_digit :: "nat \<Rightarrow> char" where
  "hex_digit d = (if d < 10 then char_of (48 + d) else char_of (87 + d))"

fun hex_EncodeToString :: "bytes \<Rightarrow> bytes" where
  "hex_EncodeToString [] = []"
| "hex_EncodeToString (b # bs) =
     hex_digit (of_char b div 16) # hex_digit (of_char b mod 16) # hex_EncodeToString bs"

definition generateID :: "bytes \<Rightarrow> bytes" where
  "generateID b = hex_EncodeToString b"

section \<open>The operations\<close>

definition Store_Create :: "time \<Rightarrow> bytes \<Rightarrow> bytes \<Rightarrow> session_store \<Rightarrow> bytes \<times> session_store" where
  "Store_Create now random tenantID s =
     (let i = generateID random
      in (i, s\<lparr>st_data := (st_data s)(i \<mapsto> \<lparr>ss_TenantID = tenantID, ss_createdAt = now\<rparr>)\<rparr>))"

definition Store_Get :: "time \<Rightarrow> bytes \<Rightarrow> session_store \<Rightarrow> session option" where
  "Store_Get now i s =
     (if i = [] then None
      else (case st_data s i of
              None \<Rightarrow> None
            | Some e \<Rightarrow> if time_Sub now (ss_createdAt e) \<ge> st_ttl s then None else Some e))"

definition Store_Valid :: "time \<Rightarrow> bytes \<Rightarrow> session_store \<Rightarrow> bool" where
  "Store_Valid now i s = (Store_Get now i s \<noteq> None)"

definition Store_Delete :: "bytes \<Rightarrow> session_store \<Rightarrow> session_store" where
  "Store_Delete i s = s\<lparr>st_data := (st_data s)(i := None)\<rparr>"

definition sweep :: "time \<Rightarrow> session_store \<Rightarrow> session_store" where
  "sweep now s = s\<lparr>st_data := (\<lambda>i. case st_data s i of
       None \<Rightarrow> None
     | Some e \<Rightarrow> if time_Sub now (ss_createdAt e) \<ge> st_ttl s then None else Some e)\<rparr>"

text \<open>The collector's goroutine: a tick of the ten-minute ticker, or the stop channel, which nothing closes.\<close>
datatype gc_signal = Tick time | StopGC

fun runGC :: "gc_signal list \<Rightarrow> session_store \<Rightarrow> session_store" where
  "runGC [] s = s"
| "runGC (Tick now # es) s = runGC es (sweep now s)"
| "runGC (StopGC # es) s = s"

section \<open>Identifiers are faithful\<close>

lemma hex_digit_inj: "d < 16 \<Longrightarrow> d' < 16 \<Longrightarrow> hex_digit d = hex_digit d' \<longleftrightarrow> d = d'"
proof -
  assume d: "d < 16" "d' < 16"
  have code: "of_char (hex_digit k) = (if k < 10 then 48 + k else 87 + k)" if "k < 16" for k :: nat
    using that by (simp add: hex_digit_def)
  show ?thesis
  proof
    assume "hex_digit d = hex_digit d'"
    then have "of_char (hex_digit d) = (of_char (hex_digit d') :: nat)" by simp
    then show "d = d'" unfolding code [OF d(1)] code [OF d(2)] using d by (simp split: if_splits)
  qed simp
qed

lemma hex_inj: "hex_EncodeToString a = hex_EncodeToString b \<longleftrightarrow> a = b"
proof (induction a arbitrary: b rule: hex_EncodeToString.induct)
  case 1
  show ?case by (cases b) simp_all
next
  case (2 x xs)
  have lt: "of_char c div 16 < (16 :: nat)" for c
    using of_char_mod_256 [of c] mod_less_divisor [of 256 "of_char c :: nat"] by (simp add: less_mult_imp_div_less)
  show ?case
  proof (cases b)
    case (Cons y ys)
    have "of_char x div 16 = (of_char y div 16 :: nat) \<and> of_char x mod 16 = (of_char y mod 16 :: nat) \<longleftrightarrow> x = y"
      by (metis div_mult_mod_eq of_char_eq_iff)
    with 2 show ?thesis by (auto simp: Cons hex_digit_inj lt)
  qed simp
qed

lemma length_hex: "length (hex_EncodeToString b) = 2 * length b"
  by (induction b) simp_all

lemma generateID_inj: "generateID a = generateID b \<longleftrightarrow> a = b"
  by (simp add: generateID_def hex_inj)

lemma generateID_nonempty: "a \<noteq> [] \<Longrightarrow> generateID a \<noteq> []"
  by (cases a) (simp_all add: generateID_def)

section \<open>The interface\<close>

text \<open>\<open>get now i s\<close> is the live session \<open>i\<close>; \<open>limit s\<close> the time to live.\<close>
locale session_register =
  fixes create :: "time \<Rightarrow> bytes \<Rightarrow> bytes \<Rightarrow> 's \<Rightarrow> bytes \<times> 's"
    and get :: "time \<Rightarrow> bytes \<Rightarrow> 's \<Rightarrow> session option"
    and remove :: "bytes \<Rightarrow> 's \<Rightarrow> 's"
    and limit :: "'s \<Rightarrow> int"
  assumes get_created: "create now random t s = (i, s') \<Longrightarrow> random \<noteq> [] \<Longrightarrow>
      get now' i s' = (if time_Sub now' now \<ge> limit s then None else Some \<lparr>ss_TenantID = t, ss_createdAt = now\<rparr>)"
    and get_others: "create now random t s = (i, s') \<Longrightarrow> j \<noteq> i \<Longrightarrow> get now' j s' = get now' j s"
    and get_removed: "get now i (remove i s) = None"
    and get_kept: "j \<noteq> i \<Longrightarrow> get now j (remove i s) = get now j s"
begin

lemma login_admits:
  "create now random t s = (i, s') \<Longrightarrow> random \<noteq> [] \<Longrightarrow> time_Sub now' now < limit s \<Longrightarrow>
   get now' i s' = Some \<lparr>ss_TenantID = t, ss_createdAt = now\<rparr>"
  by (simp add: get_created)

lemma login_expires:
  "create now random t s = (i, s') \<Longrightarrow> random \<noteq> [] \<Longrightarrow> limit s \<le> time_Sub now' now \<Longrightarrow> get now' i s' = None"
  by (simp add: get_created)

lemma login_logout:
  assumes "create now random t s = (i, s')" and "get now' i s = None"
  shows "get now' j (remove i s') = get now' j s"
  using assms get_others [OF assms(1)] by (cases "j = i") (simp_all add: get_removed get_kept)

end

interpretation sessions: session_register Store_Create Store_Get Store_Delete st_ttl
  by unfold_locales
    (auto simp: Store_Create_def Store_Get_def Store_Delete_def Let_def generateID_nonempty
      split: option.splits)

section \<open>Collecting is unobservable\<close>

datatype store_event = EvCreate bytes bytes | EvGet bytes | EvDelete bytes | EvSweep

text \<open>One call, at a time, with what it answers.\<close>
fun apply_event :: "time \<Rightarrow> store_event \<Rightarrow> session_store \<Rightarrow> session option \<times> session_store" where
  "apply_event now (EvCreate random t) s = (None, snd (Store_Create now random t s))"
| "apply_event now (EvGet i) s = (Store_Get now i s, s)"
| "apply_event now (EvDelete i) s = (None, Store_Delete i s)"
| "apply_event now EvSweep s = (None, sweep now s)"

text \<open>The answers to the calls of \<open>Get\<close>, in order.\<close>
fun answers :: "(time \<times> store_event) list \<Rightarrow> session_store \<Rightarrow> session option list" where
  "answers [] s = []"
| "answers ((now, ev) # evs) s =
     (case apply_event now ev s of (a, s') \<Rightarrow> (case ev of EvGet _ \<Rightarrow> [a] | _ \<Rightarrow> []) @ answers evs s')"

definition uncollected :: "(time \<times> store_event) list \<Rightarrow> (time \<times> store_event) list" where
  "uncollected evs = filter (\<lambda>e. snd e \<noteq> EvSweep) evs"

text \<open>\<open>s\<close> is \<open>a\<close> without some sessions that have expired at \<open>now\<close>.\<close>
definition collected_of :: "time \<Rightarrow> session_store \<Rightarrow> session_store \<Rightarrow> bool" where
  "collected_of now s a =
     (st_ttl s = st_ttl a \<and>
      (\<forall>i. st_data s i = st_data a i \<or>
         st_data s i = None \<and> (\<exists>e. st_data a i = Some e \<and> time_Sub now (ss_createdAt e) \<ge> st_ttl a)))"

lemma time_Sub_mono: "now \<le> now' \<Longrightarrow> time_Sub now t \<le> time_Sub now' t"
  by (simp add: time_Sub_def)

lemma collected_later: "collected_of now s a \<Longrightarrow> now \<le> now' \<Longrightarrow> collected_of now' s a"
  unfolding collected_of_def by (meson order_trans time_Sub_mono)

lemma collected_refl: "collected_of now s s"
  by (simp add: collected_of_def)

lemma collected_Get: "collected_of now s a \<Longrightarrow> Store_Get now i s = Store_Get now i a"
  by (auto simp: collected_of_def Store_Get_def dest!: spec [of _ i] split: option.splits)

lemma collected_step:
  assumes "collected_of now s a" and "ev \<noteq> EvSweep"
  shows "fst (apply_event now ev s) = fst (apply_event now ev a) \<and>
     collected_of now (snd (apply_event now ev s)) (snd (apply_event now ev a))"
  using assms
  by (cases ev)
    (auto simp: collected_Get Store_Create_def Store_Delete_def Let_def collected_of_def)

lemma collected_sweep:
  assumes c: "collected_of now s a"
  shows "collected_of now (sweep now s) a"
  unfolding collected_of_def
proof (intro conjI allI)
  show "st_ttl (sweep now s) = st_ttl a" using c by (simp add: sweep_def collected_of_def)
  fix i
  from c have "st_data s i = st_data a i \<or>
      st_data s i = None \<and> (\<exists>e. st_data a i = Some e \<and> time_Sub now (ss_createdAt e) \<ge> st_ttl a)"
    and "st_ttl s = st_ttl a" by (simp_all add: collected_of_def)
  then show "st_data (sweep now s) i = st_data a i \<or>
      st_data (sweep now s) i = None \<and> (\<exists>e. st_data a i = Some e \<and> time_Sub now (ss_createdAt e) \<ge> st_ttl a)"
    by (auto simp: sweep_def split: option.splits)
qed

lemma answers_collected:
  "collected_of now s a \<Longrightarrow> sorted (now # map fst evs) \<Longrightarrow> answers evs s = answers (uncollected evs) a"
proof (induction evs arbitrary: now s a)
  case Nil
  then show ?case by (simp add: uncollected_def)
next
  case (Cons e evs)
  obtain t ev where e: "e = (t, ev)" by (cases e)
  from Cons.prems(2) have t: "now \<le> t" "sorted (t # map fst evs)" by (auto simp: e)
  note c = collected_later [OF Cons.prems(1) t(1)]
  show ?case
  proof (cases "ev = EvSweep")
    case True
    with Cons.IH [OF collected_sweep [OF c] t(2)] show ?thesis by (simp add: e uncollected_def)
  next
    case False
    note st = collected_step [OF c False]
    from Cons.IH [OF conjunct2 [OF st] t(2)] conjunct1 [OF st] False
    show ?thesis by (cases ev) (simp_all add: e uncollected_def case_prod_beta)
  qed
qed

section \<open>Properties\<close>

fun run_events :: "(time \<times> store_event) list \<Rightarrow> session_store \<Rightarrow> session_store" where
  "run_events [] s = s"
| "run_events ((now, ev) # evs) s = run_events evs (snd (apply_event now ev s))"

text \<open>The abstract register: the last login under the identifier that no logout followed.\<close>
fun last_login :: "bytes \<Rightarrow> (time \<times> store_event) list \<Rightarrow> session option \<Rightarrow> session option" where
  "last_login i [] e = e"
| "last_login i ((now, ev) # evs) e = last_login i evs
     (case ev of
        EvCreate random t \<Rightarrow> if generateID random = i then Some \<lparr>ss_TenantID = t, ss_createdAt = now\<rparr> else e
      | EvDelete j \<Rightarrow> if j = i then None else e
      | _ \<Rightarrow> e)"

lemma run_events_uncollected:
  "sorted (now # map fst evs) \<Longrightarrow> collected_of now s a \<Longrightarrow>
   collected_of (last (now # map fst evs)) (run_events evs s) (run_events (uncollected evs) a)"
proof (induction evs arbitrary: now s a)
  case Nil
  then show ?case by (simp add: uncollected_def)
next
  case (Cons e evs)
  obtain t ev where e: "e = (t, ev)" by (cases e)
  from Cons.prems(1) have t: "now \<le> t" "sorted (t # map fst evs)" by (auto simp: e)
  note c = collected_later [OF Cons.prems(2) t(1)]
  show ?case
  proof (cases "ev = EvSweep")
    case True
    with Cons.IH [OF t(2) collected_sweep [OF c]] show ?thesis by (simp add: e uncollected_def)
  next
    case False
    with collected_step [OF c False] Cons.IH [OF t(2)] show ?thesis by (simp add: e uncollected_def)
  qed
qed

lemma run_events_last:
  "\<forall>(_, ev) \<in> set evs. ev \<noteq> EvSweep \<Longrightarrow>
   st_data (run_events evs s) i = last_login i evs (st_data s i) \<and> st_ttl (run_events evs s) = st_ttl s"
proof (induction evs arbitrary: s)
  case (Cons e evs)
  obtain t ev where e: "e = (t, ev)" by (cases e)
  have "st_ttl (snd (apply_event t ev s)) = st_ttl s"
    by (cases ev) (simp_all add: Store_Create_def Store_Delete_def sweep_def Let_def)
  with Cons show ?case
    by (cases ev) (simp_all add: e Store_Create_def Store_Delete_def Let_def)
qed simp

lemma last_login_uncollected: "last_login i (uncollected evs) e = last_login i evs e"
  by (induction evs arbitrary: e) (auto simp: uncollected_def split: prod.splits store_event.splits)

lemma Get_after_events:
  assumes sorted: "sorted (t0 # map fst evs @ [now])" and i: "i \<noteq> []"
  shows "Store_Get now i (run_events evs s) =
     (case last_login i evs (st_data s i) of
        None \<Rightarrow> None
      | Some e \<Rightarrow> if time_Sub now (ss_createdAt e) \<ge> st_ttl s then None else Some e)"
proof -
  have "sorted (t0 # map fst evs)" and le: "last (t0 # map fst evs) \<le> now"
    using sorted last_in_set [of "t0 # map fst evs"] by (auto simp: sorted_append simp del: last.simps)
  from run_events_uncollected [OF this(1) collected_refl]
  have "collected_of (last (t0 # map fst evs)) (run_events evs s) (run_events (uncollected evs) s)" .
  from collected_Get [OF collected_later [OF this le]]
  have "Store_Get now i (run_events evs s) = Store_Get now i (run_events (uncollected evs) s)" .
  moreover have "\<forall>(_, ev) \<in> set (uncollected evs). ev \<noteq> EvSweep" by (auto simp: uncollected_def)
  ultimately show ?thesis
    using run_events_last [of "uncollected evs" s i] i
    by (simp add: Store_Get_def last_login_uncollected split: option.splits)
qed

text \<open>
  C31: Sessions live exactly as long as promised. Whatever the history of logins, logouts, lookups and runs
  of the garbage collector in a store started with any configured lifetime, a lookup finds exactly the
  last login under the identifier that was not followed by a logout and is younger than the lifetime;
  and no lookup of the history could have told whether the collector ever ran.
\<close>
theorem sessions_live_as_promised:
  assumes "sorted (map fst evs @ [now])" and "s0 = InitTTL n newStore" and "i \<noteq> []"
  shows "Store_Get now i (run_events evs s0) =
      (case last_login i evs None of
         None \<Rightarrow> None
       | Some e \<Rightarrow> if time_Sub now (ss_createdAt e) \<ge> st_ttl s0 then None else Some e) \<and>
     answers evs s0 = answers (uncollected evs) s0"
proof
  have t0: "sorted (Min (set (map fst evs @ [now])) # map fst evs @ [now])" using assms(1) by simp
  have "st_data s0 i = None" by (simp add: assms(2) InitTTL_def newStore_def)
  with Get_after_events [OF t0 assms(3), of s0] show "Store_Get now i (run_events evs s0) =
      (case last_login i evs None of
         None \<Rightarrow> None
       | Some e \<Rightarrow> if time_Sub now (ss_createdAt e) \<ge> st_ttl s0 then None else Some e)" by simp
  show "answers evs s0 = answers (uncollected evs) s0"
    by (rule answers_collected [OF collected_refl, of "Min (set (map fst evs @ [now]))"])
      (use t0 in \<open>auto simp: sorted_append\<close>)
qed

theorem sessions_live_as_promised_witness:
  "Store_Get 90 ''6162'' (run_events [(5, EvCreate ''ab'' ''T''), (70, EvSweep)] (InitTTL 1 newStore)) =
     Some \<lparr>ss_TenantID = ''T'', ss_createdAt = 5\<rparr>"
proof -
  have i: "generateID ''ab'' = ''6162''" by code_simp
  have "st_ttl (InitTTL 1 newStore) = 1000000000" by (simp add: InitTTL_def time_Second_def go_int64_id)
  with sessions_live_as_promised [of "[(5, EvCreate ''ab'' ''T''), (70, EvSweep)]" 90 _ 1 "''6162''"] i
  show ?thesis by (simp add: time_Sub_def)
qed

text \<open>The configured lifetime is the effective one up to 9223372036 seconds; beyond, it wraps around.\<close>
lemma session_ttl_exact: "0 < n \<Longrightarrow> n \<le> 9223372036 \<Longrightarrow> TTLSeconds (InitTTL n s) = n"
  by (simp add: TTLSeconds_def InitTTL_def time_Second_def go_int64_id signed_divide_int_def)

lemma session_ttl_wraps: "st_ttl (InitTTL 9223372037 s) < 0 \<and> Store_Get now i (InitTTL 9223372037 newStore) = None"
  by (simp add: InitTTL_def time_Second_def go_int64_eq Store_Get_def newStore_def)

end
