(* ===== verification/Conf.thy ===== *)
theory Conf
  imports Hub_Constants
begin

text \<open>
  Configuration: src/internal/conf/conf.go. Reading the file, the YAML parser and the RSA key parser
  are arguments; keys are of an arbitrary type. Modelled are the configuration's structure, the
  checks of \<open>load\<close>, the once-only \<open>LoadConfig\<close> and the masking of secrets in the printed
  configuration. Shown: a configuration that loads has a service tag and a parsed key whenever a key
  is configured, a printed secret reveals at most its first two bytes, and only the first call of
  \<open>LoadConfig\<close> reports an error.
\<close>

record admin_config =
  AdminUsername :: bytes
  AdminPassword :: bytes
  SessionTTLSeconds :: int

record auth_config =
  RSAPublicKey :: bytes
  ServiceTag :: bytes
  Admin :: admin_config

record system_config =
  TenantNotifyTTLSeconds :: int
  UserNotifyTTLSeconds :: int
  EnableNotifyCleanup :: bool

record server_config =
  HTTPPort :: int
  GRPCPort :: int

record dispatcher_config =
  DispatcherMode :: bytes

record postgres_config =
  PgHost :: bytes
  PgPort :: int
  PgUser :: bytes
  PgPassword :: bytes
  PgDBName :: bytes

record redis_config =
  RedisAddrs :: "bytes list"
  RedisPassword :: bytes
  RedisDB :: int

record ticket_config =
  TicketExpireSeconds :: int
  AseKey :: bytes

record 'k config =
  Server :: server_config
  Dispatcher :: dispatcher_config
  System :: system_config
  Database :: postgres_config
  Redis :: redis_config
  Ticket :: ticket_config
  Auth :: auth_config
  rsaPublicKey :: "'k option"

definition GetRSAPublicKey :: "'k config \<Rightarrow> 'k option" where
  "GetRSAPublicKey c = rsaPublicKey c"

datatype conf_err = ExeUnknown | FileMissing | FileUnreadable | YamlInvalid | KeyInvalid | TagMissing

text \<open>
  \<open>load\<close>: \<open>exe\<close> is \<open>os.Executable\<close> (\<open>False\<close> is its error), \<open>file\<close> the outcome of reading config.yaml
  beside it, \<open>yaml\<close> the decoder into the structure, \<open>parse_key\<close> \<open>jwtutil.ParseRSAPublicKey\<close>.
\<close>
definition Config_load ::
  "bool \<Rightarrow> conf_err + bytes \<Rightarrow> (bytes \<Rightarrow> 'k config \<Rightarrow> 'k config option) \<Rightarrow> (bytes \<Rightarrow> 'k option) \<Rightarrow> 'k config
     \<Rightarrow> conf_err option \<times> 'k config" where
  "Config_load exe file yaml parse_key c =
     (if \<not> exe then (Some ExeUnknown, c)
      else
        (case file of
           Inl e \<Rightarrow> (Some e, c)
         | Inr data \<Rightarrow>
             (case yaml data c of
                None \<Rightarrow> (Some YamlInvalid, c)
              | Some c1 \<Rightarrow>
                  (case (if RSAPublicKey (Auth c1) \<noteq> [] then
                           (case parse_key (RSAPublicKey (Auth c1)) of
                              None \<Rightarrow> None
                            | Some pubKey \<Rightarrow> Some (c1\<lparr>rsaPublicKey := Some pubKey\<rparr>))
                         else Some c1) of
                     None \<Rightarrow> (Some KeyInvalid, c1)
                   | Some c2 \<Rightarrow>
                       if ServiceTag (Auth c2) = [] then (Some TagMissing, c2) else (None, c2)))))"

text \<open>
  \<open>LoadConfig\<close> runs \<open>load\<close> once; its error is a variable of the call, the configuration a global.
  The state is that global, \<open>None\<close> before the first call.
\<close>
definition LoadConfig ::
  "('k config \<Rightarrow> conf_err option \<times> 'k config) \<Rightarrow> 'k config \<Rightarrow> 'k config option
     \<Rightarrow> (conf_err + 'k config) \<times> 'k config option" where
  "LoadConfig load zero g =
     (case g of
        Some c \<Rightarrow> (Inr c, g)
      | None \<Rightarrow>
          (case load zero of
             (Some e, c) \<Rightarrow> (Inl e, Some c)
           | (None, c) \<Rightarrow> (Inr c, Some c)))"

text \<open>\<open>None\<close> is \<open>log.Fatal\<close>.\<close>
definition GetConfig :: "'k config option \<Rightarrow> 'k config option" where
  "GetConfig g = g"

text \<open>The UTF-8 text printed for an empty secret.\<close>
definition mask_empty :: bytes where
  "mask_empty = [CHR ''('', CHR 0xE7, CHR 0xA9, CHR 0xBA, CHR '')'']"

definition maskSecret :: "bytes \<Rightarrow> bytes" where
  "maskSecret s = (if length s = 0 then mask_empty else if length s \<le> 2 then ''**'' else take 2 s @ ''**'')"

text \<open>The secrets among the values \<open>PrintConfig\<close> logs, in its order.\<close>
definition printed_secrets :: "'k config \<Rightarrow> bytes list" where
  "printed_secrets c =
     [maskSecret (AseKey (Ticket c)), maskSecret (PgPassword (Database c)),
      maskSecret (RedisPassword (Redis c)), maskSecret (AdminPassword (Admin (Auth c)))]"

section \<open>Properties\<close>

text \<open>
  C29: A configuration that loads is fit for authentication: its service tag is not empty, and if a public
  key is configured it has been parsed; and once loading has been attempted, every later call returns
  the same configuration.
\<close>
theorem loaded_config_checked:
  assumes "LoadConfig (Config_load exe file yaml parse_key) zero None = (Inr c, g)" and "rsaPublicKey zero = None"
    and "\<And>data c0 c1. yaml data c0 = Some c1 \<Longrightarrow> rsaPublicKey c1 = rsaPublicKey c0"
  shows "ServiceTag (Auth c) \<noteq> [] \<and>
     GetRSAPublicKey c = (if RSAPublicKey (Auth c) = [] then None else parse_key (RSAPublicKey (Auth c))) \<and>
     (RSAPublicKey (Auth c) \<noteq> [] \<longrightarrow> GetRSAPublicKey c \<noteq> None) \<and>
     LoadConfig load' zero' g = (Inr c, g) \<and> GetConfig g = Some c"
proof -
  from assms(1) have l: "Config_load exe file yaml parse_key zero = (None, c)" and g: "g = Some c"
    by (auto simp: LoadConfig_def split: prod.splits option.splits)
  from l obtain data c1 where y: "yaml data zero = Some c1" and
    k: "(if RSAPublicKey (Auth c1) \<noteq> [] then (case parse_key (RSAPublicKey (Auth c1)) of
           None \<Rightarrow> None | Some pubKey \<Rightarrow> Some (c1\<lparr>rsaPublicKey := Some pubKey\<rparr>)) else Some c1) = Some c"
    and tag: "ServiceTag (Auth c) \<noteq> []"
    by (auto simp: Config_load_def split: if_splits sum.splits option.splits)
  from assms(2,3) y have "rsaPublicKey c1 = None" by simp
  with k tag show ?thesis
    by (auto simp: GetRSAPublicKey_def GetConfig_def LoadConfig_def g split: if_splits option.splits)
qed

definition demo_config :: "bytes config" where
  "demo_config = \<lparr>
     Server = \<lparr>HTTPPort = 8080, GRPCPort = 9090\<rparr>, Dispatcher = \<lparr>DispatcherMode = ''local''\<rparr>,
     System = \<lparr>TenantNotifyTTLSeconds = 60, UserNotifyTTLSeconds = 0, EnableNotifyCleanup = True\<rparr>,
     Database = \<lparr>PgHost = ''h'', PgPort = 5432, PgUser = ''u'', PgPassword = ''secret'', PgDBName = ''d''\<rparr>,
     Redis = \<lparr>RedisAddrs = [''r''], RedisPassword = '''', RedisDB = 0\<rparr>,
     Ticket = \<lparr>TicketExpireSeconds = 30, AseKey = ''0123456789abcdef''\<rparr>,
     Auth = \<lparr>RSAPublicKey = ''k'', ServiceTag = ''hub'',
       Admin = \<lparr>AdminUsername = ''admin'', AdminPassword = ''pw'', SessionTTLSeconds = 7200\<rparr>\<rparr>,
     rsaPublicKey = None\<rparr>"

theorem loaded_config_checked_witness:
  "\<exists>c g. LoadConfig (Config_load True (Inr ''yaml'') (\<lambda>_ c. Some (demo_config\<lparr>rsaPublicKey := rsaPublicKey c\<rparr>)) Some)
       demo_config None = (Inr c, g) \<and> GetRSAPublicKey c = Some ''k''"
proof -
  let ?y = "\<lambda>(_::bytes) c. Some (demo_config\<lparr>rsaPublicKey := rsaPublicKey c\<rparr>)"
  have l: "LoadConfig (Config_load True (Inr ''yaml'') ?y Some) demo_config None =
      (Inr (demo_config\<lparr>rsaPublicKey := Some ''k''\<rparr>), Some (demo_config\<lparr>rsaPublicKey := Some ''k''\<rparr>))"
    by (simp add: LoadConfig_def Config_load_def demo_config_def)
  show ?thesis
    using loaded_config_checked [OF l, of "\<lambda>c. (None, c)" demo_config] l by (auto simp: demo_config_def)
qed

text \<open>
  What the log shows of a secret depends only on its first two bytes and on whether it is longer: two
  secrets of more than two bytes with the same first two bytes print alike, and no printed secret is
  longer than five bytes.
\<close>
lemma printed_secrets_masked:
  "\<forall>m \<in> set (printed_secrets c). length m \<le> 5 \<and>
     (\<exists>s. m = maskSecret s \<and> (\<forall>s'. take 2 s' = take 2 s \<and> (length s' \<le> 2) = (length s \<le> 2) \<longrightarrow> maskSecret s' = m))"
proof -
  have "length (maskSecret s) \<le> 5" for s by (simp add: maskSecret_def mask_empty_def)
  moreover have "maskSecret s' = maskSecret s"
    if "take 2 s' = take 2 s" "(length s' \<le> 2) = (length s \<le> 2)" for s s'
    using that by (cases s; cases s') (auto simp: maskSecret_def)
  ultimately have "length (maskSecret s) \<le> 5 \<and> (\<exists>s0. maskSecret s = maskSecret s0 \<and>
      (\<forall>s'. take 2 s' = take 2 s0 \<and> (length s' \<le> 2) = (length s0 \<le> 2) \<longrightarrow> maskSecret s' = maskSecret s))" for s
    by blast
  then show ?thesis unfolding printed_secrets_def by (simp only: list.set ball_simps simp_thms)
qed

lemma printed_secrets_masked_example:
  "length (maskSecret (PgPassword (Database demo_config))) \<le> 5"
proof -
  have "maskSecret (PgPassword (Database demo_config)) \<in> set (printed_secrets demo_config)"
    by (simp add: printed_secrets_def)
  with printed_secrets_masked [of demo_config] show ?thesis by blast
qed

end
