(* ===== verification/Middleware.thy ===== *)
theory Middleware
  imports Http Jwt Session Conf
begin

text \<open>
  The guards of src/internal/middleware: \<open>AuthMiddleware\<close> and \<open>SessionAuthMiddleware\<close> (auth.go),
  \<open>SessionMiddleware\<close> (session.go), \<open>LocalhostOnly\<close> (localhost.go) and the gRPC interceptor
  (token_grpc.go). \<open>auth_env\<close> is what they consult: the configuration, the token library, the session
  store and the clock; looking a session up does not change the store. \<open>net.ParseIP\<close> with
  \<open>IsLoopback\<close> is the argument \<open>ip_loopback\<close> (\<open>None\<close> is an unparsable address).

  Shown: a handler behind the authentication guard runs only for a genuine token or a live session and
  sees the tenant of that credential; the interceptor only for a genuine token; a credential that
  names a tenant fixes it whatever the request's body says.
\<close>

record 'k auth_env =
  ae_config :: "'k config"
  ae_jwt :: "'k jwt_lib"
  ae_store :: session_store
  ae_now :: time

definition sessionCookieName :: bytes where "sessionCookieName = ''sessionId''"

definition StatusUnauthorized :: int where "StatusUnauthorized = 401"
definition StatusForbidden :: int where "StatusForbidden = 403"
definition StatusFound :: int where "StatusFound = 302"

text \<open>\<open>claims["tenant_id"].(string)\<close>, the empty string if missing or of another type.\<close>
definition claim_tenant :: "claims \<Rightarrow> bytes" where
  "claim_tenant c = (case c ''tenant_id'' of Some (ClaimString t) \<Rightarrow> t | _ \<Rightarrow> [])"

definition jwt_track :: "'k auth_env \<Rightarrow> request \<Rightarrow> bytes option" where
  "jwt_track E rq =
     (let authHeader = rq_Header rq ''Authorization'' in
      if HasPrefix authHeader ''Bearer '' then
        (case GetRSAPublicKey (ae_config E) of
           None \<Rightarrow> None
         | Some pubKey \<Rightarrow>
             (case ValidateToken (ae_jwt E) (ae_now E) authHeader pubKey (ServiceTag (Auth (ae_config E))) of
                Inl _ \<Rightarrow> None
              | Inr claims \<Rightarrow> Some (claim_tenant claims)))
      else None)"

definition session_track :: "'k auth_env \<Rightarrow> request \<Rightarrow> bytes option" where
  "session_track E rq =
     (let cookie = rq_Cookie rq sessionCookieName in
      if length cookie > 0 then map_option ss_TenantID (Store_Get (ae_now E) cookie (ae_store E)) else None)"

definition unauthorized :: "int \<Rightarrow> int \<Rightarrow> web_msg \<Rightarrow> 'd response" where
  "unauthorized status code msg = Json status \<lparr>b_Code = code, b_Msg = msg, b_Data = None, b_TraceID = []\<rparr>"

definition AuthMiddleware :: "'k auth_env \<Rightarrow> request \<Rightarrow> ('d, 'w) handler \<Rightarrow> ('d, 'w) handler" where
  "AuthMiddleware E rq next c tenant w =
     (case jwt_track E rq of
        Some tenantID \<Rightarrow> next c (Some tenantID) w
      | None \<Rightarrow>
          (case session_track E rq of
             Some tenantID \<Rightarrow> next c (Some tenantID) w
           | None \<Rightarrow> (unauthorized StatusUnauthorized Unauthorized MsgNotLoggedIn, w)))"

definition SessionAuthMiddleware :: "'k auth_env \<Rightarrow> request \<Rightarrow> ('d, 'w) handler \<Rightarrow> ('d, 'w) handler" where
  "SessionAuthMiddleware E rq next c tenant w =
     (case session_track E rq of
        Some tenantID \<Rightarrow> next c (Some tenantID) w
      | None \<Rightarrow> (unauthorized StatusUnauthorized Unauthorized MsgAdminSession, w))"

definition GetTenantID :: "bytes option \<Rightarrow> bytes" where
  "GetTenantID tenant = (case tenant of Some s \<Rightarrow> s | None \<Rightarrow> [])"

definition ResolveTenantID :: "bytes option \<Rightarrow> bytes \<Rightarrow> bytes" where
  "ResolveTenantID tenant reqTenantID = (if GetTenantID tenant \<noteq> [] then GetTenantID tenant else reqTenantID)"

section \<open>Pages\<close>

definition isAPIRequest :: "bytes \<Rightarrow> bytes \<Rightarrow> bool" where
  "isAPIRequest accept xRequestedWith =
     (xRequestedWith = ''XMLHttpRequest'' \<or> accept \<in> set [''application/json'', ''text/plain'', ''*/*''])"

definition HasValidSession :: "'k auth_env \<Rightarrow> request \<Rightarrow> bool" where
  "HasValidSession E rq = Store_Valid (ae_now E) (rq_Cookie rq sessionCookieName) (ae_store E)"

definition SessionMiddleware :: "'k auth_env \<Rightarrow> request \<Rightarrow> ('d, 'w) handler \<Rightarrow> ('d, 'w) handler" where
  "SessionMiddleware E rq next c tenant w =
     (let sessionID = rq_Cookie rq sessionCookieName in
      if Store_Valid (ae_now E) sessionID (ae_store E) then next c tenant w
      else if isAPIRequest (rq_Header rq ''Accept'') (rq_Header rq ''X-Requested-With'')
      then (unauthorized StatusUnauthorized 401 MsgSessionExpired, w)
      else (Redirect StatusFound ''/web/login'', w))"

section \<open>Local requests\<close>

text \<open>The part before the first comma, \<open>strings.Split(s, ",")[0]\<close>.\<close>
definition first_part :: "bytes \<Rightarrow> bytes" where
  "first_part s = takeWhile (\<lambda>c. c \<noteq> CHR '','') s"

definition getClientIP :: "request \<Rightarrow> bytes" where
  "getClientIP rq =
     (if rq_Header rq ''X-Forwarded-For'' \<noteq> [] then TrimSpace (first_part (rq_Header rq ''X-Forwarded-For''))
      else if rq_Header rq ''X-Real-Ip'' \<noteq> [] then rq_Header rq ''X-Real-Ip''
      else rq_ClientIP rq)"

definition isLocalhost :: "(bytes \<Rightarrow> bool option) \<Rightarrow> bytes \<Rightarrow> bool" where
  "isLocalhost ip_loopback ip =
     (if ip = [] then False
      else if ip = ''127.0.0.1'' \<or> ip = ''::1'' \<or> ip = ''localhost'' then True
      else (case ip_loopback ip of None \<Rightarrow> False | Some b \<Rightarrow> b))"

definition LocalhostOnly :: "(bytes \<Rightarrow> bool option) \<Rightarrow> request \<Rightarrow> ('d, 'w) handler \<Rightarrow> ('d, 'w) handler" where
  "LocalhostOnly ip_loopback rq next c tenant w =
     (if \<not> isLocalhost ip_loopback (getClientIP rq)
      then (unauthorized StatusForbidden Forbidden MsgLocalOnly, w)
      else next c tenant w)"

section \<open>gRPC\<close>

datatype grpc_err = Unauthenticated grpc_reason | GrpcCode code_error
and grpc_reason = NoPublicKey | NoMetadata | NoAuthorization | BadAuthorization | BadToken

text \<open>
  \<open>md\<close> is the incoming metadata, \<open>None\<close> if the context has none; the handler gets the tenant that was put
  into the context.
\<close>
definition TokenInterceptor ::
  "'k auth_env \<Rightarrow> (bytes \<Rightarrow> bytes list) option \<Rightarrow> (bytes \<Rightarrow> 'w \<Rightarrow> (grpc_err + 'a) \<times> 'w) \<Rightarrow> 'w \<Rightarrow> (grpc_err + 'a) \<times> 'w" where
  "TokenInterceptor E md handler w =
     (case GetRSAPublicKey (ae_config E) of
        None \<Rightarrow> (Inl (Unauthenticated NoPublicKey), w)
      | Some pubKey \<Rightarrow>
          (case md of
             None \<Rightarrow> (Inl (Unauthenticated NoMetadata), w)
           | Some get \<Rightarrow>
               (case get ''authorization'' of
                  [] \<Rightarrow> (Inl (Unauthenticated NoAuthorization), w)
                | tokenStr # _ \<Rightarrow>
                    if \<not> HasPrefix tokenStr ''Bearer '' then (Inl (Unauthenticated BadAuthorization), w)
                    else
                      (case ValidateToken (ae_jwt E) (ae_now E) tokenStr pubKey (ServiceTag (Auth (ae_config E))) of
                         Inl _ \<Rightarrow> (Inl (Unauthenticated BadToken), w)
                       | Inr claims \<Rightarrow> handler (claim_tenant claims) w))))"

section \<open>What a credential is\<close>

definition token_for :: "'k auth_env \<Rightarrow> bytes \<Rightarrow> bytes \<Rightarrow> bool" where
  "token_for E tok t =
     (\<exists>pubKey claims. GetRSAPublicKey (ae_config E) = Some pubKey \<and>
        token_genuine (ae_jwt E) (ae_now E) tok pubKey (ServiceTag (Auth (ae_config E))) claims \<and> t = claim_tenant claims)"

definition credential :: "'k auth_env \<Rightarrow> request \<Rightarrow> bytes \<Rightarrow> bool" where
  "credential E rq t =
     (token_for E (rq_Header rq ''Authorization'') t \<or>
      (\<exists>sess. Store_Get (ae_now E) (rq_Cookie rq sessionCookieName) (ae_store E) = Some sess \<and> t = ss_TenantID sess))"

lemma jwt_track_genuine:
  "jwt_ok (ae_jwt E) \<Longrightarrow> jwt_track E rq = Some t \<Longrightarrow> token_for E (rq_Header rq ''Authorization'') t"
  unfolding token_for_def by (auto simp: jwt_track_def Let_def dest: token_accepted split: if_splits option.splits sum.splits)

lemma session_track_live:
  "session_track E rq = Some t \<longleftrightarrow>
     (\<exists>sess. Store_Get (ae_now E) (rq_Cookie rq sessionCookieName) (ae_store E) = Some sess \<and> t = ss_TenantID sess)"
  by (auto simp: session_track_def Let_def Store_Get_def)

lemma AuthMiddleware_cases:
  assumes "jwt_ok (ae_jwt E)"
  obtains (refused) "jwt_track E rq = None" "session_track E rq = None"
      "AuthMiddleware E rq next c t w = (unauthorized StatusUnauthorized Unauthorized MsgNotLoggedIn, w)"
  | (admitted) tid where "credential E rq tid" "AuthMiddleware E rq next c t w = next c (Some tid) w"
proof (cases "jwt_track E rq")
  case (Some tid)
  with jwt_track_genuine [OF assms] show ?thesis
    by (intro admitted [of tid]) (auto simp: credential_def AuthMiddleware_def)
next
  case None
  show ?thesis
  proof (cases "session_track E rq")
    case (Some tid)
    with None session_track_live [of E rq tid] show ?thesis
      by (intro admitted [of tid]) (auto simp: credential_def AuthMiddleware_def)
  qed (use None refused in \<open>simp add: AuthMiddleware_def\<close>)
qed

lemma TokenInterceptor_cases:
  assumes "jwt_ok (ae_jwt E)"
  obtains (refused) reason where "TokenInterceptor E md handler w = (Inl (Unauthenticated reason), w)"
  | (admitted) get tok toks t where "md = Some get" "get ''authorization'' = tok # toks" "token_for E tok t"
      "TokenInterceptor E md handler w = handler t w"
proof -
  have "(\<exists>reason. TokenInterceptor E md handler w = (Inl (Unauthenticated reason), w)) \<or>
     (\<exists>get tok toks t. md = Some get \<and> get ''authorization'' = tok # toks \<and> token_for E tok t \<and>
        TokenInterceptor E md handler w = handler t w)"
    unfolding token_for_def
    by (auto simp: TokenInterceptor_def dest!: token_accepted [OF assms] split: option.splits list.splits sum.splits)
  then show ?thesis using refused admitted by blast
qed

text \<open>A credential that names a tenant fixes the tenant.\<close>
lemma tenant_fixed: "t \<noteq> [] \<Longrightarrow> ResolveTenantID (Some t) body = t"
  by (simp add: ResolveTenantID_def GetTenantID_def)

lemma tenant_free: "ResolveTenantID (Some []) body = body" "ResolveTenantID None body = body"
  by (simp_all add: ResolveTenantID_def GetTenantID_def)

section \<open>An environment\<close>

definition demo_jwt :: "bytes jwt_lib" where
  "demo_jwt = \<lparr>
     jwt_Parse = (\<lambda>tok kf. if tok = ''good'' then map_option (\<lambda>_. (True,
        Some [''tag'' \<mapsto> ClaimString ''hub'', ''tenant_id'' \<mapsto> ClaimString ''T''])) (kf ''RS256'') else None),
     jwt_GetExpirationTime = (\<lambda>_. Some None), jwt_Validate = (\<lambda>_ _. False),
     jwt_signed = (\<lambda>tok alg k c. tok = ''good'' \<and> alg = ''RS256'')\<rparr>"

definition demo_env :: "bytes auth_env" where
  "demo_env = \<lparr>ae_config = demo_config\<lparr>rsaPublicKey := Some ''k''\<rparr>, ae_jwt = demo_jwt, ae_store = newStore, ae_now = 0\<rparr>"

definition demo_request :: request where
  "demo_request = \<lparr>rq_Method = ''POST'', rq_Path = ''/v1/inbox/personal'', rq_Header = (\<lambda>h. if h = ''Authorization'' then ''Bearer good'' else []), rq_Cookie = (\<lambda>_. []),
     rq_Query = (\<lambda>_. []), rq_ClientIP = ''10.0.0.1'', rq_Body = []\<rparr>"

lemma demo_jwt_ok: "jwt_ok demo_jwt"
  by (auto simp: jwt_ok_def demo_jwt_def)

lemma demo_token: "jwt_track demo_env demo_request = Some ''T''"
proof -
  have "TrimSpace ''good'' = ''good''" by code_simp
  moreover have "TrimPrefix ''Bearer good'' ''Bearer '' = ''good''" by code_simp
  ultimately show ?thesis
    by (simp add: jwt_track_def demo_env_def demo_request_def HasPrefix_def GetRSAPublicKey_def demo_config_def
        ValidateToken_def demo_jwt_def rs256_only_def validateExpIfPresent_def validateTag_def claim_tenant_def Let_def)
qed

section \<open>Properties\<close>

text \<open>
  C34: Nothing runs without a credential. A handler behind the HTTP guard runs only when the request
  carries a token signed with RS256 under the configured key with the service's tag and not expired,
  or the cookie of a live session, and it runs with the tenant of that credential; the gRPC handlers
  run only for such a token. Every other request is refused with 401 or Unauthenticated and changes
  nothing. A request with a credential is never refused by the HTTP guard.
\<close>
theorem handlers_need_credentials:
  assumes "jwt_ok (ae_jwt E)"
  shows "(AuthMiddleware E rq next c t w = (unauthorized StatusUnauthorized Unauthorized MsgNotLoggedIn, w) \<or>
      (\<exists>tid. credential E rq tid \<and> AuthMiddleware E rq next c t w = next c (Some tid) w)) \<and>
    ((\<exists>reason. TokenInterceptor E md handler w = (Inl (Unauthenticated reason), w)) \<or>
      (\<exists>get tok toks tid. md = Some get \<and> get ''authorization'' = tok # toks \<and> token_for E tok tid \<and>
        TokenInterceptor E md handler w = handler tid w)) \<and>
    (session_track E rq = Some tid' \<longrightarrow> (\<exists>tid. AuthMiddleware E rq next c t w = next c (Some tid) w))"
proof (intro conjI)
  show "AuthMiddleware E rq next c t w = (unauthorized StatusUnauthorized Unauthorized MsgNotLoggedIn, w) \<or>
      (\<exists>tid. credential E rq tid \<and> AuthMiddleware E rq next c t w = next c (Some tid) w)"
    by (rule AuthMiddleware_cases [OF assms, of rq "next" c t w]) auto
  show "(\<exists>reason. TokenInterceptor E md handler w = (Inl (Unauthenticated reason), w)) \<or>
      (\<exists>get tok toks tid. md = Some get \<and> get ''authorization'' = tok # toks \<and> token_for E tok tid \<and>
        TokenInterceptor E md handler w = handler tid w)"
    by (rule TokenInterceptor_cases [OF assms, of md handler w]) auto
  show "session_track E rq = Some tid' \<longrightarrow> (\<exists>tid. AuthMiddleware E rq next c t w = next c (Some tid) w)"
    by (auto simp: AuthMiddleware_def split: option.split)
qed

theorem handlers_need_credentials_witness:
  "\<exists>tid. credential demo_env demo_request tid \<and>
     AuthMiddleware demo_env demo_request (\<lambda>c t w. (Nothing, Suc w)) None None 0 = (Nothing :: bytes response, Suc 0)"
proof -
  have ok: "jwt_ok (ae_jwt demo_env)" using demo_jwt_ok by (simp add: demo_env_def)
  have "AuthMiddleware demo_env demo_request (\<lambda>c t w. (Nothing, Suc w)) None None 0 = (Nothing :: bytes response, Suc 0)"
    by (simp add: AuthMiddleware_def demo_token)
  with handlers_need_credentials [OF ok, of demo_request "\<lambda>c t w. (Nothing :: bytes response, Suc w)" None None 0]
  show ?thesis by auto
qed

end
