(* ===== verification/Store.thy ===== *)
theory Store
  imports Hub_Constants "HOL-Library.Signed_Division"
begin

text \<open>
  The database: the row types of src/internal/model and PostgreSQL (through gorm) as the hub uses it.

  PostgreSQL and gorm are not part of this repository. They are the parameter \<open>pg\<close>, a record with
  one executor per kind of statement the repositories issue; \<open>Inl\<close> is an error. A WHERE clause is a
  predicate on rows written from the SQL text of the source, with SQL's treatment of NULL (the status
  of a left-joined row that has no partner is \<open>None\<close>). \<open>pg_ok\<close> is what the code relies on: a
  statement that succeeds has its documented effect (a select returns the rows that satisfy its
  clause, sorted and cut as asked; an insert adds exactly its rows and respects the primary key; an
  update or delete touches exactly the matching rows), a statement that fails has none, and a
  transaction that does not commit leaves the database as it was. \<open>pg_up\<close> adds that statements
  without a key conflict succeed. \<open>demo_pg\<close> is an engine with both properties.
\<close>

type_synonym uuid = "128 word"

record notify_record =
  r_NotifyID :: uuid
  r_Title :: bytes
  r_Content :: bytes
  r_TargetType :: int
  r_SenderType :: int
  r_SenderID :: bytes
  r_EventType :: bytes
  r_TenantID :: bytes
  r_TargetIDs :: "bytes list"
  r_ExpireAt :: "time option"
  r_CreatedAt :: time

record notify_status =
  s_StatusNotifyID :: uuid
  s_NotifyID :: uuid
  s_TargetUserID :: bytes
  s_Status :: int
  s_CreateTime :: time
  s_UpdateTime :: time

record notify_watermark =
  w_TenantID :: bytes
  w_UserID :: bytes
  w_TenantReadAt :: time
  w_TenantClearAt :: time

record db =
  t_record :: "notify_record list"
  t_status :: "notify_status list"
  t_watermark :: "notify_watermark list"

definition empty_db :: db where
  "empty_db = \<lparr>t_record = [], t_status = [], t_watermark = []\<rparr>"

datatype sql_err = ErrRecordNotFound | ErrEmptySlice | ScanError | SqlError bytes

text \<open>The hooks that fill a nil primary key before an insert; \<open>fresh\<close> is \<open>uuid.New()\<close>.\<close>
definition uuid_Nil :: uuid where "uuid_Nil = 0"

definition NotifyRecord_BeforeCreate :: "uuid \<Rightarrow> notify_record \<Rightarrow> notify_record" where
  "NotifyRecord_BeforeCreate fresh n = (if r_NotifyID n = uuid_Nil then n\<lparr>r_NotifyID := fresh\<rparr> else n)"

definition NotifyStatus_BeforeCreate :: "uuid \<Rightarrow> notify_status \<Rightarrow> notify_status" where
  "NotifyStatus_BeforeCreate fresh n =
     (if s_StatusNotifyID n = uuid_Nil then n\<lparr>s_StatusNotifyID := fresh\<rparr> else n)"

section \<open>The engine\<close>

text \<open>Clause, sort key (ascending), offset, limit.\<close>
type_synonym 'r select = "('r \<Rightarrow> bool) \<Rightarrow> ('r \<Rightarrow> int) \<Rightarrow> int \<Rightarrow> int option \<Rightarrow> db \<Rightarrow> sql_err + 'r list"

record pg =
  sel_record :: "notify_record select"
  sel_status :: "notify_status select"
  sel_watermark :: "notify_watermark select"
  sel_left :: "bytes \<Rightarrow> (notify_record \<times> notify_status option) select"
  sel_inner :: "(notify_record \<times> notify_status) select"
  ins_record :: "notify_record \<Rightarrow> db \<Rightarrow> sql_err + db"
  ins_status :: "notify_status list \<Rightarrow> db \<Rightarrow> sql_err + db"
  ins_watermark :: "notify_watermark \<Rightarrow> (notify_watermark \<Rightarrow> notify_watermark) \<Rightarrow> db \<Rightarrow> sql_err + db"
  upd_record :: "(notify_record \<Rightarrow> bool) \<Rightarrow> (notify_record \<Rightarrow> notify_record) \<Rightarrow> db \<Rightarrow> sql_err + db"
  upd_status :: "(db \<Rightarrow> notify_status \<Rightarrow> bool) \<Rightarrow> (notify_status \<Rightarrow> notify_status) \<Rightarrow> db \<Rightarrow> sql_err + db"
  del_record :: "(notify_record \<Rightarrow> bool) \<Rightarrow> db \<Rightarrow> sql_err + db"
  del_status :: "(notify_status \<Rightarrow> bool) \<Rightarrow> db \<Rightarrow> sql_err + db"
  tx_commit :: "db \<Rightarrow> sql_err option"

text \<open>LEFT JOIN of the records with one user's status rows, and the inner join with all of them.\<close>
definition left_rows :: "bytes \<Rightarrow> db \<Rightarrow> (notify_record \<times> notify_status option) list" where
  "left_rows u d = concat (map (\<lambda>r.
     case filter (\<lambda>s. s_NotifyID s = r_NotifyID r \<and> s_TargetUserID s = u) (t_status d) of
       [] \<Rightarrow> [(r, None)]
     | ss \<Rightarrow> map (\<lambda>s. (r, Some s)) ss) (t_record d))"

definition inner_rows :: "db \<Rightarrow> (notify_record \<times> notify_status) list" where
  "inner_rows d = concat (map (\<lambda>r.
     map (Pair r) (filter (\<lambda>s. s_NotifyID s = r_NotifyID r) (t_status d))) (t_record d))"

text \<open>OFFSET and LIMIT; gorm leaves a negative one out.\<close>
definition slice :: "int \<Rightarrow> int option \<Rightarrow> 'r list \<Rightarrow> 'r list" where
  "slice off lim xs =
     (let ys = drop (nat off) xs in
      case lim of None \<Rightarrow> ys | Some l \<Rightarrow> if l < 0 then ys else take (nat l) ys)"

definition selected :: "'r list \<Rightarrow> ('r \<Rightarrow> bool) \<Rightarrow> ('r \<Rightarrow> int) \<Rightarrow> int \<Rightarrow> int option \<Rightarrow> 'r list \<Rightarrow> bool" where
  "selected rows wh key off lim res =
     (\<exists>xs. mset xs = mset (filter wh rows) \<and> sorted (map key xs) \<and> res = slice off lim xs)"

text \<open>\<open>ErrRecordNotFound\<close> is an error of \<open>First\<close> only, never of the query below it.\<close>
definition select_ok :: "'r select \<Rightarrow> (db \<Rightarrow> 'r list) \<Rightarrow> bool" where
  "select_ok sel rows =
     ((\<forall>wh key off lim d xs. sel wh key off lim d = Inr xs \<longrightarrow> selected (rows d) wh key off lim xs) \<and>
      (\<forall>wh key off lim d. sel wh key off lim d \<noteq> Inl ErrRecordNotFound))"

definition record_fits :: "notify_record \<Rightarrow> db \<Rightarrow> bool" where
  "record_fits r d = (r_NotifyID r \<notin> r_NotifyID ` set (t_record d))"

definition status_fits :: "notify_status list \<Rightarrow> db \<Rightarrow> bool" where
  "status_fits ss d =
     (distinct (map s_StatusNotifyID ss) \<and>
      s_StatusNotifyID ` set ss \<inter> s_StatusNotifyID ` set (t_status d) = {})"

definition same_owner :: "notify_watermark \<Rightarrow> notify_watermark \<Rightarrow> bool" where
  "same_owner w w' = (w_TenantID w = w_TenantID w' \<and> w_UserID w = w_UserID w')"

text \<open>INSERT ... ON CONFLICT (tenant_id, user_id) DO UPDATE.\<close>
definition upserted :: "notify_watermark \<Rightarrow> (notify_watermark \<Rightarrow> notify_watermark) \<Rightarrow> notify_watermark list
    \<Rightarrow> notify_watermark list" where
  "upserted w f ws =
     (if \<exists>w' \<in> set ws. same_owner w w' then map (\<lambda>w'. if same_owner w w' then f w' else w') ws
      else ws @ [w])"

definition insert_ok :: "pg \<Rightarrow> bool" where
  "insert_ok P =
     ((\<forall>r d d'. ins_record P r d = Inr d' \<longrightarrow> record_fits r d \<and> d' = d\<lparr>t_record := t_record d @ [r]\<rparr>) \<and>
      (\<forall>ss d d'. ins_status P ss d = Inr d' \<longrightarrow> status_fits ss d \<and> d' = d\<lparr>t_status := t_status d @ ss\<rparr>) \<and>
      (\<forall>w f d d'. ins_watermark P w f d = Inr d' \<longrightarrow> d' = d\<lparr>t_watermark := upserted w f (t_watermark d)\<rparr>))"

definition update_ok :: "pg \<Rightarrow> bool" where
  "update_ok P =
     ((\<forall>wh f d d'. upd_record P wh f d = Inr d' \<longrightarrow>
         d' = d\<lparr>t_record := map (\<lambda>r. if wh r then f r else r) (t_record d)\<rparr>) \<and>
      (\<forall>wh f d d'. upd_status P wh f d = Inr d' \<longrightarrow>
         d' = d\<lparr>t_status := map (\<lambda>s. if wh d s then f s else s) (t_status d)\<rparr>) \<and>
      (\<forall>wh d d'. del_record P wh d = Inr d' \<longrightarrow> d' = d\<lparr>t_record := filter (\<lambda>r. \<not> wh r) (t_record d)\<rparr>) \<and>
      (\<forall>wh d d'. del_status P wh d = Inr d' \<longrightarrow> d' = d\<lparr>t_status := filter (\<lambda>s. \<not> wh s) (t_status d)\<rparr>))"

definition pg_ok :: "pg \<Rightarrow> bool" where
  "pg_ok P =
     (select_ok (sel_record P) t_record \<and> select_ok (sel_status P) t_status \<and>
      select_ok (sel_watermark P) t_watermark \<and> (\<forall>u. select_ok (sel_left P u) (left_rows u)) \<and>
      select_ok (sel_inner P) inner_rows \<and> insert_ok P \<and> update_ok P)"

definition select_up :: "'r select \<Rightarrow> bool" where
  "select_up sel = (\<forall>wh key off lim d. \<exists>xs. sel wh key off lim d = Inr xs)"

definition pg_up :: "pg \<Rightarrow> bool" where
  "pg_up P =
     (pg_ok P \<and> select_up (sel_record P) \<and> select_up (sel_status P) \<and> select_up (sel_watermark P) \<and>
      (\<forall>u. select_up (sel_left P u)) \<and> select_up (sel_inner P) \<and>
      (\<forall>r d. record_fits r d \<longrightarrow> (\<exists>d'. ins_record P r d = Inr d')) \<and>
      (\<forall>ss d. status_fits ss d \<longrightarrow> (\<exists>d'. ins_status P ss d = Inr d')) \<and>
      (\<forall>w f d. \<exists>d'. ins_watermark P w f d = Inr d') \<and>
      (\<forall>wh f d. \<exists>d'. upd_record P wh f d = Inr d') \<and> (\<forall>wh f d. \<exists>d'. upd_status P wh f d = Inr d') \<and>
      (\<forall>wh d. \<exists>d'. del_record P wh d = Inr d') \<and> (\<forall>wh d. \<exists>d'. del_status P wh d = Inr d') \<and>
      (\<forall>d. tx_commit P d = None))"

text \<open>\<open>db.Transaction(f)\<close>: an error of \<open>f\<close> or of the commit rolls everything back.\<close>
definition Transaction :: "pg \<Rightarrow> (db \<Rightarrow> sql_err + 'a \<times> db) \<Rightarrow> db \<Rightarrow> (sql_err + 'a) \<times> db" where
  "Transaction P f d =
     (case f d of
        Inl e \<Rightarrow> (Inl e, d)
      | Inr (a, d') \<Rightarrow> (case tx_commit P d' of Some e \<Rightarrow> (Inl e, d) | None \<Rightarrow> (Inr a, d')))"

text \<open>\<open>First\<close>: the first row, or \<open>ErrRecordNotFound\<close>.\<close>
definition gorm_First :: "sql_err + 'r list \<Rightarrow> sql_err + 'r" where
  "gorm_First r = (case r of Inl e \<Rightarrow> Inl e | Inr [] \<Rightarrow> Inl ErrRecordNotFound | Inr (x # _) \<Rightarrow> Inr x)"

text \<open>A write outside a transaction: the database after it, and the error if any.\<close>
definition auto_commit :: "(sql_err + db) \<Rightarrow> db \<Rightarrow> (sql_err + unit) \<times> db" where
  "auto_commit r d = (case r of Inl e \<Rightarrow> (Inl e, d) | Inr d' \<Rightarrow> (Inr (), d'))"

section \<open>An engine\<close>

definition demo_select :: "(db \<Rightarrow> 'r list) \<Rightarrow> 'r select" where
  "demo_select rows wh key off lim d = Inr (slice off lim (sort_key key (filter wh (rows d))))"

definition demo_pg :: pg where
  "demo_pg = \<lparr>
     sel_record = demo_select t_record, sel_status = demo_select t_status,
     sel_watermark = demo_select t_watermark, sel_left = (\<lambda>u. demo_select (left_rows u)),
     sel_inner = demo_select inner_rows,
     ins_record = (\<lambda>r d. if record_fits r d then Inr (d\<lparr>t_record := t_record d @ [r]\<rparr>) else Inl (SqlError ''dup'')),
     ins_status = (\<lambda>ss d. if status_fits ss d then Inr (d\<lparr>t_status := t_status d @ ss\<rparr>) else Inl (SqlError ''dup'')),
     ins_watermark = (\<lambda>w f d. Inr (d\<lparr>t_watermark := upserted w f (t_watermark d)\<rparr>)),
     upd_record = (\<lambda>wh f d. Inr (d\<lparr>t_record := map (\<lambda>r. if wh r then f r else r) (t_record d)\<rparr>)),
     upd_status = (\<lambda>wh f d. Inr (d\<lparr>t_status := map (\<lambda>s. if wh d s then f s else s) (t_status d)\<rparr>)),
     del_record = (\<lambda>wh d. Inr (d\<lparr>t_record := filter (\<lambda>r. \<not> wh r) (t_record d)\<rparr>)),
     del_status = (\<lambda>wh d. Inr (d\<lparr>t_status := filter (\<lambda>s. \<not> wh s) (t_status d)\<rparr>)),
     tx_commit = (\<lambda>_. None)\<rparr>"

lemma demo_select_ok: "select_ok (demo_select rows) rows" "select_up (demo_select rows)"
proof -
  have "selected (rows d) wh key off lim (slice off lim (sort_key key (filter wh (rows d))))"
    for wh key off lim d
    unfolding selected_def by (intro exI [of _ "sort_key key (filter wh (rows d))"]) simp
  then show "select_ok (demo_select rows) rows" by (simp add: select_ok_def demo_select_def)
  show "select_up (demo_select rows)" by (simp add: select_up_def demo_select_def)
qed

lemma demo_pg_ok: "pg_ok demo_pg" "pg_up demo_pg"
proof -
  show "pg_ok demo_pg"
    by (simp add: pg_ok_def demo_pg_def demo_select_ok insert_ok_def update_ok_def)
  then show "pg_up demo_pg"
    by (simp add: pg_up_def) (simp add: demo_pg_def demo_select_ok)
qed

section \<open>Reading results\<close>

lemma selected_all: "selected rows wh key 0 None res \<Longrightarrow> mset res = mset (filter wh rows)"
  by (auto simp: selected_def slice_def)

lemma selected_length: "selected rows wh key 0 None res \<Longrightarrow> length res = length (filter wh rows)"
  by (metis selected_all size_mset)

lemma selected_set: "selected rows wh key off lim res \<Longrightarrow> set res \<subseteq> {x \<in> set rows. wh x}"
proof -
  assume "selected rows wh key off lim res"
  then obtain xs where "mset xs = mset (filter wh rows)" and r: "res = slice off lim xs"
    unfolding selected_def by blast
  then have "set xs = {x \<in> set rows. wh x}" by (metis mset_eq_setD set_filter)
  then show ?thesis
    unfolding r slice_def Let_def
    by (auto split: option.splits if_splits dest: in_set_takeD in_set_dropD)
qed

text \<open>With the query's key injective on the matching rows, the order is forced.\<close>

lemma selected_unique:
  assumes "selected rows wh key off lim res" and "distinct (map key (filter wh rows))"
  shows "res = slice off lim (sort_key key (filter wh rows))"
proof -
  from assms(1) obtain xs where m: "mset xs = mset (filter wh rows)" and s: "sorted (map key xs)"
    and r: "res = slice off lim xs" unfolding selected_def by blast
  have "distinct (map key xs)"
    using assms(2) m by (metis distinct_map mset_eq_imp_distinct_iff mset_map)
  then have inj: "inj_on key (set xs)" by (simp add: distinct_map)
  let ?ys = "sort_key key (filter wh rows)"
  have sets: "set ?ys = set xs" using m by (metis mset_eq_setD mset_sort)
  have "distinct (map key ?ys)"
    using assms(2) by (metis distinct_map mset_eq_imp_distinct_iff mset_map mset_sort)
  moreover have "set (map key xs) = set (map key ?ys)" by (simp only: set_map sets)
  ultimately have "map key xs = map key ?ys"
    using s \<open>distinct (map key xs)\<close> by (intro sorted_distinct_set_unique) simp_all
  moreover have "inj_on key (set xs \<union> set ?ys)" using inj by (simp only: sets Un_absorb)
  ultimately have "xs = ?ys" by (simp only: inj_on_map_eq_map)
  with r show ?thesis by simp
qed

lemma sel_ok [dest]:
  assumes "pg_ok P"
  shows "sel_record P wh key off lim d = Inr xs \<Longrightarrow> selected (t_record d) wh key off lim xs"
    "sel_status P wh' key' off lim d = Inr ys \<Longrightarrow> selected (t_status d) wh' key' off lim ys"
    "sel_watermark P wh'' key'' off lim d = Inr zs \<Longrightarrow> selected (t_watermark d) wh'' key'' off lim zs"
    "sel_left P u wl kl off lim d = Inr ls \<Longrightarrow> selected (left_rows u d) wl kl off lim ls"
    "sel_inner P wi ki off lim d = Inr is \<Longrightarrow> selected (inner_rows d) wi ki off lim is"
  using assms by (auto simp: pg_ok_def select_ok_def)

lemma sel_not_found:
  assumes "pg_ok P"
  shows "sel_record P wh key off lim d \<noteq> Inl ErrRecordNotFound"
    "sel_status P wh' key' off lim d \<noteq> Inl ErrRecordNotFound"
    "sel_watermark P wh'' key'' off lim d \<noteq> Inl ErrRecordNotFound"
  using assms by (auto simp: pg_ok_def select_ok_def)

lemma pg_up_ok: "pg_up P \<Longrightarrow> pg_ok P"
  by (simp add: pg_up_def)

lemma pg_up_select:
  assumes "pg_up P"
  shows "\<exists>xs. sel_record P wh key off lim d = Inr xs" "\<exists>xs. sel_status P wh' key' off lim d = Inr xs"
    "\<exists>xs. sel_watermark P wh'' key'' off lim d = Inr xs" "\<exists>xs. sel_left P u wl kl off lim d = Inr xs"
    "\<exists>xs. sel_inner P wi ki off lim d = Inr xs"
  using assms by (simp_all add: pg_up_def select_up_def)

lemma write_ok:
  assumes "pg_ok P"
  shows "ins_record P r d = Inr d' \<Longrightarrow> record_fits r d \<and> d' = d\<lparr>t_record := t_record d @ [r]\<rparr>"
    "ins_status P ss d = Inr d' \<Longrightarrow> status_fits ss d \<and> d' = d\<lparr>t_status := t_status d @ ss\<rparr>"
    "ins_watermark P w f d = Inr d' \<Longrightarrow> d' = d\<lparr>t_watermark := upserted w f (t_watermark d)\<rparr>"
    "upd_status P wh g d = Inr d' \<Longrightarrow> d' = d\<lparr>t_status := map (\<lambda>s. if wh d s then g s else s) (t_status d)\<rparr>"
    "del_record P wr d = Inr d' \<Longrightarrow> d' = d\<lparr>t_record := filter (\<lambda>r. \<not> wr r) (t_record d)\<rparr>"
    "del_status P ws d = Inr d' \<Longrightarrow> d' = d\<lparr>t_status := filter (\<lambda>s. \<not> ws s) (t_status d)\<rparr>"
  using assms unfolding pg_ok_def insert_ok_def update_ok_def by meson+

lemma pg_up_total:
  assumes "pg_up P"
  shows "record_fits r d \<Longrightarrow> \<exists>d'. ins_record P r d = Inr d'" "status_fits ss d \<Longrightarrow> \<exists>d'. ins_status P ss d = Inr d'"
    "\<exists>d'. ins_watermark P w f d = Inr d'" "\<exists>d'. upd_status P wh g d = Inr d'"
    "\<exists>d'. del_record P wr d = Inr d'" "\<exists>d'. del_status P ws d = Inr d'" "tx_commit P d = None"
  using assms by (simp_all add: pg_up_def)

lemma pg_up_write:
  assumes "pg_up P"
  shows "record_fits r d \<Longrightarrow> ins_record P r d = Inr (d\<lparr>t_record := t_record d @ [r]\<rparr>)"
    "status_fits ss d \<Longrightarrow> ins_status P ss d = Inr (d\<lparr>t_status := t_status d @ ss\<rparr>)"
    "ins_watermark P w f d = Inr (d\<lparr>t_watermark := upserted w f (t_watermark d)\<rparr>)"
    "upd_status P wh g d = Inr (d\<lparr>t_status := map (\<lambda>s. if wh d s then g s else s) (t_status d)\<rparr>)"
    "del_record P wr d = Inr (d\<lparr>t_record := filter (\<lambda>r. \<not> wr r) (t_record d)\<rparr>)"
    "del_status P ws d = Inr (d\<lparr>t_status := filter (\<lambda>s. \<not> ws s) (t_status d)\<rparr>)"
  using pg_up_total(1) [OF assms, of r d] write_ok(1) [OF pg_up_ok [OF assms]] apply blast
  using pg_up_total(2) [OF assms, of ss d] write_ok(2) [OF pg_up_ok [OF assms]] apply blast
  using pg_up_total(3) [OF assms] write_ok(3) [OF pg_up_ok [OF assms]] apply blast
  using pg_up_total(4) [OF assms] write_ok(4) [OF pg_up_ok [OF assms]] apply blast
  using pg_up_total(5) [OF assms] write_ok(5) [OF pg_up_ok [OF assms]] apply blast
  using pg_up_total(6) [OF assms] write_ok(6) [OF pg_up_ok [OF assms]] apply blast
  done

end
