(* ===== verification/Go_Strconv.thy ===== *)
theory Go_Strconv
  imports Hub_Prelude
begin

text \<open>
  Decimal integers of Go's standard library: \<open>fmt.Sprintf("%d", x)\<close> (\<open>go_itoa\<close>) and
  \<open>strconv.ParseInt(s, 10, 64)\<close> (\<open>ParseInt\<close>, which \<open>database/sql\<close> also uses to scan a
  text column into an int64). The hub keeps its unread counters in Redis as decimal strings
  and scans user identifiers into int64 fields, so both directions matter: they are inverse
  on the int64 range, and \<open>canonical_int64\<close> names the strings that survive the round trip.
\<close>

definition digit_char :: "nat \<Rightarrow> char" where
  "digit_char d = char_of (48 + d)"

definition char_digit :: "char \<Rightarrow> nat option" where
  "char_digit c = (let n = of_char c :: nat in if 48 \<le> n \<and> n \<le> 57 then Some (n - 48) else None)"

fun nat_digits :: "nat \<Rightarrow> string" where
  "nat_digits n =
     (if n < 10 then [digit_char n] else nat_digits (n div 10) @ [digit_char (n mod 10)])"

declare nat_digits.simps [simp del]

definition go_itoa :: "int \<Rightarrow> string" where
  "go_itoa x = (if x < 0 then CHR ''-'' # nat_digits (nat (- x)) else nat_digits (nat x))"

fun parse_digits :: "nat \<Rightarrow> string \<Rightarrow> nat option" where
  "parse_digits acc [] = Some acc"
| "parse_digits acc (c # cs) =
     (case char_digit c of None \<Rightarrow> None | Some d \<Rightarrow> parse_digits (10 * acc + d) cs)"

definition ParseUint :: "string \<Rightarrow> nat option" where
  "ParseUint s = (if s = [] then None else parse_digits 0 s)"

text \<open>A sign, at least one digit, and a value inside the int64 range.\<close>
definition ParseInt :: "string \<Rightarrow> int option" where
  "ParseInt s =
     (case s of
        [] \<Rightarrow> None
      | c # cs \<Rightarrow>
          (case (if c = CHR ''+'' \<or> c = CHR ''-'' then ParseUint cs else ParseUint s) of
             None \<Rightarrow> None
           | Some n \<Rightarrow>
               let x = (if c = CHR ''-'' then - int n else int n)
               in if - (2 ^ 63) \<le> x \<and> x < 2 ^ 63 then Some x else None))"

definition canonical_int64 :: "string \<Rightarrow> bool" where
  "canonical_int64 s = (case ParseInt s of None \<Rightarrow> False | Some x \<Rightarrow> go_itoa x = s)"

lemma char_digit_digit_char [simp]: "d < 10 \<Longrightarrow> char_digit (digit_char d) = Some d"
  by (simp add: char_digit_def digit_char_def)

lemma parse_digits_append:
  "parse_digits a (s @ t) = (case parse_digits a s of None \<Rightarrow> None | Some b \<Rightarrow> parse_digits b t)"
  by (induction s arbitrary: a) (auto split: option.splits)

lemma nat_digits_nonempty [simp]: "nat_digits n \<noteq> []"
  by (subst nat_digits.simps) simp

lemma parse_nat_digits [simp]: "parse_digits 0 (nat_digits n) = Some n"
proof (induction n rule: nat_digits.induct)
  case (1 n)
  show ?case
  proof (cases "n < 10")
    case True
    then show ?thesis by (subst nat_digits.simps) simp
  next
    case False
    with "1.IH" have "parse_digits 0 (nat_digits (n div 10)) = Some (n div 10)" by simp
    with False show ?thesis by (subst nat_digits.simps) (simp add: parse_digits_append)
  qed
qed

lemma digit_char_not_sign: "d < 10 \<Longrightarrow> digit_char d \<noteq> CHR ''+'' \<and> digit_char d \<noteq> CHR ''-''"
proof -
  assume "d < 10"
  then have "char_digit (digit_char d) \<noteq> None" by simp
  moreover have "char_digit CHR ''+'' = None" and "char_digit CHR ''-'' = None"
    by (simp_all add: char_digit_def)
  ultimately show ?thesis by metis
qed

lemma hd_nat_digits: "\<exists>d < 10. hd (nat_digits n) = digit_char d"
proof (induction n rule: nat_digits.induct)
  case (1 n)
  show ?case
  proof (cases "n < 10")
    case True
    then show ?thesis by (subst nat_digits.simps) auto
  next
    case False
    with "1.IH" show ?thesis by (subst nat_digits.simps) (simp add: hd_append)
  qed
qed

lemma ParseInt_itoa [simp]:
  assumes "- (2 ^ 63) \<le> x" and "x < 2 ^ 63"
  shows "ParseInt (go_itoa x) = Some x"
proof (cases "x < 0")
  case True
  with assms show ?thesis by (simp add: go_itoa_def ParseInt_def ParseUint_def)
next
  case False
  obtain c cs where s: "nat_digits (nat x) = c # cs"
    using nat_digits_nonempty by (meson neq_Nil_conv)
  have "c \<noteq> CHR ''+'' \<and> c \<noteq> CHR ''-''"
    using hd_nat_digits [of "nat x"] digit_char_not_sign by (auto simp: s)
  moreover have "parse_digits 0 (c # cs) = Some (nat x)"
    using parse_nat_digits [of "nat x"] by (simp only: s)
  ultimately show ?thesis
    using False assms by (simp add: go_itoa_def ParseInt_def ParseUint_def s)
qed

lemma ParseInt_range: "ParseInt s = Some x \<Longrightarrow> - (2 ^ 63) \<le> x \<and> x < 2 ^ 63"
  by (auto simp: ParseInt_def Let_def split: list.splits option.splits if_splits)

lemma go_itoa_inj:
  assumes "go_itoa x = go_itoa y" and "- (2 ^ 63) \<le> x" "x < 2 ^ 63" "- (2 ^ 63) \<le> y" "y < 2 ^ 63"
  shows "x = y"
  using ParseInt_itoa [OF assms(2,3)] ParseInt_itoa [OF assms(4,5)] assms(1) option.inject
  by metis

lemma canonical_itoa: "- (2 ^ 63) \<le> x \<Longrightarrow> x < 2 ^ 63 \<Longrightarrow> canonical_int64 (go_itoa x)"
  by (simp add: canonical_int64_def)

end
