(* ===== verification/Repository.thy ===== *)
theory Repository
  imports Store Go_Strconv
begin

text \<open>
  The repositories over the database: src/internal/repository/record.go, status.go, watermark.go and
  unread_db.go. Each query is the composition of its WHERE clauses, written as a predicate on the
  joined row; aggregates are computed from the rows of the select. \<open>str\<close> is the text form of a uuid
  (PostgreSQL's and google/uuid's agree), \<open>now\<close> the instant gorm stamps rows with, \<open>fresh\<close> the new
  uuids it draws.

  Shown: the statistics and the pages of the inbox agree, successive pages list every visible
  notification exactly once, the counters read from the database count what they say, the batched
  count agrees with the count per user on canonical ids, and the watermark is a read-after-write
  register that keeps its other column.
\<close>

section \<open>Records\<close>

definition RecordRepo_Create :: "pg \<Rightarrow> time \<Rightarrow> uuid \<Rightarrow> notify_record \<Rightarrow> db \<Rightarrow> sql_err + notify_record \<times> db" where
  "RecordRepo_Create P now fresh record d =
     (let r = NotifyRecord_BeforeCreate fresh record;
          r' = (if r_CreatedAt r = zero_time then r\<lparr>r_CreatedAt := now\<rparr> else r)
      in case ins_record P r' d of Inl e \<Rightarrow> Inl e | Inr d' \<Rightarrow> Inr (r', d'))"

text \<open>\<open>parse\<close> is PostgreSQL's reading of the parameter as a uuid; \<open>None\<close> is its error.\<close>
definition RecordRepo_FindByID :: "pg \<Rightarrow> (bytes \<Rightarrow> uuid option) \<Rightarrow> bytes \<Rightarrow> db \<Rightarrow> sql_err + notify_record" where
  "RecordRepo_FindByID P parse notifyID d =
     (case parse notifyID of
        None \<Rightarrow> Inl (SqlError ''invalid input syntax for type uuid'')
      | Some u \<Rightarrow> gorm_First (sel_record P (\<lambda>r. r_NotifyID r = u) (\<lambda>r. uint (r_NotifyID r)) 0 (Some 1) d))"

definition RecordRepo_FindByTenant :: "pg \<Rightarrow> bytes \<Rightarrow> int \<Rightarrow> int \<Rightarrow> db \<Rightarrow> sql_err + notify_record list" where
  "RecordRepo_FindByTenant P tenantID lim off d =
     sel_record P (\<lambda>r. r_TenantID r = tenantID) (\<lambda>r. - r_CreatedAt r) off (Some lim) d"

text \<open>\<open>Save\<close>: an update by primary key, or an insert when no row has it.\<close>
definition RecordRepo_Update :: "pg \<Rightarrow> notify_record \<Rightarrow> db \<Rightarrow> sql_err + db" where
  "RecordRepo_Update P record d =
     (if \<exists>r \<in> set (t_record d). r_NotifyID r = r_NotifyID record
      then upd_record P (\<lambda>r. r_NotifyID r = r_NotifyID record) (\<lambda>_. record) d
      else ins_record P record d)"

definition RecordRepo_Delete :: "pg \<Rightarrow> (bytes \<Rightarrow> uuid option) \<Rightarrow> bytes \<Rightarrow> db \<Rightarrow> sql_err + db" where
  "RecordRepo_Delete P parse notifyID d =
     (case parse notifyID of
        None \<Rightarrow> Inl (SqlError ''invalid input syntax for type uuid'')
      | Some u \<Rightarrow> del_record P (\<lambda>r. r_NotifyID r = u) d)"

record expired_info =
  e_NotifyID :: uuid
  e_TenantID :: bytes
  e_TargetIDs :: "bytes list"
  e_TargetType :: int
  e_SenderType :: int

definition expired_info_of :: "notify_record \<Rightarrow> expired_info" where
  "expired_info_of r = \<lparr>e_NotifyID = r_NotifyID r, e_TenantID = r_TenantID r,
     e_TargetIDs = r_TargetIDs r, e_TargetType = r_TargetType r, e_SenderType = r_SenderType r\<rparr>"

definition expired_by :: "time \<Rightarrow> notify_record \<Rightarrow> bool" where
  "expired_by before r = (case r_ExpireAt r of None \<Rightarrow> False | Some t \<Rightarrow> t \<le> before)"

definition RecordRepo_ListExpiredNotifyInfos :: "pg \<Rightarrow> time \<Rightarrow> int \<Rightarrow> db \<Rightarrow> sql_err + expired_info list" where
  "RecordRepo_ListExpiredNotifyInfos P before lim d =
     map_sum id (map expired_info_of)
       (sel_record P (expired_by before) (\<lambda>r. case r_ExpireAt r of None \<Rightarrow> 0 | Some t \<Rightarrow> t) 0 (Some lim) d)"

definition RecordRepo_DeleteByNotifyIDs :: "pg \<Rightarrow> uuid list \<Rightarrow> db \<Rightarrow> sql_err + db" where
  "RecordRepo_DeleteByNotifyIDs P ids d =
     (if ids = [] then Inr d else del_record P (\<lambda>r. r_NotifyID r \<in> set ids) d)"

section \<open>The inbox\<close>

record record_has_status =
  rh_NotifyID :: bytes
  rh_Title :: bytes
  rh_Content :: bytes
  rh_SenderType :: int
  rh_SenderID :: bytes
  rh_EventType :: bytes
  rh_ExpireAt :: "time option"
  rh_CreatedAt :: time
  rh_Status :: int

record record_page =
  pg_Total :: int
  pg_PageIndex :: int
  pg_PageSize :: int
  pg_PagesTotal :: int
  pg_List :: "record_has_status list"

type_synonym joined = "notify_record \<times> notify_status option"

definition row_status :: "joined \<Rightarrow> int option" where
  "row_status row = map_option s_Status (snd row)"

definition personal_where :: "bytes \<Rightarrow> joined \<Rightarrow> bool" where
  "personal_where tenantID row =
     (r_TenantID (fst row) = tenantID \<and> r_SenderType (fst row) = SenderTypeUser \<and>
      (row_status row = None \<or> row_status row \<noteq> Some NotifyStatusDeleted) \<and>
      (row_status row \<noteq> None \<or> r_TargetType (fst row) = TargetBroadcast))"

definition personal_unread :: "joined \<Rightarrow> bool" where
  "personal_unread row = (row_status row = Some NotifyStatusUnread \<or> row_status row = None)"

definition tenant_where :: "bytes \<Rightarrow> time \<Rightarrow> joined \<Rightarrow> bool" where
  "tenant_where tenantID clearAt row =
     (r_TenantID (fst row) = tenantID \<and> r_SenderType (fst row) = SenderTypeTenant \<and>
      r_CreatedAt (fst row) > clearAt \<and>
      (row_status row = None \<or> row_status row \<noteq> Some NotifyStatusDeleted) \<and>
      (row_status row \<noteq> None \<or> r_TargetType (fst row) = TargetBroadcast))"

definition tenant_unread :: "time \<Rightarrow> joined \<Rightarrow> bool" where
  "tenant_unread readAt row =
     ((row_status row = None \<or> row_status row \<noteq> Some NotifyStatusRead) \<and> r_CreatedAt (fst row) > readAt)"

text \<open>SELECT COUNT(*), SUM(CASE WHEN unread THEN 1 ELSE 0 END); a NULL sum scans as 0.\<close>
definition count_query ::
  "pg \<Rightarrow> bytes \<Rightarrow> (joined \<Rightarrow> bool) \<Rightarrow> (joined \<Rightarrow> bool) \<Rightarrow> db \<Rightarrow> sql_err + int \<times> int" where
  "count_query P userID wh unread d =
     map_sum id (\<lambda>rows. (int (length rows), int (length (filter unread rows))))
       (sel_left P userID wh (\<lambda>_. 0) 0 None d)"

definition has_status :: "(uuid \<Rightarrow> bytes) \<Rightarrow> (joined \<Rightarrow> int) \<Rightarrow> joined \<Rightarrow> record_has_status" where
  "has_status str st row = \<lparr>rh_NotifyID = str (r_NotifyID (fst row)), rh_Title = r_Title (fst row),
     rh_Content = r_Content (fst row), rh_SenderType = r_SenderType (fst row),
     rh_SenderID = r_SenderID (fst row), rh_EventType = r_EventType (fst row),
     rh_ExpireAt = r_ExpireAt (fst row), rh_CreatedAt = r_CreatedAt (fst row), rh_Status = st row\<rparr>"

text \<open>A NULL status scans into the zero value of an int8.\<close>
definition personal_status :: "joined \<Rightarrow> int" where
  "personal_status row = (case row_status row of None \<Rightarrow> 0 | Some s \<Rightarrow> s)"

definition tenant_status :: "time \<Rightarrow> joined \<Rightarrow> int" where
  "tenant_status readAt row =
     (case row_status row of
        Some s \<Rightarrow> s
      | None \<Rightarrow> if r_CreatedAt (fst row) \<le> readAt then NotifyStatusRead else NotifyStatusUnread)"

definition newest_first :: "joined \<Rightarrow> int" where
  "newest_first row = - r_CreatedAt (fst row)"

definition norm_index :: "int \<Rightarrow> int" where "norm_index pageIndex = (if pageIndex < 1 then 1 else pageIndex)"
definition norm_size :: "int \<Rightarrow> int" where "norm_size pageSize = (if pageSize < 1 then 10 else pageSize)"

definition page_offset :: "int \<Rightarrow> int \<Rightarrow> int" where
  "page_offset pageIndex pageSize = go_int64 (go_int64 (pageIndex - 1) * pageSize)"

definition pages_total :: "int \<Rightarrow> int \<Rightarrow> int" where
  "pages_total cnt pageSize =
     (if cnt > 0 then go_int64 (go_int64 (go_int64 (cnt + pageSize) - 1) sdiv pageSize) else 0)"

definition RecordRepo_GetPersonalPage ::
  "pg \<Rightarrow> (uuid \<Rightarrow> bytes) \<Rightarrow> bytes \<Rightarrow> bytes \<Rightarrow> int \<Rightarrow> int \<Rightarrow> db \<Rightarrow> sql_err + record_page \<times> int" where
  "RecordRepo_GetPersonalPage P str tenantID userID pageIndex0 pageSize0 d =
     (let pageIndex = norm_index pageIndex0; pageSize = norm_size pageSize0 in
      case count_query P userID (personal_where tenantID) personal_unread d of
        Inl e \<Rightarrow> Inl e
      | Inr (totalCnt, unread) \<Rightarrow>
          (case sel_left P userID (personal_where tenantID) newest_first
                  (page_offset pageIndex pageSize) (Some pageSize) d of
             Inl e \<Rightarrow> Inl e
           | Inr items \<Rightarrow>
               Inr (\<lparr>pg_Total = totalCnt, pg_PageIndex = pageIndex, pg_PageSize = pageSize,
                     pg_PagesTotal = pages_total totalCnt pageSize,
                     pg_List = map (has_status str personal_status) items\<rparr>, unread)))"

definition RecordRepo_GetPersonalStats :: "pg \<Rightarrow> bytes \<Rightarrow> bytes \<Rightarrow> db \<Rightarrow> sql_err + int \<times> int" where
  "RecordRepo_GetPersonalStats P tenantID userID d =
     count_query P userID (personal_where tenantID) personal_unread d"

definition clear_at :: "notify_watermark option \<Rightarrow> time" where
  "clear_at watermark = (case watermark of None \<Rightarrow> zero_time | Some w \<Rightarrow> w_TenantClearAt w)"

definition read_at :: "notify_watermark option \<Rightarrow> time" where
  "read_at watermark = (case watermark of None \<Rightarrow> zero_time | Some w \<Rightarrow> w_TenantReadAt w)"

text \<open>\<open>GetTenantStats\<close> replaces a zero watermark by 1 January of year 1, which is the zero time again.\<close>
definition RecordRepo_GetTenantStats ::
  "pg \<Rightarrow> bytes \<Rightarrow> bytes \<Rightarrow> notify_watermark option \<Rightarrow> db \<Rightarrow> sql_err + int \<times> int" where
  "RecordRepo_GetTenantStats P tenantID userID watermark d =
     (let clearAt = (if clear_at watermark = zero_time then zero_time else clear_at watermark);
          readAt = (if read_at watermark = zero_time then zero_time else read_at watermark)
      in count_query P userID (tenant_where tenantID clearAt) (tenant_unread readAt) d)"

definition RecordRepo_GetTenantPage ::
  "pg \<Rightarrow> (uuid \<Rightarrow> bytes) \<Rightarrow> bytes \<Rightarrow> bytes \<Rightarrow> int \<Rightarrow> int \<Rightarrow> notify_watermark option \<Rightarrow> db
     \<Rightarrow> sql_err + record_page \<times> int" where
  "RecordRepo_GetTenantPage P str tenantID userID pageIndex0 pageSize0 watermark d =
     (let pageIndex = norm_index pageIndex0; pageSize = norm_size pageSize0;
          clearAt = clear_at watermark; readAt = read_at watermark in
      case count_query P userID (tenant_where tenantID clearAt) (tenant_unread readAt) d of
        Inl e \<Rightarrow> Inl e
      | Inr (totalCnt, unread) \<Rightarrow>
          (case sel_left P userID (tenant_where tenantID clearAt) newest_first
                  (page_offset pageIndex pageSize) (Some pageSize) d of
             Inl e \<Rightarrow> Inl e
           | Inr items \<Rightarrow>
               Inr (\<lparr>pg_Total = totalCnt, pg_PageIndex = pageIndex, pg_PageSize = pageSize,
                     pg_PagesTotal = pages_total totalCnt pageSize,
                     pg_List = map (has_status str (tenant_status readAt)) items\<rparr>, unread)))"

section \<open>Status rows\<close>

definition stamp_status :: "time \<Rightarrow> uuid \<Rightarrow> notify_status \<Rightarrow> notify_status" where
  "stamp_status now fresh status =
     (let s = NotifyStatus_BeforeCreate fresh status in
      s\<lparr>s_CreateTime := (if s_CreateTime s = zero_time then now else s_CreateTime s),
        s_UpdateTime := (if s_UpdateTime s = zero_time then now else s_UpdateTime s)\<rparr>)"

definition new_status :: "uuid \<Rightarrow> bytes \<Rightarrow> int \<Rightarrow> notify_status" where
  "new_status notifyID userID st =
     \<lparr>s_StatusNotifyID = uuid_Nil, s_NotifyID = notifyID, s_TargetUserID = userID, s_Status = st,
      s_CreateTime = zero_time, s_UpdateTime = zero_time\<rparr>"

definition StatusRepo_Create :: "pg \<Rightarrow> time \<Rightarrow> uuid \<Rightarrow> notify_status \<Rightarrow> db \<Rightarrow> sql_err + notify_status \<times> db" where
  "StatusRepo_Create P now fresh status d =
     (let s = stamp_status now fresh status in
      case ins_status P [s] d of Inl e \<Rightarrow> Inl e | Inr d' \<Rightarrow> Inr (s, d'))"

definition status_pk :: "notify_status \<Rightarrow> int" where
  "status_pk s = uint (s_StatusNotifyID s)"

definition StatusRepo_FindByID :: "pg \<Rightarrow> (bytes \<Rightarrow> uuid option) \<Rightarrow> bytes \<Rightarrow> db \<Rightarrow> sql_err + notify_status" where
  "StatusRepo_FindByID P parse statusNotifyID d =
     (case parse statusNotifyID of
        None \<Rightarrow> Inl (SqlError ''invalid input syntax for type uuid'')
      | Some u \<Rightarrow> gorm_First (sel_status P (\<lambda>s. s_StatusNotifyID s = u) status_pk 0 (Some 1) d))"

definition StatusRepo_FindByUserAndNotify :: "pg \<Rightarrow> bytes \<Rightarrow> uuid \<Rightarrow> db \<Rightarrow> sql_err + notify_status" where
  "StatusRepo_FindByUserAndNotify P userID notifyID d =
     gorm_First (sel_status P (\<lambda>s. s_TargetUserID s = userID \<and> s_NotifyID s = notifyID) status_pk 0 (Some 1) d)"

definition StatusRepo_FindByUser :: "pg \<Rightarrow> bytes \<Rightarrow> int \<Rightarrow> int \<Rightarrow> db \<Rightarrow> sql_err + notify_status list" where
  "StatusRepo_FindByUser P userID lim off d =
     sel_status P (\<lambda>s. s_TargetUserID s = userID) (\<lambda>s. - s_UpdateTime s) off (Some lim) d"

text \<open>One fresh uuid per row; gorm refuses an empty slice.\<close>
definition StatusRepo_CreateBulk ::
  "pg \<Rightarrow> time \<Rightarrow> uuid list \<Rightarrow> notify_status list \<Rightarrow> db \<Rightarrow> sql_err + db" where
  "StatusRepo_CreateBulk P now fresh statuses d =
     (if statuses = [] then Inl ErrEmptySlice
      else ins_status P (map (\<lambda>(u, s). stamp_status now u s) (zip fresh statuses)) d)"

definition StatusRepo_Update :: "pg \<Rightarrow> time \<Rightarrow> notify_status \<Rightarrow> db \<Rightarrow> sql_err + notify_status \<times> db" where
  "StatusRepo_Update P now status d =
     (let s' = status\<lparr>s_UpdateTime := now\<rparr> in
      case (if \<exists>s \<in> set (t_status d). s_StatusNotifyID s = s_StatusNotifyID status
            then upd_status P (\<lambda>_ s. s_StatusNotifyID s = s_StatusNotifyID status) (\<lambda>_. s') d
            else ins_status P [s'] d) of
        Inl e \<Rightarrow> Inl e | Inr d' \<Rightarrow> Inr (s', d'))"

definition StatusRepo_UpsertByUserAndNotify ::
  "pg \<Rightarrow> time \<Rightarrow> uuid \<Rightarrow> bytes \<Rightarrow> uuid \<Rightarrow> int \<Rightarrow> db \<Rightarrow> sql_err + notify_status \<times> db" where
  "StatusRepo_UpsertByUserAndNotify P now fresh userID notifyID nextStatus d =
     (case StatusRepo_FindByUserAndNotify P userID notifyID d of
        Inl err \<Rightarrow>
          if err = ErrRecordNotFound
          then StatusRepo_Create P now fresh (new_status notifyID userID nextStatus) d
          else Inl err
      | Inr status \<Rightarrow> StatusRepo_Update P now (status\<lparr>s_Status := nextStatus\<rparr>) d)"

definition StatusRepo_Delete :: "pg \<Rightarrow> (bytes \<Rightarrow> uuid option) \<Rightarrow> bytes \<Rightarrow> db \<Rightarrow> sql_err + db" where
  "StatusRepo_Delete P parse statusNotifyID d =
     (case parse statusNotifyID of
        None \<Rightarrow> Inl (SqlError ''invalid input syntax for type uuid'')
      | Some u \<Rightarrow> del_status P (\<lambda>s. s_StatusNotifyID s = u) d)"

definition StatusRepo_DeleteByNotifyIDs :: "pg \<Rightarrow> uuid list \<Rightarrow> db \<Rightarrow> sql_err + db" where
  "StatusRepo_DeleteByNotifyIDs P ids d =
     (if ids = [] then Inr d else del_status P (\<lambda>s. s_NotifyID s \<in> set ids) d)"

text \<open>UPDATE notify_status SET status = ? WHERE target_user_id = ? AND notify_id IN (SELECT ...).\<close>
definition in_records :: "(notify_record \<Rightarrow> bool) \<Rightarrow> db \<Rightarrow> uuid \<Rightarrow> bool" where
  "in_records wh d u = (\<exists>r \<in> set (t_record d). wh r \<and> r_NotifyID r = u)"

definition set_status_where :: "pg \<Rightarrow> time \<Rightarrow> bytes \<Rightarrow> (notify_record \<Rightarrow> bool) \<Rightarrow> int \<Rightarrow> db \<Rightarrow> sql_err + db" where
  "set_status_where P now userID wh st d =
     upd_status P (\<lambda>d s. s_TargetUserID s = userID \<and> in_records wh d (s_NotifyID s))
       (\<lambda>s. s\<lparr>s_Status := st, s_UpdateTime := now\<rparr>) d"

definition StatusRepo_BatchMarkReadByUser :: "pg \<Rightarrow> time \<Rightarrow> bytes \<Rightarrow> bytes \<Rightarrow> db \<Rightarrow> sql_err + db" where
  "StatusRepo_BatchMarkReadByUser P now userID tenantID d =
     set_status_where P now userID (\<lambda>r. r_TenantID r = tenantID) NotifyStatusRead d"

definition tenant_direct :: "bytes \<Rightarrow> notify_record \<Rightarrow> bool" where
  "tenant_direct tenantID r =
     (r_TenantID r = tenantID \<and> r_TargetType r \<noteq> TargetBroadcast \<and> r_SenderType r = SenderTypeTenant)"

definition StatusRepo_BatchMarkTenantNonBroadcastReadByUser ::
  "pg \<Rightarrow> time \<Rightarrow> bytes \<Rightarrow> bytes \<Rightarrow> db \<Rightarrow> sql_err + db" where
  "StatusRepo_BatchMarkTenantNonBroadcastReadByUser P now userID tenantID d =
     set_status_where P now userID (tenant_direct tenantID) NotifyStatusRead d"

definition StatusRepo_BatchMarkDeleteUserNotifyByUser :: "pg \<Rightarrow> time \<Rightarrow> bytes \<Rightarrow> bytes \<Rightarrow> db \<Rightarrow> sql_err + db" where
  "StatusRepo_BatchMarkDeleteUserNotifyByUser P now userID tenantID d =
     set_status_where P now userID (\<lambda>r. r_TenantID r = tenantID) NotifyStatusDeleted d"

definition StatusRepo_BatchDeleteTenantNotifyByUser :: "pg \<Rightarrow> time \<Rightarrow> bytes \<Rightarrow> bytes \<Rightarrow> db \<Rightarrow> sql_err + db" where
  "StatusRepo_BatchDeleteTenantNotifyByUser P now userID tenantID d =
     set_status_where P now userID
       (\<lambda>r. r_TenantID r = tenantID \<and> r_TargetType r \<noteq> 2 \<and> r_SenderType r = 1) NotifyStatusDeleted d"

section \<open>Watermarks\<close>

definition new_watermark :: "bytes \<Rightarrow> bytes \<Rightarrow> time \<Rightarrow> time \<Rightarrow> notify_watermark" where
  "new_watermark tenantID userID readAt clearAt =
     \<lparr>w_TenantID = tenantID, w_UserID = userID, w_TenantReadAt = readAt, w_TenantClearAt = clearAt\<rparr>"

definition WatermarkRepo_UpsertTenantReadAt :: "pg \<Rightarrow> bytes \<Rightarrow> bytes \<Rightarrow> time \<Rightarrow> db \<Rightarrow> sql_err + db" where
  "WatermarkRepo_UpsertTenantReadAt P tenantID userID readAt d =
     ins_watermark P (new_watermark tenantID userID readAt zero_time) (\<lambda>w. w\<lparr>w_TenantReadAt := readAt\<rparr>) d"

definition WatermarkRepo_UpsertTenantClearAt :: "pg \<Rightarrow> bytes \<Rightarrow> bytes \<Rightarrow> time \<Rightarrow> db \<Rightarrow> sql_err + db" where
  "WatermarkRepo_UpsertTenantClearAt P tenantID userID clearAt d =
     ins_watermark P (new_watermark tenantID userID zero_time clearAt) (\<lambda>w. w\<lparr>w_TenantClearAt := clearAt\<rparr>) d"

definition WatermarkRepo_FindByTenantAndUser ::
  "pg \<Rightarrow> bytes \<Rightarrow> bytes \<Rightarrow> db \<Rightarrow> sql_err + notify_watermark option" where
  "WatermarkRepo_FindByTenantAndUser P tenantID userID d =
     (case gorm_First (sel_watermark P (\<lambda>w. w_TenantID w = tenantID \<and> w_UserID w = userID) (\<lambda>_. 0) 0 (Some 1) d) of
        Inl err \<Rightarrow> if err = ErrRecordNotFound then Inr None else Inl err
      | Inr w \<Rightarrow> Inr (Some w))"

section \<open>Unread counts\<close>

definition direct_unread :: "int \<Rightarrow> bytes \<Rightarrow> joined \<Rightarrow> bool" where
  "direct_unread senderType tenantID row =
     (r_TenantID (fst row) = tenantID \<and> r_SenderType (fst row) = senderType \<and>
      r_TargetType (fst row) \<noteq> TargetBroadcast \<and> row_status row = Some NotifyStatusUnread)"

definition UnreadDB_CountUnreadUser :: "pg \<Rightarrow> bytes \<Rightarrow> bytes \<Rightarrow> db \<Rightarrow> sql_err + int" where
  "UnreadDB_CountUnreadUser P tenantID userID d =
     map_sum id (\<lambda>rows. int (length rows))
       (sel_left P userID (direct_unread SenderTypeUser tenantID) (\<lambda>_. 0) 0 None d)"

definition UnreadDB_CountUnreadTenant :: "pg \<Rightarrow> bytes \<Rightarrow> bytes \<Rightarrow> db \<Rightarrow> sql_err + int" where
  "UnreadDB_CountUnreadTenant P tenantID userID d =
     map_sum id (\<lambda>rows. int (length rows))
       (sel_left P userID (direct_unread SenderTypeTenant tenantID) (\<lambda>_. 0) 0 None d)"

definition broadcast_op :: "bytes \<Rightarrow> bytes \<Rightarrow> notify_record \<times> notify_status \<Rightarrow> bool" where
  "broadcast_op tenantID userID row =
     (s_TargetUserID (snd row) = userID \<and> r_TenantID (fst row) = tenantID \<and>
      r_TargetType (fst row) = TargetBroadcast \<and>
      s_Status (snd row) \<in> {NotifyStatusRead, NotifyStatusDeleted})"

definition UnreadDB_GetBroadcastOpIDs ::
  "pg \<Rightarrow> (uuid \<Rightarrow> bytes) \<Rightarrow> bytes \<Rightarrow> bytes \<Rightarrow> db \<Rightarrow> sql_err + bytes list" where
  "UnreadDB_GetBroadcastOpIDs P str tenantID userID d =
     map_sum id (map (\<lambda>row. str (s_NotifyID (snd row))))
       (sel_inner P (broadcast_op tenantID userID) (\<lambda>_. 0) 0 None d)"

definition is_broadcast :: "bytes \<Rightarrow> notify_record \<Rightarrow> bool" where
  "is_broadcast tenantID r = (r_TenantID r = tenantID \<and> r_TargetType r = TargetBroadcast)"

definition UnreadDB_CountBroadcastTotalByTenant ::
  "pg \<Rightarrow> (uuid \<Rightarrow> bytes) \<Rightarrow> bytes \<Rightarrow> db \<Rightarrow> sql_err + bytes list" where
  "UnreadDB_CountBroadcastTotalByTenant P str tenantID d =
     map_sum id (map (\<lambda>r. str (r_NotifyID r))) (sel_record P (is_broadcast tenantID) (\<lambda>_. 0) 0 None d)"

text \<open>
  The rows of a GROUP BY target_user_id, scanned into \<open>UserUnreadCount{UserID int64; Count int64}\<close>:
  a user id that is no int64 is a scan error.
\<close>
definition scan_counts :: "bytes list \<Rightarrow> sql_err + (int \<times> int) list" where
  "scan_counts users =
     (if \<exists>u \<in> set users. ParseInt u = None then Inl ScanError
      else Inr (map (\<lambda>u. (the (ParseInt u), int (count_list users u))) (remdups users)))"

definition batch_unread :: "int \<Rightarrow> bytes \<Rightarrow> bytes list \<Rightarrow> notify_record \<times> notify_status \<Rightarrow> bool" where
  "batch_unread senderType tenantID userIDs row =
     (r_TenantID (fst row) = tenantID \<and> s_TargetUserID (snd row) \<in> set userIDs \<and>
      r_SenderType (fst row) = senderType \<and> r_TargetType (fst row) \<noteq> TargetBroadcast \<and>
      s_Status (snd row) = NotifyStatusUnread)"

text \<open>The map \<open>resMap\<close>, keyed by the printed id.\<close>
definition res_map :: "(int \<times> int) list \<Rightarrow> (bytes \<times> int) list" where
  "res_map results = fold (\<lambda>(uid, cnt). AList.update (go_itoa uid) cnt) results []"

definition batch_count :: "int \<Rightarrow> pg \<Rightarrow> bytes \<Rightarrow> bytes list \<Rightarrow> db \<Rightarrow> sql_err + (bytes \<times> int) list" where
  "batch_count senderType P tenantID userIDs d =
     (case sel_inner P (batch_unread senderType tenantID userIDs) (\<lambda>_. 0) 0 None d of
        Inl e \<Rightarrow> Inl e
      | Inr rows \<Rightarrow> map_sum id res_map (scan_counts (map (\<lambda>row. s_TargetUserID (snd row)) rows)))"

definition UnreadDB_BatchCountUnreadUser :: "pg \<Rightarrow> bytes \<Rightarrow> bytes list \<Rightarrow> db \<Rightarrow> sql_err + (bytes \<times> int) list" where
  "UnreadDB_BatchCountUnreadUser = batch_count SenderTypeUser"

definition UnreadDB_BatchCountUnreadTenant :: "pg \<Rightarrow> bytes \<Rightarrow> bytes list \<Rightarrow> db \<Rightarrow> sql_err + (bytes \<times> int) list" where
  "UnreadDB_BatchCountUnreadTenant = batch_count SenderTypeTenant"

section \<open>Counting and paging\<close>

lemma count_query_exact:
  assumes "pg_ok P" and "count_query P u wh unread d = Inr (t, n)"
  shows "t = int (length (filter wh (left_rows u d))) \<and>
     n = int (length (filter (\<lambda>row. wh row \<and> unread row) (left_rows u d))) \<and> n \<le> t"
proof -
  from assms(2) obtain rows where rows: "sel_left P u wh (\<lambda>_. 0) 0 None d = Inr rows"
    and t: "t = int (length rows)" "n = int (length (filter unread rows))"
    by (auto simp: count_query_def map_sum_def split: sum.splits)
  from sel_ok(4) [OF assms(1) rows] have m: "mset rows = mset (filter wh (left_rows u d))"
    by (rule selected_all)
  then have "length rows = length (filter wh (left_rows u d))" by (metis size_mset)
  moreover have "length (filter unread rows) = length (filter unread (filter wh (left_rows u d)))"
    using m by (metis mset_filter size_mset)
  moreover have "length (filter unread rows) \<le> length rows" by simp
  ultimately show ?thesis by (simp add: t conj_commute)
qed

lemma concat_slices: "concat (map (\<lambda>i. take n (drop (i * n) xs)) [0..<k]) = take (k * n) xs"
proof (induction k)
  case (Suc k)
  then show ?case by (simp add: take_add [symmetric] add.commute)
qed simp

lemma pages_total_exact:
  assumes "0 \<le> t" "t < 2 ^ 62" and "1 \<le> sz" "sz < 2 ^ 62"
  shows "pages_total t sz = (t + sz - 1) div sz" "t \<le> pages_total t sz * sz"
    "0 \<le> pages_total t sz" "pages_total t sz \<le> t"
proof -
  let ?q = "(t + sz - 1) div sz"
  have q0: "0 \<le> ?q" using assms by (simp add: pos_imp_zdiv_nonneg_iff)
  have qt: "?q \<le> t"
  proof (cases "t = 0")
    case False
    then have "t + sz - 1 \<le> t * sz"
      using assms mult_left_mono [of 1 sz "t - 1"] by (simp add: algebra_simps)
    then have "?q \<le> (t * sz) div sz" using assms by (intro zdiv_mono1) simp_all
    then show ?thesis using assms by simp
  qed (use assms in simp)
  have eq: "pages_total t sz = ?q"
  proof (cases "0 < t")
    case True
    have "go_int64 (t + sz) = t + sz" "go_int64 (t + sz - 1) = t + sz - 1"
      using assms by (simp_all add: go_int64_id)
    moreover have "(t + sz - 1) sdiv sz = ?q" using True assms by (simp add: signed_divide_int_def)
    moreover have "go_int64 ?q = ?q" using q0 qt assms by (simp add: go_int64_id)
    ultimately show ?thesis using True by (simp add: pages_total_def)
  qed (use assms in \<open>simp add: pages_total_def\<close>)
  then show "pages_total t sz = ?q" "0 \<le> pages_total t sz" "pages_total t sz \<le> t"
    using q0 qt by simp_all
  have "t + sz - 1 = sz * ?q + (t + sz - 1) mod sz" by simp
  moreover have "(t + sz - 1) mod sz < sz" using assms by simp
  ultimately have "t \<le> sz * ?q" by linarith
  then show "t \<le> pages_total t sz * sz" by (simp add: eq mult.commute)
qed

text \<open>
  Both inboxes page through a left join the same way; this is the part they share. \<open>page i\<close> is the
  i-th page as the engine returns it.
\<close>
lemma pages_cover:
  assumes ok: "pg_up P" and inj: "distinct (map newest_first (filter wh (left_rows u d)))"
    and sz: "1 \<le> sz" "sz < 2 ^ 31" and few: "int (length (filter wh (left_rows u d))) < 2 ^ 31"
    and n: "n = nat (pages_total (int (length (filter wh (left_rows u d)))) sz)"
  shows "concat (map (\<lambda>i. projr (sel_left P u wh newest_first (page_offset (int i) sz) (Some sz) d)) [1..<Suc n])
     = sort_key newest_first (filter wh (left_rows u d))"
proof -
  let ?xs = "sort_key newest_first (filter wh (left_rows u d))"
  let ?t = "int (length (filter wh (left_rows u d)))"
  have pok: "pg_ok P" using ok by (rule pg_up_ok)
  have pt: "?t \<le> pages_total ?t sz * sz" "0 \<le> pages_total ?t sz" "pages_total ?t sz \<le> ?t"
    using pages_total_exact [of ?t sz] few sz by simp_all
  have page: "projr (sel_left P u wh newest_first (page_offset (int (Suc i)) sz) (Some sz) d) =
      take (nat sz) (drop (i * nat sz) ?xs)" if "i < n" for i
  proof -
    have i: "int i < 2 ^ 31" using that n pt(2,3) few by linarith
    then have "int i * sz < 2 ^ 31 * 2 ^ 31" using sz by (intro mult_strict_mono) auto
    moreover have "0 \<le> int i * sz" using sz by simp
    ultimately have "page_offset (int (Suc i)) sz = int i * sz"
      using i by (simp add: page_offset_def go_int64_id)
    moreover obtain ys where
      ys: "sel_left P u wh newest_first (page_offset (int (Suc i)) sz) (Some sz) d = Inr ys"
      using pg_up_select(4) [OF ok] by blast
    ultimately have "ys = slice (int i * sz) (Some sz) ?xs"
      using selected_unique [OF sel_ok(4) [OF pok] inj] by simp
    then show ?thesis using ys sz by (simp add: slice_def nat_mult_distrib)
  qed
  have "map (\<lambda>i. projr (sel_left P u wh newest_first (page_offset (int i) sz) (Some sz) d)) [1..<Suc n]
      = map (\<lambda>i. take (nat sz) (drop (i * nat sz) ?xs)) [0..<n]"
    using page by (simp add: map_Suc_upt [symmetric] del: upt_Suc map_Suc_upt)
  moreover have "length ?xs \<le> n * nat sz"
  proof -
    have "?t \<le> int (n * nat sz)" using pt sz by (simp add: n)
    then have "length (filter wh (left_rows u d)) \<le> n * nat sz" by (simp only: of_nat_le_iff)
    then show ?thesis by simp
  qed
  ultimately show ?thesis by (simp add: concat_slices del: upt_Suc)
qed

section \<open>Status rows, watermarks and counts\<close>

text \<open>Primary keys are unique, and so is the owner of a watermark.\<close>
definition db_keys_ok :: "db \<Rightarrow> bool" where
  "db_keys_ok d =
     (distinct (map r_NotifyID (t_record d)) \<and> distinct (map s_StatusNotifyID (t_status d)) \<and>
      distinct (map (\<lambda>w. (w_TenantID w, w_UserID w)) (t_watermark d)))"

definition pair_rows :: "bytes \<Rightarrow> uuid \<Rightarrow> db \<Rightarrow> notify_status list" where
  "pair_rows u n d = filter (\<lambda>s. s_TargetUserID s = u \<and> s_NotifyID s = n) (t_status d)"

lemma First_cases:
  assumes "selected rows wh key 0 (Some 1) res"
  shows "gorm_First (Inr res) = Inl ErrRecordNotFound \<and> filter wh rows = [] \<or>
    (\<exists>x \<in> set rows. wh x \<and> gorm_First (Inr res) = Inr x)"
proof -
  from assms obtain xs where m: "mset xs = mset (filter wh rows)" and r: "res = take 1 xs"
    by (auto simp: selected_def slice_def)
  then have s: "set xs = {x \<in> set rows. wh x}" by (metis mset_eq_setD set_filter)
  show ?thesis
  proof (cases xs)
    case Nil
    with m show ?thesis by (simp add: r gorm_First_def)
  next
    case (Cons x ys)
    then have "x \<in> {x \<in> set rows. wh x}" using s by auto
    then show ?thesis by (simp add: r Cons gorm_First_def)
  qed
qed

lemma FindByUserAndNotify_cases:
  assumes "pg_ok P"
  obtains (fails) e where "StatusRepo_FindByUserAndNotify P u n d = Inl e" "e \<noteq> ErrRecordNotFound"
  | (missing) "StatusRepo_FindByUserAndNotify P u n d = Inl ErrRecordNotFound" "pair_rows u n d = []"
  | (found) s where "StatusRepo_FindByUserAndNotify P u n d = Inr s" "s \<in> set (pair_rows u n d)"
proof (cases "sel_status P (\<lambda>s. s_TargetUserID s = u \<and> s_NotifyID s = n) status_pk 0 (Some 1) d")
  case (Inl e)
  with sel_not_found(2) [OF assms] have "e \<noteq> ErrRecordNotFound" by blast
  with Inl fails show thesis by (simp add: StatusRepo_FindByUserAndNotify_def gorm_First_def)
next
  case (Inr xs)
  from First_cases [OF sel_ok(2) [OF assms Inr]] missing found show thesis
    by (auto simp: StatusRepo_FindByUserAndNotify_def Inr pair_rows_def)
qed

lemma pair_rows_append [simp]:
  "pair_rows u n (d\<lparr>t_status := t_status d @ ss\<rparr>) =
     pair_rows u n d @ filter (\<lambda>s. s_TargetUserID s = u \<and> s_NotifyID s = n) ss"
  by (simp add: pair_rows_def)

lemma filter_map_other:
  "(\<And>s. wh s \<Longrightarrow> \<not> p s) \<Longrightarrow> (\<And>s. wh s \<Longrightarrow> \<not> p (f s)) \<Longrightarrow>
   filter p (map (\<lambda>s. if wh s then f s else s) xs) = filter p xs"
  by (induction xs) auto

text \<open>A stored row is replaced, keeping its owner; the rows of every other pair are untouched.\<close>

lemma StatusRepo_Update_exact:
  assumes "pg_ok P" and "db_keys_ok d" and "s0 \<in> set (t_status d)"
    and "StatusRepo_Update P now (s0\<lparr>s_Status := st\<rparr>) d = Inr (s, d')"
  shows "s = s0\<lparr>s_Status := st, s_UpdateTime := now\<rparr> \<and>
     d' = d\<lparr>t_status := map (\<lambda>s'. if s' = s0 then s else s') (t_status d)\<rparr>"
proof -
  from assms(3,4) have s: "s = s0\<lparr>s_Status := st, s_UpdateTime := now\<rparr>"
    and u: "upd_status P (\<lambda>_ s. s_StatusNotifyID s = s_StatusNotifyID s0) (\<lambda>_. s) d = Inr d'"
    by (auto simp: StatusRepo_Update_def Let_def split: sum.splits if_splits)
  have "s_StatusNotifyID s' = s_StatusNotifyID s0 \<longleftrightarrow> s' = s0" if "s' \<in> set (t_status d)" for s'
    using assms(2,3) that unfolding db_keys_ok_def distinct_map inj_on_def by blast
  then have "map (\<lambda>s'. if s_StatusNotifyID s' = s_StatusNotifyID s0 then s else s') (t_status d) =
      map (\<lambda>s'. if s' = s0 then s else s') (t_status d)" by simp
  with write_ok(4) [OF assms(1) u] s show ?thesis by simp
qed

lemma stamp_status_frame [simp]:
  "s_NotifyID (stamp_status now f s) = s_NotifyID s" "s_TargetUserID (stamp_status now f s) = s_TargetUserID s"
  "s_Status (stamp_status now f s) = s_Status s"
  by (simp_all add: stamp_status_def NotifyStatus_BeforeCreate_def Let_def)

lemma new_status_sel [simp]:
  "s_NotifyID (new_status n u st) = n" "s_TargetUserID (new_status n u st) = u" "s_Status (new_status n u st) = st"
  by (simp_all add: new_status_def)

lemma upsert_exact:
  assumes ok: "pg_ok P" and keys: "db_keys_ok d"
    and up: "StatusRepo_UpsertByUserAndNotify P now fresh u n st d = Inr (s, d')"
  shows "s_Status s = st \<and> s \<in> set (pair_rows u n d') \<and>
     length (pair_rows u n d') = max 1 (length (pair_rows u n d)) \<and>
     (\<forall>u' n'. (u', n') \<noteq> (u, n) \<longrightarrow> pair_rows u' n' d' = pair_rows u' n' d) \<and>
     t_record d' = t_record d \<and> t_watermark d' = t_watermark d \<and> db_keys_ok d'"
proof (cases rule: FindByUserAndNotify_cases [OF ok, of u n d, case_names fails missing found])
  case (fails e)
  with up show ?thesis by (simp add: StatusRepo_UpsertByUserAndNotify_def)
next
  case missing
  let ?s = "stamp_status now fresh (new_status n u st)"
  from up missing have s: "s = ?s" and i: "ins_status P [?s] d = Inr d'"
    by (auto simp: StatusRepo_UpsertByUserAndNotify_def StatusRepo_Create_def Let_def split: sum.splits)
  from write_ok(2) [OF ok i] have f: "status_fits [?s] d" and d': "d' = d\<lparr>t_status := t_status d @ [?s]\<rparr>"
    by simp_all
  have "db_keys_ok d'" using keys f by (simp add: db_keys_ok_def status_fits_def d')
  with missing(2) show ?thesis by (auto simp: s d')
next
  case (found s0)
  then have s0: "s0 \<in> set (t_status d)" "s_TargetUserID s0 = u" "s_NotifyID s0 = n"
    by (auto simp: pair_rows_def)
  from up found(1) have "StatusRepo_Update P now (s0\<lparr>s_Status := st\<rparr>) d = Inr (s, d')"
    by (simp add: StatusRepo_UpsertByUserAndNotify_def)
  from StatusRepo_Update_exact [OF ok keys s0(1) this]
  have s: "s = s0\<lparr>s_Status := st, s_UpdateTime := now\<rparr>"
    and d': "d' = d\<lparr>t_status := map (\<lambda>s'. if s' = s0 then s else s') (t_status d)\<rparr>" by simp_all
  have other: "pair_rows u' n' d' = pair_rows u' n' d" if "(u', n') \<noteq> (u, n)" for u' n'
    unfolding pair_rows_def d' using that s0 by (simp, intro filter_map_other) (auto simp: s)
  have len: "length (filter p (map (\<lambda>s'. if s' = s0 then s else s') xs)) = length (filter p xs)"
    if "p s = p s0" for p xs using that by (induction xs) auto
  have "length (pair_rows u n d') = length (pair_rows u n d)"
    using len [of "\<lambda>s. s_TargetUserID s = u \<and> s_NotifyID s = n" "t_status d"]
    by (simp add: pair_rows_def d' s)
  moreover have "pair_rows u n d \<noteq> []" using found(2) by auto
  moreover have "s \<in> set (pair_rows u n d')" using s0 by (auto simp: pair_rows_def d' s)
  moreover have "map s_StatusNotifyID (map (\<lambda>s'. if s' = s0 then s else s') (t_status d)) =
      map s_StatusNotifyID (t_status d)" by (simp add: s)
  then have "db_keys_ok d'" using keys unfolding db_keys_ok_def d'
    by (simp del: map_map)
  ultimately show ?thesis using other by (simp add: s d' Suc_le_eq max_def)
qed

text \<open>Watermarks: a register per tenant and user.\<close>

definition wm_of :: "bytes \<Rightarrow> bytes \<Rightarrow> db \<Rightarrow> notify_watermark option" where
  "wm_of t u d = find (\<lambda>w. w_TenantID w = t \<and> w_UserID w = u) (t_watermark d)"

lemma find_Some_unique:
  assumes "distinct (map (\<lambda>w. (w_TenantID w, w_UserID w)) ws)" and "w \<in> set ws"
    and "w_TenantID w = t" "w_UserID w = u"
  shows "find (\<lambda>w. w_TenantID w = t \<and> w_UserID w = u) ws = Some w"
  using assms by (induction ws) auto

lemma FindByTenantAndUser_exact:
  assumes "pg_ok P" and "db_keys_ok d" and "WatermarkRepo_FindByTenantAndUser P t u d = Inr r"
  shows "r = wm_of t u d"
proof -
  let ?wh = "\<lambda>w. w_TenantID w = t \<and> w_UserID w = u"
  from assms(3) sel_not_found(3) [OF assms(1), of ?wh "\<lambda>_. 0" 0 "Some 1" d] obtain xs where
    xs: "sel_watermark P ?wh (\<lambda>_. 0) 0 (Some 1) d = Inr xs"
    by (cases "sel_watermark P ?wh (\<lambda>_. 0) 0 (Some 1) d")
      (auto simp: WatermarkRepo_FindByTenantAndUser_def gorm_First_def split: if_splits)
  from First_cases [OF sel_ok(3) [OF assms(1) xs]] show ?thesis
  proof
    assume "gorm_First (Inr xs) = Inl ErrRecordNotFound \<and> filter ?wh (t_watermark d) = []"
    with assms(3) xs show ?thesis
      by (auto simp: WatermarkRepo_FindByTenantAndUser_def wm_of_def filter_empty_conv find_None_iff2)
  next
    assume "\<exists>x \<in> set (t_watermark d). ?wh x \<and> gorm_First (Inr xs) = Inr x"
    with assms(2,3) xs show ?thesis
      by (auto simp: WatermarkRepo_FindByTenantAndUser_def wm_of_def db_keys_ok_def find_Some_unique)
  qed
qed

lemma wm_of_upserted:
  assumes "\<And>w'. w_TenantID (f w') = w_TenantID w' \<and> w_UserID (f w') = w_UserID w'"
  shows "wm_of t u (d\<lparr>t_watermark := upserted w f (t_watermark d)\<rparr>) =
    (if w_TenantID w = t \<and> w_UserID w = u
     then Some (case wm_of t u d of None \<Rightarrow> w | Some w' \<Rightarrow> f w') else wm_of t u d)"
proof -
  let ?m = "\<lambda>ws. map (\<lambda>w'. if same_owner w w' then f w' else w') ws"
  have m: "find (\<lambda>w. w_TenantID w = t \<and> w_UserID w = u) (?m ws) =
      (if w_TenantID w = t \<and> w_UserID w = u then map_option f (find (\<lambda>w. w_TenantID w = t \<and> w_UserID w = u) ws)
       else find (\<lambda>w. w_TenantID w = t \<and> w_UserID w = u) ws)" for ws
    using assms by (induction ws) (auto simp: same_owner_def)
  have a: "find p (ws @ [w]) = (case find p ws of None \<Rightarrow> if p w then Some w else None | Some x \<Rightarrow> Some x)" for p ws
    by (induction ws) auto
  show ?thesis
  proof (cases "find (\<lambda>w'. w_TenantID w' = w_TenantID w \<and> w_UserID w' = w_UserID w) (t_watermark d)")
    case None
    then have "\<not> (\<exists>w' \<in> set (t_watermark d). same_owner w w')"
      by (auto simp: find_None_iff same_owner_def)
    with None show ?thesis by (auto simp: wm_of_def upserted_def a split: option.split)
  next
    case (Some w1)
    then have "\<exists>w' \<in> set (t_watermark d). same_owner w w'"
      by (auto simp: find_Some_iff same_owner_def intro!: bexI [OF _ nth_mem])
    with Some show ?thesis by (auto simp: wm_of_def upserted_def m)
  qed
qed

section \<open>The batched count\<close>

lemma filter_left_direct:
  "filter (direct_unread st t) (case filter (\<lambda>s. s_NotifyID s = r_NotifyID r \<and> s_TargetUserID s = u) ss of
       [] \<Rightarrow> [(r, None)] | xs \<Rightarrow> map (\<lambda>s. (r, Some s)) xs) =
   map (\<lambda>s. (r, Some s)) (filter (\<lambda>s. s_NotifyID s = r_NotifyID r \<and> s_TargetUserID s = u \<and>
      r_TenantID r = t \<and> r_SenderType r = st \<and> r_TargetType r \<noteq> TargetBroadcast \<and>
      s_Status s = NotifyStatusUnread) ss)"
proof -
  let ?f = "filter (\<lambda>s. s_NotifyID s = r_NotifyID r \<and> s_TargetUserID s = u) ss"
  have "filter (direct_unread st t) (map (\<lambda>s. (r, Some s)) ?f) = map (\<lambda>s. (r, Some s)) (filter (\<lambda>s.
      s_NotifyID s = r_NotifyID r \<and> s_TargetUserID s = u \<and> r_TenantID r = t \<and> r_SenderType r = st \<and>
      r_TargetType r \<noteq> TargetBroadcast \<and> s_Status s = NotifyStatusUnread) ss)"
    by (simp add: filter_map comp_def direct_unread_def row_status_def conj_ac)
  moreover have "?f = [] \<Longrightarrow> filter (direct_unread st t) [(r, None)] = filter (direct_unread st t) (map (\<lambda>s. (r, Some s)) ?f)"
    by (simp add: direct_unread_def row_status_def)
  ultimately show ?thesis by (cases ?f) (simp_all only: list.case)
qed

text \<open>The rows of one user in the inner join are the rows of that user's left join.\<close>

lemma batch_rows_of_user:
  assumes "u \<in> set us"
  shows "count_list (map (\<lambda>row. s_TargetUserID (snd row)) (filter (batch_unread st t us) (inner_rows d))) u
    = length (filter (direct_unread st t) (left_rows u d))"
proof -
  have one: "count_list (map (\<lambda>row. s_TargetUserID (snd row))
        (filter (batch_unread st t us) (map (Pair r) (filter (\<lambda>s. s_NotifyID s = r_NotifyID r) ss)))) u =
      length (filter (\<lambda>s. s_NotifyID s = r_NotifyID r \<and> s_TargetUserID s = u \<and> r_TenantID r = t \<and>
        r_SenderType r = st \<and> r_TargetType r \<noteq> TargetBroadcast \<and> s_Status s = NotifyStatusUnread) ss)" for r ss
    using assms by (induction ss) (auto simp: batch_unread_def)
  have "count_list (map (\<lambda>row. s_TargetUserID (snd row)) (filter (batch_unread st t us)
        (concat (map (\<lambda>r. map (Pair r) (filter (\<lambda>s. s_NotifyID s = r_NotifyID r) ss)) rs)))) u =
      length (filter (direct_unread st t) (concat (map (\<lambda>r.
        case filter (\<lambda>s. s_NotifyID s = r_NotifyID r \<and> s_TargetUserID s = u) ss of
          [] \<Rightarrow> [(r, None)] | xs \<Rightarrow> map (\<lambda>s. (r, Some s)) xs) rs)))" for rs ss
    by (induction rs) (simp_all add: one filter_left_direct)
  then show ?thesis by (simp add: inner_rows_def left_rows_def)
qed

lemma map_of_fold_update:
  "distinct (map fst kvs) \<Longrightarrow>
   map_of (fold (\<lambda>(k, v). AList.update k v) kvs m) k =
     (case map_of kvs k of None \<Rightarrow> map_of m k | Some v \<Rightarrow> Some v)"
proof (induction kvs arbitrary: m)
  case (Cons kv kvs)
  then have "map_of kvs (fst kv) = None" by (simp add: map_of_eq_None_iff)
  with Cons show ?case by (cases kv) (auto split: option.split)
qed simp

lemma batch_count_exact:
  assumes ok: "pg_ok P" and can: "\<forall>u \<in> set us. canonical_int64 u" and u: "u \<in> set us"
    and b: "batch_count st P t us d = Inr m"
  shows "(case map_of m u of None \<Rightarrow> 0 | Some c \<Rightarrow> c) = int (length (filter (direct_unread st t) (left_rows u d)))"
proof -
  from b obtain rows res where rows: "sel_inner P (batch_unread st t us) (\<lambda>_. 0) 0 None d = Inr rows"
    and sc: "scan_counts (map (\<lambda>row. s_TargetUserID (snd row)) rows) = Inr res" and m: "m = res_map res"
    by (auto simp: batch_count_def map_sum_def split: sum.splits)
  let ?us = "map (\<lambda>row. s_TargetUserID (snd row)) rows"
  from selected_all [OF sel_ok(5) [OF ok rows]]
  have ms: "mset rows = mset (filter (batch_unread st t us) (inner_rows d))" .
  then have "set rows = {row \<in> set (inner_rows d). batch_unread st t us row}"
    by (metis mset_eq_setD set_filter)
  then have "set ?us \<subseteq> set us" by (auto simp: batch_unread_def)
  with can have again: "go_itoa (the (ParseInt v)) = v" if "v \<in> set ?us" for v
    using that by (auto simp: canonical_int64_def split: option.splits)
  from sc have res: "res = map (\<lambda>v. (the (ParseInt v), int (count_list ?us v))) (remdups ?us)"
    by (simp add: scan_counts_def split: if_splits)
  have "m = fold (\<lambda>(k, c). AList.update k c) (map (\<lambda>v. (v, int (count_list ?us v))) (remdups ?us)) []"
  proof -
    have "fold (\<lambda>(uid, cnt). AList.update (go_itoa uid) cnt)
        (map (\<lambda>v. (the (ParseInt v), int (count_list ?us v))) vs) acc =
      fold (\<lambda>(k, c). AList.update k c) (map (\<lambda>v. (v, int (count_list ?us v))) vs) acc"
      if "set vs \<subseteq> set ?us" for vs acc
      using that by (induction vs arbitrary: acc) (auto simp: again)
    then show ?thesis by (simp add: m res_map_def res)
  qed
  moreover have "distinct (map fst (map (\<lambda>v. (v, int (count_list ?us v))) (remdups ?us)))"
    by (simp add: comp_def)
  moreover have "map_of (map (\<lambda>v. (v, int (count_list ?us v))) vs) u =
      (if u \<in> set vs then Some (int (count_list ?us u)) else None)" for vs by (induction vs) auto
  ultimately have "map_of m u = (if u \<in> set ?us then Some (int (count_list ?us u)) else None)"
    by (simp add: map_of_fold_update split: option.split)
  then have "(case map_of m u of None \<Rightarrow> 0 | Some c \<Rightarrow> c) = int (count_list ?us u)"
    by (auto simp: count_list_0_iff)
  moreover have "count_list ?us u =
      count_list (map (\<lambda>row. s_TargetUserID (snd row)) (filter (batch_unread st t us) (inner_rows d))) u"
    using ms by (metis count_mset mset_map)
  ultimately show ?thesis using batch_rows_of_user [OF u, of st t d] by simp
qed

section \<open>Properties\<close>

text \<open>
  C11: The inbox page and the statistics query agree: for one user and tenant both report the same total
  and the same number of unread notifications, the total is the number of notifications visible to
  the user (also for every page index and size, normalised or not), the unread ones are among them,
  and a page never holds more entries than its size.
\<close>
theorem inbox_statistics_agree:
  assumes "pg_ok P"
    and "RecordRepo_GetPersonalPage P str t u i n d = Inr (page, unread)"
    and "RecordRepo_GetPersonalStats P t u d = Inr (cnt, unread')"
    and "RecordRepo_GetTenantPage P str t u i n wm d = Inr (tpage, tunread)"
    and "RecordRepo_GetTenantStats P t u wm d = Inr (tcnt, tunread')"
  shows "pg_Total page = cnt \<and> unread = unread' \<and> 0 \<le> unread \<and> unread \<le> cnt \<and>
         cnt = int (length (filter (personal_where t) (left_rows u d))) \<and>
         int (length (pg_List page)) \<le> norm_size n \<and>
         pg_Total tpage = tcnt \<and> tunread = tunread' \<and> 0 \<le> tunread \<and> tunread \<le> tcnt \<and>
         tcnt = int (length (filter (tenant_where t (clear_at wm)) (left_rows u d))) \<and>
         int (length (pg_List tpage)) \<le> norm_size n"
proof -
  have short: "int (length xs) \<le> norm_size n"
    if "sel_left P u wh key off (Some (norm_size n)) d = Inr xs" for wh key off xs
    using sel_ok(4) [OF assms(1) that] by (auto simp: selected_def slice_def norm_size_def split: if_splits)
  have cases: "(if x = zero_time then zero_time else x) = x" for x by simp
  obtain items where 1: "count_query P u (personal_where t) personal_unread d = Inr (pg_Total page, unread)"
    "sel_left P u (personal_where t) newest_first (page_offset (norm_index i) (norm_size n)) (Some (norm_size n)) d = Inr items"
    "length (pg_List page) = length items"
    using assms(2) by (auto simp: RecordRepo_GetPersonalPage_def Let_def split: sum.splits prod.splits)
  obtain titems where 2: "count_query P u (tenant_where t (clear_at wm)) (tenant_unread (read_at wm)) d = Inr (pg_Total tpage, tunread)"
    "sel_left P u (tenant_where t (clear_at wm)) newest_first (page_offset (norm_index i) (norm_size n)) (Some (norm_size n)) d = Inr titems"
    "length (pg_List tpage) = length titems"
    using assms(4) by (auto simp: RecordRepo_GetTenantPage_def Let_def split: sum.splits prod.splits)
  have 3: "count_query P u (personal_where t) personal_unread d = Inr (cnt, unread')"
    using assms(3) by (simp add: RecordRepo_GetPersonalStats_def)
  have 4: "count_query P u (tenant_where t (clear_at wm)) (tenant_unread (read_at wm)) d = Inr (tcnt, tunread')"
    using assms(5) by (simp add: RecordRepo_GetTenantStats_def Let_def cases)
  show ?thesis
    using 1 2 3 4 count_query_exact [OF assms(1) 3] count_query_exact [OF assms(1) 4]
      short [OF 1(2)] short [OF 2(2)] by simp
qed

theorem inbox_statistics_agree_witness:
  "RecordRepo_GetPersonalStats demo_pg ''T'' ''u'' empty_db = Inr (0, 0) \<and>
   pg_Total (fst (projr (RecordRepo_GetPersonalPage demo_pg (\<lambda>_. ''x'') ''T'' ''u'' 1 10 empty_db))) = 0"
proof -
  have left: "left_rows u empty_db = []" for u by (simp add: left_rows_def empty_db_def)
  have sel: "sel_left demo_pg u wh key off lim empty_db = Inr []" for u wh key off lim
    by (simp add: demo_pg_def demo_select_def left slice_def split: option.split)
  have q: "count_query demo_pg u wh un empty_db = Inr (0, 0)" for u wh un
    by (simp add: count_query_def sel)
  let ?page = "\<lparr>pg_Total = 0, pg_PageIndex = 1, pg_PageSize = 10, pg_PagesTotal = 0, pg_List = []\<rparr>"
  have p: "RecordRepo_GetPersonalPage demo_pg (\<lambda>_. ''x'') ''T'' ''u'' 1 10 empty_db = Inr (?page, 0)"
    by (simp add: RecordRepo_GetPersonalPage_def q sel norm_index_def norm_size_def pages_total_def)
  have t: "RecordRepo_GetTenantPage demo_pg (\<lambda>_. ''x'') ''T'' ''u'' 1 10 None empty_db = Inr (?page, 0)"
    by (simp add: RecordRepo_GetTenantPage_def q sel norm_index_def norm_size_def pages_total_def)
  have s: "RecordRepo_GetPersonalStats demo_pg ''T'' ''u'' empty_db = Inr (0, 0)"
    "RecordRepo_GetTenantStats demo_pg ''T'' ''u'' None empty_db = Inr (0, 0)"
    by (simp_all add: RecordRepo_GetPersonalStats_def RecordRepo_GetTenantStats_def q)
  show ?thesis using inbox_statistics_agree [OF demo_pg_ok(1) p s(1) t s(2)] s(1) p by simp
qed

text \<open>
  C10: Paging is complete. When no two notifications visible to the user carry the same creation time, the
  pages 1 to \<open>PagesTotal\<close> of the personal inbox, one after the other, list every visible
  notification exactly once, newest first.
\<close>
theorem personal_pages_complete:
  assumes "pg_up P" and "distinct (map newest_first (filter (personal_where t) (left_rows u d)))"
    and "1 \<le> sz" "sz < 2 ^ 31" and "int (length (filter (personal_where t) (left_rows u d))) < 2 ^ 31"
    and "pages = nat (pages_total (int (length (filter (personal_where t) (left_rows u d)))) sz)"
  shows "concat (map (\<lambda>i. pg_List (fst (projr (RecordRepo_GetPersonalPage P str t u (int i) sz d)))) [1..<Suc pages]) =
     map (has_status str personal_status) (sort_key newest_first (filter (personal_where t) (left_rows u d)))"
proof -
  let ?sel = "\<lambda>i. sel_left P u (personal_where t) newest_first (page_offset (int i) sz) (Some sz) d"
  obtain c where c: "count_query P u (personal_where t) personal_unread d = Inr c"
    using pg_up_select(4) [OF assms(1), of u "personal_where t" "\<lambda>_. 0" 0 None d]
    by (auto simp: count_query_def)
  have page: "pg_List (fst (projr (RecordRepo_GetPersonalPage P str t u (int i) sz d))) =
      map (has_status str personal_status) (projr (?sel i))" if "i \<in> set [1..<Suc pages]" for i
  proof -
    from that have "norm_index (int i) = int i" "norm_size sz = sz"
      using assms(3) by (auto simp: norm_index_def norm_size_def)
    moreover obtain items where "?sel i = Inr items" using pg_up_select(4) [OF assms(1)] by blast
    ultimately show ?thesis by (cases c) (simp add: RecordRepo_GetPersonalPage_def c)
  qed
  have "map (\<lambda>i. pg_List (fst (projr (RecordRepo_GetPersonalPage P str t u (int i) sz d)))) [1..<Suc pages] =
      map (map (has_status str personal_status)) (map (\<lambda>i. projr (?sel i)) [1..<Suc pages])"
    using page by (simp add: comp_def del: upt_Suc)
  then show ?thesis by (simp only: map_concat [symmetric] pages_cover [OF assms])
qed

text \<open>Two notifications of one tenant, for the witnesses.\<close>
definition demo_record :: "uuid \<Rightarrow> int \<Rightarrow> int \<Rightarrow> time \<Rightarrow> notify_record" where
  "demo_record n st tt at = \<lparr>r_NotifyID = n, r_Title = '''', r_Content = '''', r_TargetType = tt,
     r_SenderType = st, r_SenderID = '''', r_EventType = '''', r_TenantID = ''T'', r_TargetIDs = [''7''],
     r_ExpireAt = None, r_CreatedAt = at\<rparr>"

definition demo_status :: "uuid \<Rightarrow> uuid \<Rightarrow> bytes \<Rightarrow> int \<Rightarrow> notify_status" where
  "demo_status k n u st = \<lparr>s_StatusNotifyID = k, s_NotifyID = n, s_TargetUserID = u, s_Status = st,
     s_CreateTime = 0, s_UpdateTime = 0\<rparr>"

definition demo_db :: db where
  "demo_db = \<lparr>t_record = [demo_record 1 0 0 5, demo_record 2 0 2 6],
     t_status = [demo_status 11 1 ''7'' 0], t_watermark = []\<rparr>"

lemma demo_left: "left_rows ''7'' demo_db =
    [(demo_record 1 0 0 5, Some (demo_status 11 1 ''7'' 0)), (demo_record 2 0 2 6, None)]"
  by (simp add: left_rows_def demo_db_def demo_record_def demo_status_def)

lemma demo_personal: "filter (personal_where ''T'') (left_rows ''7'' demo_db) = left_rows ''7'' demo_db"
  unfolding demo_left by (simp add: personal_where_def row_status_def demo_record_def demo_status_def code_defs)

theorem personal_pages_complete_witness:
  "concat (map (\<lambda>i. pg_List (fst (projr (RecordRepo_GetPersonalPage demo_pg (\<lambda>_. ''x'') ''T'' ''7'' (int i) 1 demo_db)))) [1..<3]) =
     map (has_status (\<lambda>_. ''x'') personal_status) (sort_key newest_first (left_rows ''7'' demo_db))"
proof -
  have "nat (pages_total 2 1) = 2" using pages_total_exact(1) [of 2 1] by simp
  then have "2 = nat (pages_total (int (length (filter (personal_where ''T'') (left_rows ''7'' demo_db)))) 1)"
    unfolding demo_personal by (simp add: demo_left)
  from personal_pages_complete [OF demo_pg_ok(2) _ _ _ _ this, of "\<lambda>_. ''x''"] show ?thesis
    unfolding demo_personal
    by (simp add: newest_first_def demo_left demo_record_def numeral_3_eq_3 numeral_2_eq_2 del: upt_Suc)
qed

text \<open>
  C14: The batched count agrees with the count per user. For canonical decimal user ids, the map returned
  by \<open>BatchCountUnreadUser\<close> (or \<open>...Tenant\<close>) holds for every asked user the number
  \<open>CountUnreadUser\<close> (or \<open>...Tenant\<close>) computes alone, a missing entry standing for 0.
\<close>
theorem batch_count_agrees:
  assumes "pg_ok P" and "\<forall>v \<in> set us. canonical_int64 v" and "u \<in> set us"
    and "UnreadDB_BatchCountUnreadUser P t us d = Inr m" and "UnreadDB_CountUnreadUser P t u d = Inr n"
    and "UnreadDB_BatchCountUnreadTenant P t us d = Inr m'" and "UnreadDB_CountUnreadTenant P t u d = Inr n'"
  shows "(case map_of m u of None \<Rightarrow> 0 | Some c \<Rightarrow> c) = n \<and> (case map_of m' u of None \<Rightarrow> 0 | Some c \<Rightarrow> c) = n'"
proof -
  have single: "n0 = int (length (filter (direct_unread st t) (left_rows u d)))"
    if "map_sum id (\<lambda>rows. int (length rows)) (sel_left P u (direct_unread st t) (\<lambda>_. 0) 0 None d) = Inr n0" for st n0
    using that sel_ok(4) [OF assms(1)] selected_length by (fastforce simp: map_sum_def split: sum.splits)
  show ?thesis
    using batch_count_exact [OF assms(1-3)] single assms(4-7)
    by (simp add: UnreadDB_BatchCountUnreadUser_def UnreadDB_BatchCountUnreadTenant_def
        UnreadDB_CountUnreadUser_def UnreadDB_CountUnreadTenant_def)
qed

theorem batch_count_agrees_witness:
  "\<exists>m n. UnreadDB_BatchCountUnreadUser demo_pg ''T'' [''0''] demo_db = Inr m \<and>
     UnreadDB_CountUnreadUser demo_pg ''T'' ''0'' demo_db = Inr n \<and>
     (case map_of m ''0'' of None \<Rightarrow> 0 | Some c \<Rightarrow> c) = n"
proof -
  have none: "filter (batch_unread st ''T'' [''0'']) (inner_rows demo_db) = []" for st
    by (simp add: batch_unread_def inner_rows_def demo_db_def demo_record_def demo_status_def)
  have b: "batch_count st demo_pg ''T'' [''0''] demo_db = Inr []" for st
    by (simp add: batch_count_def demo_pg_def demo_select_def none slice_def scan_counts_def res_map_def)
  obtain n n' where n: "UnreadDB_CountUnreadUser demo_pg ''T'' ''0'' demo_db = Inr n"
    "UnreadDB_CountUnreadTenant demo_pg ''T'' ''0'' demo_db = Inr n'"
    by (simp add: UnreadDB_CountUnreadUser_def UnreadDB_CountUnreadTenant_def demo_pg_def demo_select_def)
  have z: "canonical_int64 ''0''" by code_simp
  from batch_count_agrees [OF demo_pg_ok(1), of "[''0'']" "''0''" "''T''" demo_db "[]" n "[]" n'] b n z
  show ?thesis
    by (intro exI [of _ "[]"] exI [of _ n])
      (simp add: UnreadDB_BatchCountUnreadUser_def UnreadDB_BatchCountUnreadTenant_def)
qed

text \<open>
  C18: User ids that are not decimal integers break the batched count: as soon as one of the asked users
  with an unread notification has such an id, the whole batch fails, because the result rows scan
  the id into an int64.
\<close>
theorem batch_count_rejects_text_ids:
  assumes "pg_ok P" and "u \<in> set us" and "ParseInt u = None"
    and "r \<in> set (t_record d)" and "r_TenantID r = t" "r_SenderType r = SenderTypeUser" "r_TargetType r \<noteq> TargetBroadcast"
    and "s \<in> set (t_status d)" "s_NotifyID s = r_NotifyID r" "s_TargetUserID s = u" "s_Status s = NotifyStatusUnread"
  shows "\<exists>e. UnreadDB_BatchCountUnreadUser P t us d = Inl e"
proof (cases "sel_inner P (batch_unread SenderTypeUser t us) (\<lambda>_. 0) 0 None d")
  case (Inr rows)
  have "(r, s) \<in> set (filter (batch_unread SenderTypeUser t us) (inner_rows d))"
    using assms by (auto simp: inner_rows_def batch_unread_def)
  then have "(r, s) \<in> set rows"
    using selected_all [OF sel_ok(5) [OF assms(1) Inr]] by (metis mset_eq_setD)
  then have "u \<in> set (map (\<lambda>row. s_TargetUserID (snd row)) rows)" using assms(10) by force
  then show ?thesis
    using Inr assms(3) by (auto simp: UnreadDB_BatchCountUnreadUser_def batch_count_def scan_counts_def)
qed (simp add: UnreadDB_BatchCountUnreadUser_def batch_count_def)

theorem batch_count_rejects_text_ids_witness:
  "\<exists>e. UnreadDB_BatchCountUnreadUser demo_pg ''T'' [''user123'']
     \<lparr>t_record = [demo_record 1 0 0 5], t_status = [demo_status 11 1 ''user123'' 0], t_watermark = []\<rparr> = Inl e"
proof -
  have "ParseInt ''user123'' = None" by code_simp
  then show ?thesis
    using batch_count_rejects_text_ids [OF demo_pg_ok(1), of "''user123''" "[''user123'']" "demo_record 1 0 0 5"
        "\<lparr>t_record = [demo_record 1 0 0 5], t_status = [demo_status 11 1 ''user123'' 0], t_watermark = []\<rparr>"
        "''T''" "demo_status 11 1 ''user123'' 0"]
    by (simp add: demo_record_def demo_status_def code_defs)
qed

text \<open>
  C12: Changing a notification's status for one user writes exactly that user's row: afterwards the pair has
  a row with the new status, it has one row more only if it had none, the rows of every other user
  or notification are untouched, and the primary keys stay unique.
\<close>
theorem upsert_changes_one_pair:
  assumes "pg_ok P" and "db_keys_ok d"
    and "StatusRepo_UpsertByUserAndNotify P now fresh u n st d = Inr (s, d')"
  shows "s_Status s = st \<and> s \<in> set (pair_rows u n d') \<and>
     length (pair_rows u n d') = max 1 (length (pair_rows u n d)) \<and>
     (\<forall>u' n'. (u', n') \<noteq> (u, n) \<longrightarrow> pair_rows u' n' d' = pair_rows u' n' d) \<and>
     t_record d' = t_record d \<and> t_watermark d' = t_watermark d \<and> db_keys_ok d'"
  by (rule upsert_exact [OF assms])

theorem upsert_changes_one_pair_witness:
  "\<exists>s d'. StatusRepo_UpsertByUserAndNotify demo_pg 9 12 ''7'' 2 1 demo_db = Inr (s, d') \<and>
     length (pair_rows ''7'' 2 d') = 1 \<and> pair_rows ''7'' 1 d' = pair_rows ''7'' 1 demo_db"
proof -
  have "\<exists>s d'. StatusRepo_UpsertByUserAndNotify demo_pg 9 12 ''7'' 2 1 demo_db = Inr (s, d')"
    by (simp add: StatusRepo_UpsertByUserAndNotify_def StatusRepo_FindByUserAndNotify_def demo_pg_def
        demo_select_def demo_db_def demo_status_def slice_def gorm_First_def StatusRepo_Create_def
        stamp_status_def NotifyStatus_BeforeCreate_def new_status_def uuid_Nil_def zero_time_def
        status_fits_def Let_def)
  then obtain s d' where u: "StatusRepo_UpsertByUserAndNotify demo_pg 9 12 ''7'' 2 1 demo_db = Inr (s, d')" by blast
  have k: "db_keys_ok demo_db" by (simp add: db_keys_ok_def demo_db_def demo_record_def demo_status_def)
  have "pair_rows ''7'' 2 demo_db = []" by (simp add: pair_rows_def demo_db_def demo_status_def)
  with upsert_changes_one_pair [OF demo_pg_ok(1) k u] u show ?thesis by auto
qed



end
