(* ===== verification/Redis_Store.thy ===== *)
theory Redis_Store
  imports Go_Strconv Hub_Constants "HOL-Library.FSet"
begin

text \<open>
  Redis as the hub uses it. Redis and its Go client are not part of this repository: they are the
  parameter \<open>redis\<close>, a record of the executor of one command and of Lua's number conversion.
  \<open>redis_doc\<close> writes down the documented effect of the commands the hub issues, and the hypotheses
  of the later theorems are \<open>redis_faithful\<close> (a command either has its documented effect or fails on
  the way, before or after its effect) and, where a claim needs the command to succeed, \<open>redis_up\<close> (it has its
  documented effect). Reads and writes of the unread cache, one-time tickets and the Lua scripts
  are built from these commands in later theories.

  Time is the server's clock \<open>rs_now\<close>; an entry whose expiry is not later than it is gone.
\<close>

datatype rval = RStr bytes | RSet "bytes fset"

record rstore =
  rs_kv :: "bytes \<Rightarrow> (rval \<times> time option) option"
  rs_now :: time
  rs_scripts :: "bytes set"

datatype rcmd =
    INCR bytes
  | DECR bytes
  | SET bytes bytes "int option"
  | GET bytes
  | GETDEL bytes
  | EXISTS bytes
  | DEL bytes
  | SADD bytes "bytes list"
  | SCARD bytes
  | SINTERCARD bytes bytes
  | SUNIONSTORE bytes bytes bytes
  | EXPIRE bytes int
  | RENAME bytes bytes
  | PERSIST bytes
  | SCRIPT_LOAD bytes
  | EVALSHA bytes

datatype rreply = RInt int | RBulk bytes | RNil | ROK

datatype rerr = WrongType | NotInteger | Overflow | NoSuchKey | NoScript | ConnError bytes
  | ScriptError | NilReply | ConvError

definition alive :: "rstore \<Rightarrow> bytes \<Rightarrow> (rval \<times> time option) option" where
  "alive s k =
     (case rs_kv s k of
        None \<Rightarrow> None
      | Some (v, exp) \<Rightarrow>
          (case exp of None \<Rightarrow> Some (v, exp) | Some t \<Rightarrow> if t \<le> rs_now s then None else Some (v, exp)))"

definition put :: "bytes \<Rightarrow> rval \<Rightarrow> time option \<Rightarrow> rstore \<Rightarrow> rstore" where
  "put k v exp s = s\<lparr>rs_kv := (rs_kv s)(k := Some (v, exp))\<rparr>"

definition drop_key :: "bytes \<Rightarrow> rstore \<Rightarrow> rstore" where
  "drop_key k s = s\<lparr>rs_kv := (rs_kv s)(k := None)\<rparr>"

text \<open>A missing key reads as the empty set; \<open>None\<close> is a key of another type.\<close>
definition set_at :: "rstore \<Rightarrow> bytes \<Rightarrow> bytes fset option" where
  "set_at s k =
     (case alive s k of
        None \<Rightarrow> Some {||}
      | Some (RSet xs, _) \<Rightarrow> Some xs
      | Some (RStr _, _) \<Rightarrow> None)"

text \<open>INCR and DECR: a missing key counts as 0, the value must be a canonical int64, the expiry stays.\<close>
definition incr_by :: "int \<Rightarrow> bytes \<Rightarrow> rstore \<Rightarrow> (rerr + rreply) \<times> rstore" where
  "incr_by d k s =
     (case (case alive s k of None \<Rightarrow> Some (''0'', None) | Some (RStr x, exp) \<Rightarrow> Some (x, exp)
            | Some (RSet _, _) \<Rightarrow> None) of
        None \<Rightarrow> (Inl WrongType, s)
      | Some (x, exp) \<Rightarrow>
          (if \<not> canonical_int64 x then (Inl NotInteger, s)
           else let v = the (ParseInt x) + d in
             if - (2 ^ 63) \<le> v \<and> v < 2 ^ 63 then (Inr (RInt v), put k (RStr (go_itoa v)) exp s)
             else (Inl Overflow, s)))"

definition redis_doc :: "rcmd \<Rightarrow> rstore \<Rightarrow> (rerr + rreply) \<times> rstore" where
  "redis_doc c s = (case c of
     INCR k \<Rightarrow> incr_by 1 k s
   | DECR k \<Rightarrow> incr_by (- 1) k s
   | SET k v ttl \<Rightarrow> (Inr ROK, put k (RStr v) (map_option (\<lambda>d. rs_now s + d) ttl) s)
   | GET k \<Rightarrow>
       (case alive s k of
          None \<Rightarrow> (Inr RNil, s)
        | Some (RStr v, _) \<Rightarrow> (Inr (RBulk v), s)
        | Some (RSet _, _) \<Rightarrow> (Inl WrongType, s))
   | GETDEL k \<Rightarrow>
       (case alive s k of
          None \<Rightarrow> (Inr RNil, s)
        | Some (RStr v, _) \<Rightarrow> (Inr (RBulk v), drop_key k s)
        | Some (RSet _, _) \<Rightarrow> (Inl WrongType, s))
   | EXISTS k \<Rightarrow> (Inr (RInt (if alive s k = None then 0 else 1)), s)
   | DEL k \<Rightarrow> (Inr (RInt (if alive s k = None then 0 else 1)), drop_key k s)
   | SADD k ms \<Rightarrow>
       (case set_at s k of
          None \<Rightarrow> (Inl WrongType, s)
        | Some xs \<Rightarrow>
            (Inr (RInt (int (fcard (fset_of_list ms |-| xs)))),
             put k (RSet (xs |\<union>| fset_of_list ms)) (case alive s k of None \<Rightarrow> None | Some (_, exp) \<Rightarrow> exp) s))
   | SCARD k \<Rightarrow>
       (case set_at s k of None \<Rightarrow> (Inl WrongType, s) | Some xs \<Rightarrow> (Inr (RInt (int (fcard xs))), s))
   | SINTERCARD k1 k2 \<Rightarrow>
       (case (set_at s k1, set_at s k2) of
          (Some xs, Some ys) \<Rightarrow> (Inr (RInt (int (fcard (xs |\<inter>| ys)))), s)
        | _ \<Rightarrow> (Inl WrongType, s))
   | SUNIONSTORE dst k1 k2 \<Rightarrow>
       (case (set_at s k1, set_at s k2) of
          (Some xs, Some ys) \<Rightarrow>
            (Inr (RInt (int (fcard (xs |\<union>| ys)))),
             if xs |\<union>| ys = {||} then drop_key dst s else put dst (RSet (xs |\<union>| ys)) None s)
        | _ \<Rightarrow> (Inl WrongType, s))
   | EXPIRE k d \<Rightarrow>
       (case alive s k of
          None \<Rightarrow> (Inr (RInt 0), s)
        | Some (v, _) \<Rightarrow> (Inr (RInt 1), put k v (Some (rs_now s + d)) s))
   | RENAME k k' \<Rightarrow>
       (case alive s k of
          None \<Rightarrow> (Inl NoSuchKey, s)
        | Some (v, exp) \<Rightarrow> (Inr ROK, put k' v exp (drop_key k s)))
   | PERSIST k \<Rightarrow>
       (case alive s k of
          None \<Rightarrow> (Inr (RInt 0), s)
        | Some (v, exp) \<Rightarrow> (Inr (RInt (if exp = None then 0 else 1)), put k v None s))
   | SCRIPT_LOAD sha \<Rightarrow> (Inr ROK, s\<lparr>rs_scripts := insert sha (rs_scripts s)\<rparr>)
   | EVALSHA sha \<Rightarrow> ((if sha \<in> rs_scripts s then Inr ROK else Inl NoScript), s))"

text \<open>
  The client and the server's Lua. \<open>rd_exec\<close> sends a command from the hub, \<open>rd_call\<close> is the
  \<open>redis.call\<close> of a script, which runs inside the server. \<open>lua_number\<close> is an integer after its conversion to a Lua number
  (a double) and back, \<open>lua_tonumber\<close> the \<open>tonumber\<close> of a string (\<open>None\<close> is nil).
\<close>
record redis =
  rd_exec :: "rcmd \<Rightarrow> rstore \<Rightarrow> (rerr + rreply) \<times> rstore"
  rd_call :: "rcmd \<Rightarrow> rstore \<Rightarrow> (rerr + rreply) \<times> rstore"
  lua_number :: "int \<Rightarrow> int"
  lua_tonumber :: "bytes \<Rightarrow> int option"

text \<open>
  A failed exchange may have lost the request (no effect) or the reply (the documented effect).
\<close>
definition redis_faithful :: "redis \<Rightarrow> bool" where
  "redis_faithful R =
     ((\<forall>c s. rd_call R c s = redis_doc c s) \<and>
      (\<forall>c s. rd_exec R c s = redis_doc c s \<or>
         (\<exists>e. rd_exec R c s = (Inl (ConnError e), s)) \<or>
         (\<exists>e. rd_exec R c s = (Inl (ConnError e), snd (redis_doc c s)))))"

definition redis_up :: "redis \<Rightarrow> bool" where
  "redis_up R = (\<forall>c s. rd_call R c s = redis_doc c s \<and> rd_exec R c s = redis_doc c s)"

text \<open>Doubles hold the integers up to 2^53 exactly.\<close>
definition lua_exact :: "redis \<Rightarrow> bool" where
  "lua_exact R =
     (\<forall>v. \<bar>v\<bar> \<le> 2 ^ 53 \<longrightarrow> lua_number R v = v \<and> lua_tonumber R (go_itoa v) = Some v)"

text \<open>A client that never fails, for the witnesses.\<close>
definition demo_redis :: redis where
  "demo_redis =
     \<lparr>rd_exec = redis_doc, rd_call = redis_doc, lua_number = \<lambda>v. v, lua_tonumber = ParseInt\<rparr>"

definition empty_store :: "time \<Rightarrow> rstore" where
  "empty_store t = \<lparr>rs_kv = (\<lambda>_. None), rs_now = t, rs_scripts = {}\<rparr>"

lemma redis_up_exec [simp]:
  "redis_up R \<Longrightarrow> rd_exec R c s = redis_doc c s"
  "redis_up R \<Longrightarrow> rd_call R c s = redis_doc c s"
  by (simp_all add: redis_up_def)

lemma redis_up_faithful: "redis_up R \<Longrightarrow> redis_faithful R"
  by (simp add: redis_faithful_def)

lemma faithful_call [simp]: "redis_faithful R \<Longrightarrow> rd_call R c s = redis_doc c s"
  by (simp add: redis_faithful_def)

lemma faithful_state: "redis_faithful R \<Longrightarrow> snd (rd_exec R c s) = s \<or> snd (rd_exec R c s) = snd (redis_doc c s)"
  unfolding redis_faithful_def by (metis snd_conv)

lemma faithful_reply: "redis_faithful R \<Longrightarrow> rd_exec R c s = (Inr r, s') \<Longrightarrow> redis_doc c s = (Inr r, s')"
  unfolding redis_faithful_def by (metis Inl_Inr_False prod.inject)

lemma demo_redis_ok: "redis_up demo_redis" "redis_faithful demo_redis" "lua_exact demo_redis"
proof -
  have b: "\<bar>v\<bar> \<le> 2 ^ 53 \<Longrightarrow> - (2 ^ 63) \<le> v \<and> v < 2 ^ 63" for v :: int by (simp add: abs_le_iff)
  show up: "redis_up demo_redis" by (simp add: redis_up_def demo_redis_def)
  then show "redis_faithful demo_redis" by (rule redis_up_faithful)
  show "lua_exact demo_redis" by (auto simp: lua_exact_def demo_redis_def ParseInt_itoa dest!: b)
qed

section \<open>Reading the store\<close>

lemma alive_put [simp]:
  "alive (put k v None s) k' = (if k' = k then Some (v, None) else alive s k')"
  by (auto simp: alive_def put_def split: option.split)

lemma alive_put_exp:
  "alive (put k v exp s) k' =
     (if k' = k then (case exp of None \<Rightarrow> Some (v, None)
        | Some t \<Rightarrow> if t \<le> rs_now s then None else Some (v, Some t)) else alive s k')"
  by (auto simp: alive_def put_def split: option.split)

lemma alive_drop [simp]: "alive (drop_key k s) k' = (if k' = k then None else alive s k')"
  by (auto simp: alive_def drop_key_def split: option.split)

lemma store_frame [simp]:
  "rs_now (put k v exp s) = rs_now s" "rs_scripts (put k v exp s) = rs_scripts s"
  "rs_now (drop_key k s) = rs_now s" "rs_scripts (drop_key k s) = rs_scripts s"
  "alive (s\<lparr>rs_scripts := S\<rparr>) = alive s"
  by (auto simp: put_def drop_key_def alive_def fun_eq_iff split: option.split)

lemma alive_empty [simp]: "alive (empty_store t) k = None"
  by (simp add: alive_def empty_store_def)

lemma set_at_cong: "alive s k = alive s' k \<Longrightarrow> set_at s k = set_at s' k"
  by (simp add: set_at_def)

end
