(* ===== verification/Unread_Cache.thy ===== *)
theory Unread_Cache
  imports Redis_Store
begin

text \<open>
  The unread cache: src/internal/repository/unread_cache.go with its Lua scripts and
  src/pkg/lua/batch_get_unread.lua.

  Every operation maps a Redis store to its result (\<open>Inl\<close> is the error) and the store after it. A
  script runs inside the server, so its commands go through \<open>rd_call\<close>; a pipeline sends its
  commands one after the other and reports the first error. Shown: what each operation does to the
  counters and sets when Redis answers, and, whatever Redis does, that a reader never sees a
  partially replaced set and that a counter never becomes negative.
\<close>

type_synonym 'a rop = "rstore \<Rightarrow> (rerr + 'a) \<times> rstore"

section \<open>Replies of the client library\<close>

definition reply_int :: "rerr + rreply \<Rightarrow> rerr + int" where
  "reply_int r = (case r of Inl e \<Rightarrow> Inl e | Inr (RInt n) \<Rightarrow> Inr n | Inr _ \<Rightarrow> Inl ConvError)"

definition reply_unit :: "rerr + rreply \<Rightarrow> rerr + unit" where
  "reply_unit r = (case r of Inl e \<Rightarrow> Inl e | Inr _ \<Rightarrow> Inr ())"

text \<open>A string reply; nil is the error \<open>redis.Nil\<close>.\<close>
definition reply_string :: "rerr + rreply \<Rightarrow> rerr + bytes" where
  "reply_string r =
     (case r of Inl e \<Rightarrow> Inl e | Inr (RBulk v) \<Rightarrow> Inr v | Inr RNil \<Rightarrow> Inl NilReply | Inr _ \<Rightarrow> Inl ConvError)"

text \<open>The states a pipeline goes through and the replies; \<open>Exec\<close> reports the first error.\<close>
primrec pipe_exec :: "redis \<Rightarrow> rcmd list \<Rightarrow> rstore \<Rightarrow> (rerr + rreply) list \<times> rstore" where
  "pipe_exec R [] s = ([], s)"
| "pipe_exec R (c # cs) s =
     (case rd_exec R c s of (r, s1) \<Rightarrow> case pipe_exec R cs s1 of (rs, s2) \<Rightarrow> (r # rs, s2))"

primrec first_error :: "(rerr + 'a) list \<Rightarrow> rerr + 'a list" where
  "first_error [] = Inr []"
| "first_error (r # rs) =
     (case r of Inl e \<Rightarrow> Inl e | Inr a \<Rightarrow> (case first_error rs of Inl e \<Rightarrow> Inl e | Inr as \<Rightarrow> Inr (a # as)))"

text \<open>\<open>Script.Run\<close>: EVALSHA, and EVAL (which also caches the script) after NOSCRIPT.\<close>
definition script_Run :: "redis \<Rightarrow> bytes \<Rightarrow> 'a rop \<Rightarrow> 'a rop" where
  "script_Run R sha body s =
     (case rd_exec R (EVALSHA sha) s of
        (Inr _, s1) \<Rightarrow> body s1
      | (Inl NoScript, s1) \<Rightarrow>
          (case rd_exec R (SCRIPT_LOAD sha) s1 of
             (Inl e, s2) \<Rightarrow> (Inl e, s2)
           | (Inr _, s2) \<Rightarrow> body s2)
      | (Inl e, s1) \<Rightarrow> (Inl e, s1))"

section \<open>The Lua scripts\<close>

definition batchIncrIfExistLua :: "redis \<Rightarrow> bytes \<Rightarrow> int rop" where
  "batchIncrIfExistLua R key s =
     (case rd_call R (EXISTS key) s of
        (Inl e, s1) \<Rightarrow> (Inl e, s1)
      | (Inr n, s1) \<Rightarrow>
          if n = RInt 1 then
            (case rd_call R (INCR key) s1 of (r, s2) \<Rightarrow> (map_sum id (lua_number R) (reply_int r), s2))
          else (Inr (- 1), s1))"

definition decrWithFloorLua :: "redis \<Rightarrow> bytes \<Rightarrow> int rop" where
  "decrWithFloorLua R key s =
     (case rd_call R (DECR key) s of
        (r, s1) \<Rightarrow>
          (case reply_int r of
             Inl e \<Rightarrow> (Inl e, s1)
           | Inr n \<Rightarrow>
               let v = lua_number R n in
               if v < 0 then
                 (case rd_call R (SET key ''0'' None) s1 of
                    (Inl e, s2) \<Rightarrow> (Inl e, s2)
                  | (Inr _, s2) \<Rightarrow> (Inr 0, s2))
               else (Inr v, s1)))"

definition sDiffCountLua :: "redis \<Rightarrow> bytes \<Rightarrow> bytes \<Rightarrow> int rop" where
  "sDiffCountLua R totalKey opKey s =
     (case rd_call R (SCARD totalKey) s of
        (r, s1) \<Rightarrow>
          (case reply_int r of
             Inl e \<Rightarrow> (Inl e, s1)
           | Inr total_count \<Rightarrow>
               if total_count = 0 then (Inr 0, s1)
               else
                 (case rd_call R (SINTERCARD totalKey opKey) s1 of
                    (r, s2) \<Rightarrow>
                      (case reply_int r of
                         Inl e \<Rightarrow> (Inl e, s2)
                       | Inr inter_count \<Rightarrow>
                           let unread = total_count - inter_count in
                           (Inr (lua_number R (if unread < 0 then 0 else unread)), s2)))))"

text \<open>\<open>tonumber(redis.call("GET", key) or 0)\<close>; \<open>Inr None\<close> is nil.\<close>
definition lua_get_number :: "redis \<Rightarrow> bytes \<Rightarrow> int option rop" where
  "lua_get_number R key s =
     (case rd_call R (GET key) s of
        (Inl e, s1) \<Rightarrow> (Inl e, s1)
      | (Inr (RBulk v), s1) \<Rightarrow> (Inr (lua_tonumber R v), s1)
      | (Inr _, s1) \<Rightarrow> (Inr (Some 0), s1))"

text \<open>
  The loop of batch_get_unread.lua over its arguments, three at a time. Inserting nil into the
  result table is no insertion; arithmetic on nil and a missing argument are script errors.
\<close>
fun batch_get_unread_loop :: "redis \<Rightarrow> bytes \<Rightarrow> int \<Rightarrow> bytes list \<Rightarrow> int list \<Rightarrow> int list rop" where
  "batch_get_unread_loop R total_key total_count [] res s = (Inr res, s)"
| "batch_get_unread_loop R total_key total_count (p_key # t_key # op_key # rest) res s =
     (case lua_get_number R p_key s of
        (Inl e, s1) \<Rightarrow> (Inl e, s1)
      | (Inr p_val, s1) \<Rightarrow>
          (case lua_get_number R t_key s1 of
             (Inl e, s2) \<Rightarrow> (Inl e, s2)
           | (Inr t_val, s2) \<Rightarrow>
               (case (if total_count > 0 then rd_call R (SINTERCARD total_key op_key) s2
                      else (Inr (RInt 0), s2)) of
                  (r, s3) \<Rightarrow>
                    (case (reply_int r, t_val) of
                       (Inl e, _) \<Rightarrow> (Inl e, s3)
                     | (Inr _, None) \<Rightarrow> (Inl ScriptError, s3)
                     | (Inr inter_count, Some t_point_val) \<Rightarrow>
                         batch_get_unread_loop R total_key total_count rest
                           (res @ (case p_val of None \<Rightarrow> [] | Some v \<Rightarrow> [v]) @
                            [lua_number R (t_point_val + (total_count - inter_count))]) s3))))"
| "batch_get_unread_loop R total_key total_count _ res s = (Inl ScriptError, s)"

definition batchGetUnreadLua :: "redis \<Rightarrow> bytes \<Rightarrow> bytes list \<Rightarrow> int list rop" where
  "batchGetUnreadLua R total_key argv s =
     (case rd_call R (SCARD total_key) s of
        (r, s1) \<Rightarrow>
          (case reply_int r of
             Inl e \<Rightarrow> (Inl e, s1)
           | Inr total_count \<Rightarrow> batch_get_unread_loop R total_key total_count argv [] s1))"

definition sha_batchIncrIfExist :: bytes where "sha_batchIncrIfExist = ''batchIncrIfExist''"
definition sha_decrWithFloor :: bytes where "sha_decrWithFloor = ''decrWithFloor''"
definition sha_sDiffCount :: bytes where "sha_sDiffCount = ''sDiffCount''"
definition sha_batchGetUnread :: bytes where "sha_batchGetUnread = ''batchGetUnread''"

section \<open>The repository\<close>

definition Cache_Incr :: "redis \<Rightarrow> bytes \<Rightarrow> unit rop" where
  "Cache_Incr R key s = (case rd_exec R (INCR key) s of (r, s1) \<Rightarrow> (reply_unit r, s1))"

definition Cache_DecrWithFloor :: "redis \<Rightarrow> bytes \<Rightarrow> int rop" where
  "Cache_DecrWithFloor R key s = script_Run R sha_decrWithFloor (decrWithFloorLua R key) s"

definition Cache_Set :: "redis \<Rightarrow> bytes \<Rightarrow> int \<Rightarrow> unit rop" where
  "Cache_Set R key val s = (case rd_exec R (SET key (go_itoa val) None) s of (r, s1) \<Rightarrow> (reply_unit r, s1))"

definition Cache_SAdd :: "redis \<Rightarrow> bytes \<Rightarrow> bytes \<Rightarrow> int rop" where
  "Cache_SAdd R key member s = (case rd_exec R (SADD key [member]) s of (r, s1) \<Rightarrow> (reply_int r, s1))"

definition Cache_SCard :: "redis \<Rightarrow> bytes \<Rightarrow> int rop" where
  "Cache_SCard R key s = (case rd_exec R (SCARD key) s of (r, s1) \<Rightarrow> (reply_int r, s1))"

text \<open>The temporary key of \<open>SafeReplaceSet\<close>; \<open>now\<close> is \<open>time.Now().UnixNano()\<close>.\<close>
definition temp_key :: "bytes \<Rightarrow> int \<Rightarrow> bytes" where
  "temp_key key now = key @ '':temp:'' @ go_itoa now"

definition replace_cmds :: "bytes \<Rightarrow> int \<Rightarrow> bytes list \<Rightarrow> rcmd list" where
  "replace_cmds key now ids =
     [SADD (temp_key key now) ids, EXPIRE (temp_key key now) (600 * time_Second),
      RENAME (temp_key key now) key, PERSIST key]"

definition Cache_SafeReplaceSet :: "redis \<Rightarrow> int \<Rightarrow> bytes \<Rightarrow> bytes list \<Rightarrow> unit rop" where
  "Cache_SafeReplaceSet R now key ids s =
     (if ids = [] then (case rd_exec R (DEL key) s of (r, s1) \<Rightarrow> (reply_unit r, s1))
      else
        (case pipe_exec R (replace_cmds key now ids) s of
           (rs, s1) \<Rightarrow> (map_sum id (\<lambda>_. ()) (first_error rs), s1)))"

text \<open>\<open>kv\<close> lists the map in the order of the range.\<close>
definition Cache_BatchSetPipeline :: "redis \<Rightarrow> (bytes \<times> int) list \<Rightarrow> unit rop" where
  "Cache_BatchSetPipeline R kv s =
     (if kv = [] then (Inr (), s)
      else
        (case pipe_exec R (map (\<lambda>(k, v). SET k (go_itoa v) None) kv) s of
           (rs, s1) \<Rightarrow> (map_sum id (\<lambda>_. ()) (first_error rs), s1)))"

text \<open>In a pipeline \<open>Run\<close> only queues EVALSHA, so NOSCRIPT comes back as the command's error.\<close>
primrec incr_pipeline :: "redis \<Rightarrow> bytes list \<Rightarrow> rstore \<Rightarrow> (rerr + int) list \<times> rstore" where
  "incr_pipeline R [] s = ([], s)"
| "incr_pipeline R (key # keys) s =
     (case (case rd_exec R (EVALSHA sha_batchIncrIfExist) s of
              (Inl e, s1) \<Rightarrow> (Inl e, s1)
            | (Inr _, s1) \<Rightarrow> batchIncrIfExistLua R key s1) of
        (r, s2) \<Rightarrow> case incr_pipeline R keys s2 of (rs, s3) \<Rightarrow> (r # rs, s3))"

definition incr_execute :: "redis \<Rightarrow> bytes list \<Rightarrow> int list rop" where
  "incr_execute R keys s = (case incr_pipeline R keys s of (rs, s1) \<Rightarrow> (first_error rs, s1))"

definition Cache_BatchIncrIfExist :: "redis \<Rightarrow> bytes list \<Rightarrow> int list rop" where
  "Cache_BatchIncrIfExist R keys s =
     (if keys = [] then (Inr [], s)
      else
        (case incr_execute R keys s of
           (Inr results, s1) \<Rightarrow> (Inr results, s1)
         | (Inl e, s1) \<Rightarrow>
             if e \<noteq> NoScript then (Inl e, s1)
             else
               (case rd_exec R (SCRIPT_LOAD sha_batchIncrIfExist) s1 of
                  (Inl loadErr, s2) \<Rightarrow> (Inl loadErr, s2)
                | (Inr _, s2) \<Rightarrow> incr_execute R keys s2)))"

definition Cache_Get :: "redis \<Rightarrow> bytes \<Rightarrow> int rop" where
  "Cache_Get R key s =
     (case rd_exec R (GET key) s of
        (r, s1) \<Rightarrow>
          (case reply_string r of
             Inl NilReply \<Rightarrow> (Inr 0, s1)
           | Inl e \<Rightarrow> (Inl e, s1)
           | Inr v \<Rightarrow> (case ParseInt v of None \<Rightarrow> (Inl ConvError, s1) | Some n \<Rightarrow> (Inr n, s1))))"

definition Cache_SDiffCount :: "redis \<Rightarrow> bytes \<Rightarrow> bytes \<Rightarrow> int rop" where
  "Cache_SDiffCount R totalKey opKey s =
     script_Run R sha_sDiffCount (sDiffCountLua R totalKey opKey) s"

definition Cache_BatchGetUnreadDual :: "redis \<Rightarrow> bytes \<Rightarrow> bytes list \<Rightarrow> int list rop" where
  "Cache_BatchGetUnreadDual R totalKey keys s =
     script_Run R sha_batchGetUnread (batchGetUnreadLua R totalKey keys) s"

definition Cache_SyncTenantBroadcastToOp :: "redis \<Rightarrow> bytes \<Rightarrow> bytes \<Rightarrow> int rop" where
  "Cache_SyncTenantBroadcastToOp R tenantBcastKey tenantBcastOpKey s =
     (case rd_exec R (SUNIONSTORE tenantBcastOpKey tenantBcastOpKey tenantBcastKey) s of
        (r, s1) \<Rightarrow> (reply_int r, s1))"

definition Cache_loadScripts :: "redis \<Rightarrow> unit rop" where
  "Cache_loadScripts R s =
     (case rd_exec R (SCRIPT_LOAD sha_batchIncrIfExist) s of
        (Inl e, s1) \<Rightarrow> (Inl e, s1)
      | (Inr _, s1) \<Rightarrow>
          (case rd_exec R (SCRIPT_LOAD sha_sDiffCount) s1 of
             (Inl e, s2) \<Rightarrow> (Inl e, s2)
           | (Inr _, s2) \<Rightarrow>
               (case rd_exec R (SCRIPT_LOAD sha_decrWithFloor) s2 of
                  (Inl e, s3) \<Rightarrow> (Inl e, s3)
                | (Inr _, s3) \<Rightarrow>
                    (case rd_exec R (SCRIPT_LOAD sha_batchGetUnread) s3 of
                       (Inl e, s4) \<Rightarrow> (Inl e, s4)
                     | (Inr _, s4) \<Rightarrow> (Inr (), s4)))))"

section \<open>Counters and sets as the hub reads them\<close>

text \<open>The counter at a key: a missing key is 0, \<open>None\<close> is a value that is no counter.\<close>
definition counter_at :: "rstore \<Rightarrow> bytes \<Rightarrow> int option" where
  "counter_at s k =
     (case alive s k of
        None \<Rightarrow> Some 0
      | Some (RStr x, _) \<Rightarrow> (if canonical_int64 x then ParseInt x else None)
      | Some (RSet _, _) \<Rightarrow> None)"

lemma counter_at_cong: "alive s k = alive s' k \<Longrightarrow> counter_at s k = counter_at s' k"
  by (simp add: counter_at_def)

lemma counter_range: "counter_at s k = Some v \<Longrightarrow> - (2 ^ 63) \<le> v \<and> v < 2 ^ 63"
  by (auto simp: counter_at_def dest!: ParseInt_range split: option.splits rval.splits if_splits)

lemma canonical_zero [simp]: "canonical_int64 ''0''" "ParseInt ''0'' = Some 0" "go_itoa 0 = ''0''"
proof -
  show z: "go_itoa 0 = ''0''" by (simp add: go_itoa_def nat_digits.simps digit_char_def) code_simp
  show "canonical_int64 ''0''" "ParseInt ''0'' = Some 0"
    using canonical_itoa [of 0] ParseInt_itoa [of 0] by (simp_all add: z)
qed

lemma counter_at_put_itoa:
  assumes "- (2 ^ 63) \<le> v" "v < 2 ^ 63" and "\<And>t. exp = Some t \<Longrightarrow> rs_now s < t"
  shows "counter_at (put k (RStr (go_itoa v)) exp s) k = Some v"
  using assms by (auto simp: counter_at_def alive_put_exp canonical_itoa not_le split: option.split)

lemma alive_exp: "alive s k = Some (v, Some t) \<Longrightarrow> rs_now s < t"
  by (auto simp: alive_def split: option.splits if_splits)

lemma incr_by_counter:
  assumes "counter_at s k = Some v" and "- (2 ^ 63) \<le> v + d" "v + d < 2 ^ 63"
  shows "\<exists>s'. incr_by d k s = (Inr (RInt (v + d)), s') \<and> counter_at s' k = Some (v + d) \<and>
     (\<forall>k'. k' \<noteq> k \<longrightarrow> alive s' k' = alive s k') \<and> rs_now s' = rs_now s"
proof -
  from assms(1) obtain x exp where x: "(case alive s k of None \<Rightarrow> Some (''0'', None)
      | Some (RStr x, exp) \<Rightarrow> Some (x, exp) | Some (RSet _, _) \<Rightarrow> None) = Some (x, exp)"
    and c: "canonical_int64 x" "ParseInt x = Some v" and e: "\<And>t. exp = Some t \<Longrightarrow> rs_now s < t"
    by (auto simp: counter_at_def split: option.splits rval.splits if_splits; metis alive_exp)
  have "incr_by d k s = (Inr (RInt (v + d)), put k (RStr (go_itoa (v + d))) exp s)"
    using assms(2,3) by (simp add: incr_by_def x c Let_def)
  then show ?thesis
    using counter_at_put_itoa [OF assms(2,3) e] by (auto simp: alive_put_exp)
qed

lemma incr_by_cases:
  "fst (incr_by d k s) = Inr (RInt v) \<Longrightarrow>
   \<exists>w. counter_at s k = Some w \<and> v = w + d \<and> - (2 ^ 63) \<le> v \<and> v < 2 ^ 63"
  by (auto simp: incr_by_def counter_at_def canonical_int64_def Let_def
      split: option.splits rval.splits if_splits)

lemma incr_by_fails: "fst (incr_by d k s) = Inl e \<Longrightarrow> snd (incr_by d k s) = s"
  by (auto simp: incr_by_def Let_def split: option.splits rval.splits if_splits)

text \<open>A script runs on a store that reads like the current one, or not at all.\<close>

lemma script_Run_up:
  assumes "redis_up R"
  obtains s1 where "script_Run R sha body s = body s1" "alive s1 = alive s" "rs_now s1 = rs_now s"
  using assms by (cases "sha \<in> rs_scripts s") (auto simp: script_Run_def redis_doc_def)

lemma script_Run_faithful:
  assumes "redis_faithful R"
  obtains e s1 where "script_Run R sha body s = (Inl e, s1)" "alive s1 = alive s"
  | s1 where "script_Run R sha body s = body s1" "alive s1 = alive s"
proof -
  have frame: "alive (snd (rd_exec R (EVALSHA x) t)) = alive t"
    "alive (snd (rd_exec R (SCRIPT_LOAD x) t)) = alive t" for x t
    using faithful_state [OF assms, of "EVALSHA x" t] faithful_state [OF assms, of "SCRIPT_LOAD x" t]
    by (auto simp: redis_doc_def)
  obtain r s1 where e1: "rd_exec R (EVALSHA sha) s = (r, s1)" by fastforce
  with frame(1) [of sha s] have a1: "alive s1 = alive s" by simp
  obtain r' s2 where e2: "rd_exec R (SCRIPT_LOAD sha) s1 = (r', s2)" by fastforce
  with frame(2) [of sha s1] a1 have a2: "alive s2 = alive s" by simp
  show thesis
  proof (cases r)
    case (Inl e)
    then show thesis
      using that a1 a2 by (cases e; cases r') (simp_all add: script_Run_def e1 e2)
  next
    case (Inr x)
    with that a1 show thesis by (auto simp: script_Run_def e1)
  qed
qed

section \<open>What the operations do\<close>

lemma Cache_Incr_up:
  assumes "redis_up R" and "counter_at s k = Some v" and "v + 1 < 2 ^ 63"
  shows "\<exists>s'. Cache_Incr R k s = (Inr (), s') \<and> counter_at s' k = Some (v + 1) \<and>
     (\<forall>k'. k' \<noteq> k \<longrightarrow> alive s' k' = alive s k')"
  using incr_by_counter [OF assms(2), of 1] counter_range [OF assms(2)] assms
  by (auto simp: Cache_Incr_def redis_doc_def reply_unit_def)

lemma decrWithFloor_call:
  assumes call: "\<And>c s. rd_call R c s = redis_doc c s"
    and "lua_exact R" and "counter_at s k = Some v" and "0 \<le> v" "v \<le> 2 ^ 53"
  shows "\<exists>s'. decrWithFloorLua R k s = (Inr (max 0 (v - 1)), s') \<and>
     counter_at s' k = Some (max 0 (v - 1)) \<and> (\<forall>k'. k' \<noteq> k \<longrightarrow> alive s' k' = alive s k')"
proof -
  from incr_by_counter [OF assms(3), of "- 1"] assms(4,5) obtain s1 where
    s1: "incr_by (- 1) k s = (Inr (RInt (v - 1)), s1)" "counter_at s1 k = Some (v - 1)"
      "\<forall>k'. k' \<noteq> k \<longrightarrow> alive s1 k' = alive s k'" by auto
  have n: "lua_number R (v - 1) = v - 1"
    using assms(2,4,5) unfolding lua_exact_def by (auto simp: abs_if)
  show ?thesis
  proof (cases "v = 0")
    case True
    with s1 n show ?thesis
      by (auto simp: decrWithFloorLua_def call redis_doc_def reply_int_def Let_def counter_at_def)
  next
    case False
    with s1 n assms(4) show ?thesis
      by (auto simp: decrWithFloorLua_def call redis_doc_def reply_int_def Let_def)
  qed
qed

lemma Cache_DecrWithFloor_up:
  assumes "redis_up R" "lua_exact R" and "counter_at s k = Some v" and "0 \<le> v" "v \<le> 2 ^ 53"
  shows "\<exists>s'. Cache_DecrWithFloor R k s = (Inr (max 0 (v - 1)), s') \<and>
     counter_at s' k = Some (max 0 (v - 1)) \<and> (\<forall>k'. k' \<noteq> k \<longrightarrow> alive s' k' = alive s k')"
proof (rule script_Run_up [OF assms(1), of sha_decrWithFloor "decrWithFloorLua R k" s])
  fix s1 assume "script_Run R sha_decrWithFloor (decrWithFloorLua R k) s = decrWithFloorLua R k s1"
    and a: "alive s1 = alive s"
  moreover have "counter_at s1 k = Some v"
    using assms(3) counter_at_cong [of s1 k s] a by simp
  ultimately show ?thesis
    using decrWithFloor_call [of R s1 k v] assms by (simp add: Cache_DecrWithFloor_def)
qed

lemma Cache_Set_up:
  assumes "redis_up R" and "- (2 ^ 63) \<le> v" "v < 2 ^ 63"
  shows "\<exists>s'. Cache_Set R k v s = (Inr (), s') \<and> counter_at s' k = Some v \<and>
     (\<forall>k'. k' \<noteq> k \<longrightarrow> alive s' k' = alive s k')"
  using assms counter_at_put_itoa [OF assms(2,3), of None s k]
  by (auto simp: Cache_Set_def redis_doc_def reply_unit_def)

lemma Cache_Get_up:
  assumes "redis_up R" and "counter_at s k = Some v"
  shows "Cache_Get R k s = (Inr v, s)"
  using assms
  by (auto simp: Cache_Get_def redis_doc_def reply_string_def counter_at_def
      split: option.splits rval.splits if_splits)

lemma fcard_minus_inter: "int (fcard (T |-| S)) = int (fcard T) - int (fcard (T |\<inter>| S))"
  using card_mono [of "fset T" "fset T \<inter> fset S"]
  by (simp add: fcard.rep_eq card_Diff_subset_Int of_nat_diff)

lemma fcard_minus_le: "fcard (T |-| S) \<le> fcard T"
  by (rule fcard_mono) blast

lemma sDiffCount_call:
  assumes call: "\<And>c s. rd_call R c s = redis_doc c s" and "lua_exact R"
    and "set_at s tk = Some T" "set_at s ok = Some Q" and "fcard T \<le> 2 ^ 53"
  shows "sDiffCountLua R tk ok s = (Inr (int (fcard (T |-| Q))), s)"
proof -
  have le: "int (fcard (T |-| Q)) \<le> 2 ^ 53"
    using fcard_minus_le [of T Q] assms(5) by simp
  then have "lua_number R (int (fcard (T |-| Q))) = int (fcard (T |-| Q))"
    using assms(2) by (simp add: lua_exact_def)
  moreover have "fcard T = 0 \<Longrightarrow> fcard (T |-| Q) = 0"
    using fcard_minus_le [of T Q] by simp
  ultimately show ?thesis
    using assms(3,4)
    by (auto simp: sDiffCountLua_def call redis_doc_def reply_int_def Let_def
        fcard_minus_inter [symmetric])
qed

lemma Cache_SDiffCount_up:
  assumes "redis_up R" "lua_exact R" and "set_at s tk = Some T" "set_at s ok = Some Q"
    and "fcard T \<le> 2 ^ 53"
  shows "\<exists>s'. Cache_SDiffCount R tk ok s = (Inr (int (fcard (T |-| Q))), s') \<and> alive s' = alive s"
proof (rule script_Run_up [OF assms(1), of sha_sDiffCount "sDiffCountLua R tk ok" s])
  fix s1 assume "script_Run R sha_sDiffCount (sDiffCountLua R tk ok) s = sDiffCountLua R tk ok s1"
    and "alive s1 = alive s"
  with assms sDiffCount_call [of R s1 tk T ok Q] show ?thesis
    by (simp add: Cache_SDiffCount_def set_at_def)
qed

lemma fcard_simps [simp]:
  "fcard {||} = 0" "fcard {|m|} = Suc 0" "m |\<notin>| T \<Longrightarrow> fcard ({|m|} |-| T) = Suc 0"
  by (simp_all add: fcard.rep_eq insert_Diff_if)

lemma Cache_SAdd_up:
  assumes "redis_up R" and "set_at s k = Some T"
  shows "\<exists>s'. Cache_SAdd R k m s = (Inr (if m |\<in>| T then 0 else 1), s') \<and>
     set_at s' k = Some (finsert m T) \<and> (\<forall>k'. k' \<noteq> k \<longrightarrow> alive s' k' = alive s k')"
proof -
  have "\<And>v t. alive s k = Some (v, Some t) \<Longrightarrow> \<not> t \<le> rs_now s" by (simp add: alive_exp not_le)
  with assms show ?thesis
    by (auto simp: Cache_SAdd_def redis_doc_def reply_int_def set_at_def alive_put_exp
        split: option.splits rval.splits)
qed

lemma Cache_SCard_up:
  "redis_up R \<Longrightarrow> set_at s k = Some T \<Longrightarrow> Cache_SCard R k s = (Inr (int (fcard T)), s)"
  by (simp add: Cache_SCard_def redis_doc_def reply_int_def)

lemma Cache_Sync_up:
  assumes "redis_up R" and "set_at s tk = Some T" "set_at s ok = Some Q"
  shows "\<exists>s'. Cache_SyncTenantBroadcastToOp R tk ok s = (Inr (int (fcard (Q |\<union>| T))), s') \<and>
     set_at s' ok = Some (Q |\<union>| T) \<and> (\<forall>k'. k' \<noteq> ok \<longrightarrow> alive s' k' = alive s k')"
  using assms
  by (auto simp: Cache_SyncTenantBroadcastToOp_def redis_doc_def reply_int_def set_at_def [of "put _ _ _ _"]
      set_at_def [of "drop_key _ _"])

lemma temp_key_neq [simp]: "temp_key k n \<noteq> k" "k \<noteq> temp_key k n"
  by (simp_all add: temp_key_def)

lemma Cache_SafeReplaceSet_up:
  assumes "redis_up R" and "alive s (temp_key k now) = None"
  shows "\<exists>s'. Cache_SafeReplaceSet R now k ids s = (Inr (), s') \<and>
     set_at s' k = Some (fset_of_list ids) \<and> alive s' (temp_key k now) = None \<and>
     (\<forall>k'. k' \<noteq> k \<longrightarrow> alive s' k' = alive s k')"
proof (cases "ids = []")
  case True
  then show ?thesis
    using assms by (auto simp: Cache_SafeReplaceSet_def redis_doc_def reply_unit_def set_at_def)
next
  case False
  then show ?thesis
    using assms
    by (auto simp: Cache_SafeReplaceSet_def replace_cmds_def redis_doc_def set_at_def alive_put_exp
        time_Second_def)
qed

lemma pipe_set_up:
  assumes "redis_up R" and "\<forall>(k, v) \<in> set kv. - (2 ^ 63) \<le> v \<and> v < 2 ^ 63" and "distinct (map fst kv)"
  shows "\<exists>rs s'. pipe_exec R (map (\<lambda>(k, v). SET k (go_itoa v) None) kv) s = (rs, s') \<and>
     (\<exists>as. first_error rs = Inr as) \<and> (\<forall>(k, v) \<in> set kv. counter_at s' k = Some v) \<and>
     (\<forall>k. k \<notin> fst ` set kv \<longrightarrow> alive s' k = alive s k)"
  using assms(2,3)
proof (induction kv arbitrary: s)
  case Nil
  then show ?case by simp
next
  case (Cons kv kvs)
  obtain k v where kv: "kv = (k, v)" by fastforce
  let ?s1 = "put k (RStr (go_itoa v)) None s"
  from Cons.IH [of ?s1] Cons.prems obtain rs s' as where
    ih: "pipe_exec R (map (\<lambda>(k, v). SET k (go_itoa v) None) kvs) ?s1 = (rs, s')" "first_error rs = Inr as"
      "\<forall>(k, v) \<in> set kvs. counter_at s' k = Some v"
      "\<forall>k'. k' \<notin> fst ` set kvs \<longrightarrow> alive s' k' = alive ?s1 k'" by auto
  have "counter_at s' k = Some v"
    using ih(4) Cons.prems counter_at_put_itoa [of v None s k] counter_at_cong [of s' k ?s1]
    by (auto simp: kv)
  with ih Cons.prems show ?case using assms(1) by (auto simp: kv redis_doc_def)
qed

lemma Cache_BatchSetPipeline_up:
  assumes "redis_up R" and "\<forall>(k, v) \<in> set kv. - (2 ^ 63) \<le> v \<and> v < 2 ^ 63" and "distinct (map fst kv)"
  shows "\<exists>s'. Cache_BatchSetPipeline R kv s = (Inr (), s') \<and>
     (\<forall>(k, v) \<in> set kv. counter_at s' k = Some v) \<and>
     (\<forall>k. k \<notin> fst ` set kv \<longrightarrow> alive s' k = alive s k)"
  using pipe_set_up [OF assms, of s] by (auto simp: Cache_BatchSetPipeline_def)

section \<open>The batch script\<close>

text \<open>What the batch script reads for one user: the personal counter, and the tenant counter plus the
  tenant's broadcasts the user has not operated on.\<close>
definition dual_of :: "rstore \<Rightarrow> bytes \<Rightarrow> bytes \<times> bytes \<times> bytes \<Rightarrow> int list" where
  "dual_of s tk = (\<lambda>(pk, uk, ok).
     [the (counter_at s pk), the (counter_at s uk) + int (fcard (the (set_at s tk) |-| the (set_at s ok)))])"

text \<open>The keys of one user are readable and small enough for Lua's numbers.\<close>
definition dual_ok :: "rstore \<Rightarrow> bytes \<Rightarrow> bytes \<times> bytes \<times> bytes \<Rightarrow> bool" where
  "dual_ok s tk = (\<lambda>(pk, uk, ok).
     (\<exists>p u Q T. counter_at s pk = Some p \<and> counter_at s uk = Some u \<and> set_at s ok = Some Q \<and>
        set_at s tk = Some T \<and> \<bar>p\<bar> \<le> 2 ^ 53 \<and> 0 \<le> u \<and> u + int (fcard T) \<le> 2 ^ 53))"

lemma lua_get_counter:
  assumes call: "\<And>c s. rd_call R c s = redis_doc c s" and "lua_exact R"
    and "counter_at s k = Some v" and "\<bar>v\<bar> \<le> 2 ^ 53"
  shows "lua_get_number R k s = (Inr (Some v), s)"
proof -
  have "lua_tonumber R (go_itoa v) = Some v" using assms(2,4) by (simp add: lua_exact_def)
  with assms(3) show ?thesis
    by (auto simp: lua_get_number_def call redis_doc_def counter_at_def canonical_int64_def
        split: option.splits rval.splits if_splits)
qed

lemma batch_loop_up:
  assumes call: "\<And>c s. rd_call R c s = redis_doc c s" and ex: "lua_exact R"
    and T: "set_at s tk = Some T"
    and "\<forall>ks \<in> set users. dual_ok s tk ks"
  shows "batch_get_unread_loop R tk (int (fcard T)) (concat (map (\<lambda>(a, b, c). [a, b, c]) users)) res s =
    (Inr (res @ concat (map (dual_of s tk) users)), s)"
  using assms(4)
proof (induction users arbitrary: res)
  case Nil
  then show ?case by simp
next
  case (Cons ks users)
  obtain pk uk ok where ks: "ks = (pk, uk, ok)" by (cases ks)
  from Cons.prems T obtain p u Q where c: "counter_at s pk = Some p" "counter_at s uk = Some u"
    "set_at s ok = Some Q" "\<bar>p\<bar> \<le> 2 ^ 53" "0 \<le> u" "u + int (fcard T) \<le> 2 ^ 53"
    by (auto simp: ks dual_ok_def)
  have g: "lua_get_number R pk s = (Inr (Some p), s)" "lua_get_number R uk s = (Inr (Some u), s)"
    using lua_get_counter [OF call ex] c by simp_all
  have le: "fcard (T |-| Q) \<le> fcard T" by (rule fcard_minus_le)
  have n: "lua_number R (u + int (fcard (T |-| Q))) = u + int (fcard (T |-| Q))"
    using ex c(5,6) le unfolding lua_exact_def by simp
  have inter: "int (fcard T) - int (fcard (T |\<inter>| Q)) = int (fcard (T |-| Q))"
    by (simp add: fcard_minus_inter)
  have z: "\<not> 0 < fcard T \<Longrightarrow> fcard (T |-| Q) = 0" using le by simp
  show ?case
    using Cons.IH Cons.prems c g n z
    by (cases "0 < fcard T")
      (simp_all add: ks call redis_doc_def reply_int_def T inter dual_of_def)
qed

lemma Cache_BatchGetUnreadDual_up:
  assumes "redis_up R" "lua_exact R" and T: "set_at s tk = Some T"
    and "\<forall>ks \<in> set users. dual_ok s tk ks"
  shows "\<exists>s'. Cache_BatchGetUnreadDual R tk (concat (map (\<lambda>(a, b, c). [a, b, c]) users)) s =
     (Inr (concat (map (dual_of s tk) users)), s') \<and> alive s' = alive s"
proof -
  let ?keys = "concat (map (\<lambda>(a, b, c). [a, b, c]) users)"
  obtain s1 where s1: "script_Run R sha_batchGetUnread (batchGetUnreadLua R tk ?keys) s =
      batchGetUnreadLua R tk ?keys s1" "alive s1 = alive s"
    by (rule script_Run_up [OF assms(1), of sha_batchGetUnread "batchGetUnreadLua R tk ?keys" s])
  have same: "counter_at s1 = counter_at s" "set_at s1 = set_at s"
    using s1(2) by (auto simp: counter_at_def set_at_def fun_eq_iff)
  then have "\<forall>ks \<in> set users. dual_ok s1 tk ks" "dual_of s1 = dual_of s"
    using assms(4) by (auto simp: dual_ok_def dual_of_def fun_eq_iff)
  then have "batchGetUnreadLua R tk ?keys s1 = (Inr (concat (map (dual_of s tk) users)), s1)"
    using batch_loop_up [of R s1 tk T users "[]"] assms(1,2) T same
    by (simp add: batchGetUnreadLua_def redis_doc_def reply_int_def)
  with s1 show ?thesis by (simp add: Cache_BatchGetUnreadDual_def)
qed

section \<open>The batch increment\<close>

text \<open>The effect on one key: a key that is there is incremented, a missing one is reported as -1.\<close>
definition incr_result :: "rstore \<Rightarrow> bytes \<Rightarrow> int" where
  "incr_result s k = (if alive s k = None then - 1 else the (counter_at s k) + 1)"

definition incr_effect :: "bytes list \<Rightarrow> rstore \<Rightarrow> rstore \<Rightarrow> bool" where
  "incr_effect keys s s' =
     ((\<forall>k \<in> set keys. (alive s k = None \<longrightarrow> alive s' k = None) \<and>
         (alive s k \<noteq> None \<longrightarrow> alive s' k \<noteq> None \<and> counter_at s' k = Some (the (counter_at s k) + 1))) \<and>
      (\<forall>k. k \<notin> set keys \<longrightarrow> alive s' k = alive s k))"

definition small_counter :: "rstore \<Rightarrow> bytes \<Rightarrow> bool" where
  "small_counter s k = (\<exists>v. counter_at s k = Some v \<and> 0 \<le> v \<and> v < 2 ^ 53)"

lemma incr_alive:
  assumes "alive s k \<noteq> None" and "incr_by d k s = (Inr r, s')"
  shows "alive s' k \<noteq> None \<and> rs_scripts s' = rs_scripts s"
proof -
  obtain v exp where a: "alive s k = Some (v, exp)" using assms(1) by fastforce
  then have "\<And>t. exp = Some t \<Longrightarrow> rs_now s < t" by (auto dest: alive_exp)
  with a assms(2) show ?thesis
    by (auto simp: incr_by_def alive_put_exp Let_def not_le split: rval.splits if_splits option.splits)
qed

lemma incr_one_up:
  assumes up: "redis_up R" "lua_exact R" and sc: "small_counter s k"
  shows "\<exists>s'. batchIncrIfExistLua R k s = (Inr (incr_result s k), s') \<and> incr_effect [k] s s' \<and>
     rs_scripts s' = rs_scripts s"
proof (cases "alive s k")
  case None
  then show ?thesis
    using up by (auto simp: batchIncrIfExistLua_def redis_doc_def incr_result_def incr_effect_def)
next
  case (Some e)
  from sc obtain v where v: "counter_at s k = Some v" "0 \<le> v" "v < 2 ^ 53"
    unfolding small_counter_def by blast
  then have "lua_number R (v + 1) = v + 1" using up(2) by (simp add: lua_exact_def)
  moreover from incr_by_counter [OF v(1), of 1] v obtain s' where
    "incr_by 1 k s = (Inr (RInt (v + 1)), s')" "counter_at s' k = Some (v + 1)"
    "\<forall>k'. k' \<noteq> k \<longrightarrow> alive s' k' = alive s k'" by auto
  moreover from this(1) Some have "alive s' k \<noteq> None \<and> rs_scripts s' = rs_scripts s"
    using incr_alive by fastforce
  ultimately show ?thesis
    using up Some v
    by (auto simp: batchIncrIfExistLua_def redis_doc_def reply_int_def incr_result_def incr_effect_def)
qed

lemma incr_pipeline_up:
  assumes up: "redis_up R" "lua_exact R" and "sha_batchIncrIfExist \<in> rs_scripts s"
    and "distinct keys" and "\<forall>k \<in> set keys. small_counter s k"
  shows "\<exists>s'. incr_pipeline R keys s = (map (\<lambda>k. Inr (incr_result s k)) keys, s') \<and> incr_effect keys s s'"
  using assms(3-5)
proof (induction keys arbitrary: s)
  case Nil
  then show ?case by (simp add: incr_effect_def)
next
  case (Cons k keys)
  from incr_one_up [OF up, of s k] Cons.prems obtain s1 where
    s1: "batchIncrIfExistLua R k s = (Inr (incr_result s k), s1)" "incr_effect [k] s s1"
      "rs_scripts s1 = rs_scripts s" by auto
  have same: "alive s1 k' = alive s k' \<and> counter_at s1 k' = counter_at s k'" if "k' \<in> set keys" for k'
  proof -
    have "k' \<noteq> k" using Cons.prems(2) that by auto
    then show ?thesis using s1(2) counter_at_cong [of s1 k' s] by (simp add: incr_effect_def)
  qed
  then have "\<forall>k' \<in> set keys. small_counter s1 k'"
    using Cons.prems(3) by (simp add: small_counter_def)
  with Cons.IH [of s1] Cons.prems s1(3) obtain s' where
    s': "incr_pipeline R keys s1 = (map (\<lambda>k. Inr (incr_result s1 k)) keys, s')" "incr_effect keys s1 s'"
    by auto
  have "map (\<lambda>k. Inr (incr_result s1 k) :: rerr + int) keys = map (\<lambda>k. Inr (incr_result s k)) keys"
    using same by (auto simp: incr_result_def)
  moreover have "incr_effect (k # keys) s s'"
    using s1(2) s'(2) Cons.prems(2) same counter_at_cong [of s' k s1]
    unfolding incr_effect_def by (auto split: if_splits)
  ultimately show ?case
    using up(1) Cons.prems(1) s1(1) s'(1) by (auto simp: redis_doc_def)
qed

lemma first_error_Inr [simp]: "first_error (map (\<lambda>x. Inr (f x)) xs) = Inr (map f xs)"
  by (induction xs) simp_all

lemma incr_pipeline_noscript:
  assumes "redis_up R" and "sha_batchIncrIfExist \<notin> rs_scripts s"
  shows "incr_pipeline R keys s = (map (\<lambda>_. Inl NoScript) keys, s)"
  using assms by (induction keys) (simp_all add: redis_doc_def)

text \<open>Whether or not the server still has the script, the batch has the same effect.\<close>

lemma Cache_BatchIncrIfExist_up:
  assumes up: "redis_up R" "lua_exact R" and "distinct keys" and "\<forall>k \<in> set keys. small_counter s k"
  shows "\<exists>s'. Cache_BatchIncrIfExist R keys s = (Inr (map (incr_result s) keys), s') \<and> incr_effect keys s s'"
proof (cases "keys = [] \<or> sha_batchIncrIfExist \<in> rs_scripts s")
  case True
  then show ?thesis
    using incr_pipeline_up [OF up _ assms(3,4)]
    by (auto simp: Cache_BatchIncrIfExist_def incr_execute_def incr_effect_def)
next
  case False
  let ?s1 = "s\<lparr>rs_scripts := insert sha_batchIncrIfExist (rs_scripts s)\<rparr>"
  have same: "counter_at ?s1 = counter_at s" "incr_result ?s1 = incr_result s"
    by (auto simp: counter_at_def incr_result_def fun_eq_iff)
  have "\<forall>k \<in> set keys. small_counter ?s1 k" using assms(4) same by (simp add: small_counter_def)
  with incr_pipeline_up [OF up, of ?s1 keys] assms(3) obtain s' where
    "incr_pipeline R keys ?s1 = (map (\<lambda>k. Inr (incr_result ?s1 k)) keys, s')" "incr_effect keys ?s1 s'"
    by auto
  moreover from this(2) have "incr_effect keys s s'" by (simp add: incr_effect_def same)
  moreover obtain k ks where "keys = k # ks" using False by (cases keys) auto
  ultimately show ?thesis
    using False up(1) same(2)
    by (auto simp: Cache_BatchIncrIfExist_def incr_execute_def incr_pipeline_noscript redis_doc_def)
qed

section \<open>Whatever Redis does\<close>

text \<open>
  The cache under any sequence of the repository's operations, the passing of time and the loss of
  cached scripts. Counts written by \<open>Set\<close> and \<open>BatchSetPipeline\<close> come from SQL COUNT.
\<close>
inductive cache_step :: "redis \<Rightarrow> rstore \<Rightarrow> rstore \<Rightarrow> bool" for R where
  StepIncr: "cache_step R s (snd (Cache_Incr R k s))"
| StepDecr: "cache_step R s (snd (Cache_DecrWithFloor R k s))"
| StepSet: "0 \<le> v \<Longrightarrow> v < 2 ^ 63 \<Longrightarrow> cache_step R s (snd (Cache_Set R k v s))"
| StepSAdd: "cache_step R s (snd (Cache_SAdd R k m s))"
| StepReplace: "cache_step R s (snd (Cache_SafeReplaceSet R now k ids s))"
| StepBatchSet: "\<forall>(k, v) \<in> set kv. 0 \<le> v \<and> v < 2 ^ 63 \<Longrightarrow> cache_step R s (snd (Cache_BatchSetPipeline R kv s))"
| StepBatchIncr: "cache_step R s (snd (Cache_BatchIncrIfExist R keys s))"
| StepSync: "cache_step R s (snd (Cache_SyncTenantBroadcastToOp R tk ok s))"
| StepTime: "rs_now s \<le> t \<Longrightarrow> cache_step R s (s\<lparr>rs_now := t\<rparr>)"
| StepFlush: "cache_step R s (s\<lparr>rs_scripts := {}\<rparr>)"

inductive cache_reachable :: "redis \<Rightarrow> rstore \<Rightarrow> bool" for R where
  ReachInit: "cache_reachable R (empty_store t)"
| ReachStep: "cache_reachable R s \<Longrightarrow> cache_step R s s' \<Longrightarrow> cache_reachable R s'"

definition nonneg :: "rstore \<Rightarrow> bool" where
  "nonneg s = (\<forall>k v. counter_at s k = Some v \<longrightarrow> 0 \<le> v)"

text \<open>The commands of these operations, except the DECR that a script repairs.\<close>
fun keeps_nonneg :: "rcmd \<Rightarrow> bool" where
  "keeps_nonneg (SET k x ttl) = (\<exists>v. 0 \<le> v \<and> v < 2 ^ 63 \<and> x = go_itoa v)"
| "keeps_nonneg (DECR k) = False"
| "keeps_nonneg c = True"

lemma nonneg_alive: "alive s = alive s' \<Longrightarrow> nonneg s = nonneg s'"
  by (simp add: nonneg_def counter_at_def)

lemma nonneg_put:
  assumes "nonneg s" and "\<And>x v. r = RStr x \<Longrightarrow> canonical_int64 x \<Longrightarrow> ParseInt x = Some v \<Longrightarrow> 0 \<le> v"
  shows "nonneg (put k r exp s)"
  using assms unfolding nonneg_def
  by (auto simp: counter_at_def alive_put_exp split: option.splits rval.splits if_splits)

lemma nonneg_drop: "nonneg s \<Longrightarrow> nonneg (drop_key k s)"
  unfolding nonneg_def by (auto simp: counter_at_def split: if_splits)

lemma nonneg_moved:
  "nonneg s \<Longrightarrow> alive s k = Some (r, e) \<Longrightarrow> r = RStr x \<Longrightarrow> canonical_int64 x \<Longrightarrow> ParseInt x = Some v \<Longrightarrow> 0 \<le> v"
  unfolding nonneg_def by (auto simp: counter_at_def dest!: spec [of _ k])

lemma nonneg_incr: "nonneg s \<Longrightarrow> nonneg (snd (incr_by 1 k s))"
proof (cases "fst (incr_by 1 k s)")
  case (Inl e)
  then show "nonneg s \<Longrightarrow> ?thesis" by (simp add: incr_by_fails)
next
  case (Inr r)
  assume nn: "nonneg s"
  from Inr obtain v where "r = RInt v"
    by (auto simp: incr_by_def Let_def split: option.splits rval.splits if_splits)
  with Inr incr_by_cases obtain w where w: "counter_at s k = Some w" "w + 1 < 2 ^ 63" by fastforce
  with nn have "0 \<le> w" by (simp add: nonneg_def)
  with incr_by_counter [OF w(1), of 1] w obtain s' where s': "incr_by 1 k s = (Inr (RInt (w + 1)), s')"
    "counter_at s' k = Some (w + 1)" "\<forall>k'. k' \<noteq> k \<longrightarrow> alive s' k' = alive s k'" by auto
  have "0 \<le> v'" if "counter_at s' k' = Some v'" for k' v'
    using that s' nn \<open>0 \<le> w\<close> counter_at_cong [of s' k' s] by (cases "k' = k") (auto simp: nonneg_def)
  then show ?thesis by (simp add: s'(1) nonneg_def)
qed

lemma nonneg_doc: "nonneg s \<Longrightarrow> keeps_nonneg c \<Longrightarrow> nonneg (snd (redis_doc c s))"
proof (cases c)
  case (SET k x ttl)
  assume "nonneg s" "keeps_nonneg c"
  with SET show ?thesis by (auto simp: redis_doc_def intro!: nonneg_put)
qed (auto simp: redis_doc_def nonneg_incr nonneg_drop nonneg_alive [of "_\<lparr>rs_scripts := _\<rparr>"]
    split: option.splits rval.splits intro!: nonneg_put intro: nonneg_moved)

lemma nonneg_exec: "redis_faithful R \<Longrightarrow> nonneg s \<Longrightarrow> keeps_nonneg c \<Longrightarrow> nonneg (snd (rd_exec R c s))"
  using faithful_state [of R c s] nonneg_doc by metis

lemma nonneg_pipe:
  "redis_faithful R \<Longrightarrow> nonneg s \<Longrightarrow> \<forall>c \<in> set cs. keeps_nonneg c \<Longrightarrow> nonneg (snd (pipe_exec R cs s))"
proof (induction cs arbitrary: s)
  case (Cons c cs)
  then show ?case using nonneg_exec [of R s c] by (auto split: prod.split) (metis snd_conv)
qed simp

lemma nonneg_decr_script:
  assumes "redis_faithful R" "lua_exact R" and "nonneg s"
  shows "nonneg (snd (decrWithFloorLua R k s))"
proof (cases "fst (incr_by (- 1) k s)")
  case (Inl e)
  then show ?thesis
    using assms incr_by_fails [of "- 1" k s e]
    by (cases "incr_by (- 1) k s") (auto simp: decrWithFloorLua_def redis_doc_def reply_int_def)
next
  case (Inr r)
  then obtain v where "r = RInt v"
    by (auto simp: incr_by_def Let_def split: option.splits rval.splits if_splits)
  with Inr incr_by_cases obtain w where w: "counter_at s k = Some w" "- (2 ^ 63) \<le> w - 1" by fastforce
  with assms(3) have w0: "0 \<le> w" by (simp add: nonneg_def)
  from incr_by_counter [OF w(1), of "- 1"] counter_range [OF w(1)] w(2) obtain s1 where
    s1: "incr_by (- 1) k s = (Inr (RInt (w - 1)), s1)" "counter_at s1 k = Some (w - 1)"
      "\<forall>k'. k' \<noteq> k \<longrightarrow> alive s1 k' = alive s k'" by auto
  have others: "0 \<le> v" if "k' \<noteq> k" "counter_at s1 k' = Some v" for k' v
    using that s1(3) assms(3) counter_at_cong [of s1 k' s] by (auto simp: nonneg_def)
  show ?thesis
  proof (cases "w = 0")
    case True
    then have "lua_number R (w - 1) < 0" using assms(2) by (simp add: lua_exact_def)
    then have "snd (decrWithFloorLua R k s) = put k (RStr ''0'') None s1"
      using assms(1) s1(1) by (simp add: decrWithFloorLua_def redis_doc_def reply_int_def)
    moreover have "counter_at (put k (RStr ''0'') None s1) k' =
        (if k' = k then Some 0 else counter_at s1 k')" for k'
      by (simp add: counter_at_def)
    ultimately show ?thesis using others by (auto simp: nonneg_def split: if_splits)
  next
    case False
    have "0 \<le> v" if "counter_at s1 k' = Some v" for k' v
      using that others [of k' v] s1(2) False w0 by (cases "k' = k") auto
    then have n1: "nonneg s1" by (simp add: nonneg_def)
    then have "nonneg (put k (RStr ''0'') None s1)" by (rule nonneg_put) auto
    with n1 show ?thesis
      using assms(1) s1(1) by (simp add: decrWithFloorLua_def redis_doc_def reply_int_def Let_def)
  qed
qed

lemma nonneg_incr_script:
  assumes "redis_faithful R" and "nonneg s"
  shows "nonneg (snd (batchIncrIfExistLua R k s))"
  using assms nonneg_incr [of s k]
  by (auto simp: batchIncrIfExistLua_def redis_doc_def split: prod.split)

lemma nonneg_incr_pipeline:
  "redis_faithful R \<Longrightarrow> nonneg s \<Longrightarrow> nonneg (snd (incr_pipeline R keys s))"
proof (induction keys arbitrary: s)
  case (Cons k keys)
  obtain r s1 where e: "rd_exec R (EVALSHA sha_batchIncrIfExist) s = (r, s1)" by fastforce
  have n1: "nonneg s1" using nonneg_exec [OF Cons.prems, of "EVALSHA sha_batchIncrIfExist"] e by simp
  have "nonneg (snd (case r of Inl e \<Rightarrow> (Inl e, s1) | Inr _ \<Rightarrow> batchIncrIfExistLua R k s1))"
    using n1 nonneg_incr_script [OF Cons.prems(1) n1] by (simp split: sum.split)
  moreover obtain r2 s2 where e2: "(case r of Inl e \<Rightarrow> (Inl e, s1) | Inr _ \<Rightarrow> batchIncrIfExistLua R k s1) = (r2, s2)"
    by fastforce
  ultimately have "nonneg s2" by simp
  from Cons.IH [OF Cons.prems(1) this] show ?case by (cases "incr_pipeline R keys s2") (simp add: e e2)
qed simp

lemma nonneg_BatchIncr:
  assumes "redis_faithful R" and "nonneg s"
  shows "nonneg (snd (Cache_BatchIncrIfExist R keys s))"
proof -
  have ex: "nonneg (snd (incr_execute R keys t))" if "nonneg t" for t
    using nonneg_incr_pipeline [OF assms(1) that] by (simp add: incr_execute_def split: prod.split) (metis snd_conv)
  obtain r s1 where e1: "incr_execute R keys s = (r, s1)" by fastforce
  with ex [OF assms(2)] have n1: "nonneg s1" by simp
  obtain r2 s2 where e2: "rd_exec R (SCRIPT_LOAD sha_batchIncrIfExist) s1 = (r2, s2)" by fastforce
  with nonneg_exec [OF assms(1) n1, of "SCRIPT_LOAD sha_batchIncrIfExist"] have n2: "nonneg s2" by simp
  show ?thesis
    using assms(2) n1 n2 ex [OF n2] by (auto simp: Cache_BatchIncrIfExist_def e1 e2 split: sum.split)
qed

lemma nonneg_DecrWithFloor:
  assumes R: "redis_faithful R" "lua_exact R" and n: "nonneg s"
  shows "nonneg (snd (Cache_DecrWithFloor R k s))"
proof -
  have "nonneg (snd (script_Run R sha_decrWithFloor (decrWithFloorLua R k) s))"
  proof (rule script_Run_faithful [OF R(1), of sha_decrWithFloor "decrWithFloorLua R k" s])
    fix s1 assume "script_Run R sha_decrWithFloor (decrWithFloorLua R k) s = decrWithFloorLua R k s1"
      and "alive s1 = alive s"
    with nonneg_decr_script [OF R, of s1 k] n nonneg_alive [of s1 s] show ?thesis by simp
  next
    fix e s1 assume "script_Run R sha_decrWithFloor (decrWithFloorLua R k) s = (Inl e, s1)"
      and "alive s1 = alive s"
    with n nonneg_alive [of s1 s] show ?thesis by simp
  qed
  then show ?thesis by (simp add: Cache_DecrWithFloor_def)
qed

lemma nonneg_time:
  assumes n: "nonneg s" and t: "rs_now s \<le> t"
  shows "nonneg (s\<lparr>rs_now := t\<rparr>)"
proof -
  let ?s = "s\<lparr>rs_now := t\<rparr>"
  have old: "alive ?s k = alive s k \<or> alive ?s k = None" for k
    using t by (auto simp: alive_def split: option.split)
  have c: "counter_at ?s k = counter_at s k \<or> counter_at ?s k = Some 0" for k
    using old [of k] counter_at_cong [of ?s k s] by (auto simp: counter_at_def)
  have "0 \<le> v" if "counter_at ?s k = Some v" for k v
    using c [of k] that n by (auto simp: nonneg_def)
  then show ?thesis by (simp add: nonneg_def)
qed

lemma cache_step_nonneg:
  assumes "cache_step R s s'" and R: "redis_faithful R" "lua_exact R" and n: "nonneg s"
  shows "nonneg s'"
  using assms(1)
proof cases
  case (StepDecr k)
  with nonneg_DecrWithFloor [OF R n] show ?thesis by simp
next
  case (StepReplace now k ids)
  have "\<forall>c \<in> set (replace_cmds k now ids). keeps_nonneg c" by (simp add: replace_cmds_def)
  from nonneg_pipe [OF R(1) n this] nonneg_exec [OF R(1) n, of "DEL k"] show ?thesis
    unfolding StepReplace by (auto simp: Cache_SafeReplaceSet_def split: prod.split)
next
  case (StepBatchSet kv)
  have "\<forall>c \<in> set (map (\<lambda>(k, v). SET k (go_itoa v) None) kv). keeps_nonneg c"
    using StepBatchSet(2) by fastforce
  from nonneg_pipe [OF R(1) n this] n show ?thesis
    unfolding StepBatchSet(1) by (auto simp: Cache_BatchSetPipeline_def split: prod.split)
next
  case (StepTime t)
  with nonneg_time [OF n] show ?thesis by simp
next
  case StepFlush
  then show ?thesis using n nonneg_alive [of s' s] by simp
next
  case (StepBatchIncr keys)
  then show ?thesis using nonneg_BatchIncr [OF R(1) n] by simp
next
  case (StepSet v k)
  then have "keeps_nonneg (SET k (go_itoa v) None)" by auto
  with nonneg_exec [OF R(1) n, of "SET k (go_itoa v) None"] StepSet(1) show ?thesis
    by (cases "rd_exec R (SET k (go_itoa v) None) s") (simp add: Cache_Set_def)
next
  case (StepIncr k)
  with nonneg_exec [OF R(1) n, of "INCR k"] show ?thesis
    by (cases "rd_exec R (INCR k) s") (simp add: Cache_Incr_def)
next
  case (StepSAdd k m)
  with nonneg_exec [OF R(1) n, of "SADD k [m]"] show ?thesis
    by (cases "rd_exec R (SADD k [m]) s") (simp add: Cache_SAdd_def)
next
  case (StepSync tk ok)
  with nonneg_exec [OF R(1) n, of "SUNIONSTORE ok ok tk"] show ?thesis
    by (cases "rd_exec R (SUNIONSTORE ok ok tk) s") (simp add: Cache_SyncTenantBroadcastToOp_def)
qed

section \<open>Properties\<close>

text \<open>
  C7: Whatever Redis does (connection errors, lost replies, expiring keys, a flushed script cache) and
  in whatever order the operations of the unread cache run, no counter ever reads as a negative number.
\<close>
theorem unread_counters_never_negative:
  assumes "redis_faithful R" "lua_exact R" and "cache_reachable R s" and "counter_at s k = Some v"
  shows "0 \<le> v"
proof -
  from assms(3) have "nonneg s"
  proof induction
    case (ReachInit t)
    then show ?case by (simp add: nonneg_def counter_at_def)
  next
    case (ReachStep s s')
    then show ?case using cache_step_nonneg [OF _ assms(1,2)] by blast
  qed
  with assms(4) show ?thesis by (simp add: nonneg_def)
qed

theorem unread_counters_never_negative_witness:
  "\<exists>v. counter_at (snd (Cache_DecrWithFloor demo_redis ''k'' (empty_store 0))) ''k'' = Some v \<and> 0 \<le> v"
proof -
  let ?s = "snd (Cache_DecrWithFloor demo_redis ''k'' (empty_store 0))"
  have r: "cache_reachable demo_redis ?s"
    by (rule ReachStep [OF ReachInit StepDecr])
  have "counter_at (empty_store 0) ''k'' = Some 0" by (simp add: counter_at_def)
  with Cache_DecrWithFloor_up [OF demo_redis_ok(1,3)] have "counter_at ?s ''k'' = Some 0" by fastforce
  with unread_counters_never_negative [OF demo_redis_ok(2,3) r] show ?thesis by blast
qed

text \<open>The value a reader sees at a key.\<close>
definition val_at :: "rstore \<Rightarrow> bytes \<Rightarrow> rval option" where
  "val_at s k = map_option fst (alive s k)"

text \<open>While a set is being replaced: the temporary key holds nothing or the new set, the key the old value or the new set.\<close>
definition replacing :: "bytes \<Rightarrow> bytes \<Rightarrow> rval option \<Rightarrow> bytes list \<Rightarrow> rstore \<Rightarrow> bool" where
  "replacing t k old ids u =
     ((val_at u t = None \<or> val_at u t = Some (RSet (fset_of_list ids))) \<and>
      (val_at u k = old \<or> val_at u k = Some (RSet (fset_of_list ids))))"

lemma replacing_doc:
  assumes "c \<in> {EXPIRE t (600 * time_Second), RENAME t k, PERSIST k}" and u: "replacing t k old ids u"
  shows "replacing t k old ids (snd (redis_doc c u))"
proof -
  consider "c = EXPIRE t (600 * time_Second)" | "c = RENAME t k" | "c = PERSIST k" using assms(1) by blast
  then show ?thesis
  proof cases
    case 2
    then show ?thesis
    proof (cases "alive u t")
      case (Some p)
      then obtain v exp where "alive u t = Some (v, exp)" by fastforce
      then show ?thesis using u 2 alive_exp [of u t v]
        by (cases exp) (auto simp: redis_doc_def val_at_def replacing_def alive_put_exp)
    qed (use u in \<open>simp add: redis_doc_def\<close>)
  next
    case 3
    then show ?thesis using u by (cases "t = k"; cases "alive u k") (auto simp: redis_doc_def val_at_def replacing_def)
  qed (use u in \<open>cases "k = t"; cases "alive u t"; auto simp: redis_doc_def val_at_def replacing_def alive_put_exp time_Second_def\<close>)
qed

lemma replacing_pipe:
  assumes R: "redis_faithful R" and "set cs \<subseteq> {EXPIRE t (600 * time_Second), RENAME t k, PERSIST k}"
    and "replacing t k old ids u"
  shows "replacing t k old ids (snd (pipe_exec R cs u))"
  using assms(2,3)
proof (induction cs arbitrary: u)
  case (Cons c cs)
  have "c \<in> {EXPIRE t (600 * time_Second), RENAME t k, PERSIST k}" using Cons.prems(1) by simp
  from replacing_doc [OF this Cons.prems(2)] have "replacing t k old ids (snd (rd_exec R c u))"
    using faithful_state [OF R, of c u] Cons.prems(2) by metis
  from Cons.IH [OF _ this] Cons.prems(1) show ?case
    by (cases "rd_exec R c u"; cases "pipe_exec R cs (snd (rd_exec R c u))") simp
qed simp

lemma replace_visible_aux:
  assumes R: "redis_faithful R" and free: "alive s (temp_key k now) = None"
    and n: "n \<le> 4" and s': "s' = snd (pipe_exec R (take n (replace_cmds k now ids)) s)"
  shows "val_at s' k = val_at s k \<or> val_at s' k = Some (RSet (fset_of_list ids))"
proof (cases n)
  case (Suc m)
  let ?t = "temp_key k now"
  have "replacing ?t k (val_at s k) ids (snd (redis_doc (SADD ?t ids) s))"
    using free by (simp add: redis_doc_def set_at_def val_at_def replacing_def)
  then have first: "replacing ?t k (val_at s k) ids (snd (rd_exec R (SADD ?t ids) s))"
    using faithful_state [OF R, of "SADD ?t ids" s] free by (auto simp: val_at_def replacing_def)
  from replacing_pipe [OF R _ first, of "take m (tl (replace_cmds k now ids))"] set_take_subset
  show ?thesis
    by (cases "rd_exec R (SADD ?t ids) s") (fastforce simp: s' Suc replace_cmds_def replacing_def split: prod.split)
qed (simp add: s')

text \<open>
  C9: Replacing a set is atomic for readers. After every prefix of the commands of \<open>SafeReplaceSet\<close>,
  whichever of them fail, the key holds either its old value or the complete new set, never a part
  of it; the hypothesis is that the temporary key, which carries a nanosecond clock, is free.
\<close>
theorem set_replacement_atomic:
  assumes "redis_faithful R" and "alive s (temp_key k now) = None" and "n \<le> 4"
  shows "val_at (snd (pipe_exec R (take n (replace_cmds k now ids)) s)) k
           \<in> {val_at s k, Some (RSet (fset_of_list ids))} \<and>
         (ids \<noteq> [] \<longrightarrow> snd (Cache_SafeReplaceSet R now k ids s) = snd (pipe_exec R (replace_cmds k now ids) s))"
  using replace_visible_aux [OF assms refl, of ids]
  by (simp add: Cache_SafeReplaceSet_def split: prod.split)

theorem set_replacement_atomic_witness:
  "val_at (snd (pipe_exec demo_redis (take 2 (replace_cmds ''k'' 5 [''a'', ''b''])) (empty_store 0))) ''k''
     \<in> {None, Some (RSet {|''a'', ''b''|})}"
  using set_replacement_atomic [OF demo_redis_ok(2), of "empty_store 0" "''k''" 5 2 "[''a'', ''b'']"]
  by (simp add: val_at_def)

end
