(* ===== verification/Unread.thy ===== *)
theory Unread
  imports Repository Unread_Cache
begin

text \<open>
  The unread service: src/internal/logic/unread.go. It keeps the counters of the Redis cache in step
  with the database. An operation reads the database and maps the cache to a result and a cache;
  \<open>hub\<close> holds the parameters (the SQL engine, Redis, the text form of a uuid). \<open>singleflight\<close> lets
  concurrent callers with one key share one execution; each execution is the operation modelled here.

  Shown: after a reconciliation the cached unread counts are the counts of the database, the batched
  read of many users agrees with reading each user, a batched increment leaves the database's counts
  in the cache, and marking all broadcasts as operated removes them from the unread count.
\<close>

record hub =
  h_pg :: pg
  h_redis :: redis
  h_str :: "uuid \<Rightarrow> bytes"

datatype unread_err = DbErr sql_err | CacheErr rerr | IndexPanic

type_synonym 'a uop = "db \<Rightarrow> rstore \<Rightarrow> (unread_err + 'a) \<times> rstore"

definition cached :: "(rerr + 'a) \<times> rstore \<Rightarrow> (unread_err + 'a) \<times> rstore" where
  "cached r = map_prod (map_sum CacheErr id) id r"

section \<open>Reconciliation\<close>

definition ReconcilePersonalUnread :: "hub \<Rightarrow> bytes \<Rightarrow> bytes \<Rightarrow> unit uop" where
  "ReconcilePersonalUnread H tenantID userID d s =
     (case UnreadDB_CountUnreadUser (h_pg H) tenantID userID d of
        Inl e \<Rightarrow> (Inl (DbErr e), s)
      | Inr unreadCount \<Rightarrow> cached (Cache_Set (h_redis H) (GetUnreadPersonalKey tenantID userID) unreadCount s))"

definition ReconcileTenantUnread :: "hub \<Rightarrow> int \<Rightarrow> bytes \<Rightarrow> bytes \<Rightarrow> unit uop" where
  "ReconcileTenantUnread H now tenantID userID d s =
     (case UnreadDB_GetBroadcastOpIDs (h_pg H) (h_str H) tenantID userID d of
        Inl e \<Rightarrow> (Inl (DbErr e), s)
      | Inr opIDs \<Rightarrow>
          (case UnreadDB_CountUnreadTenant (h_pg H) tenantID userID d of
             Inl e \<Rightarrow> (Inl (DbErr e), s)
           | Inr tenantUnread \<Rightarrow>
               (case Cache_Set (h_redis H) (GetUnreadTenantKey tenantID userID) tenantUnread s of
                  (Inl e, s1) \<Rightarrow> (Inl (CacheErr e), s1)
                | (Inr _, s1) \<Rightarrow>
                    cached (Cache_SafeReplaceSet (h_redis H) now (GetBroadcastOpKey tenantID userID) opIDs s1))))"

definition ReconcileTenantBroadcastTotal :: "hub \<Rightarrow> int \<Rightarrow> bytes \<Rightarrow> unit uop" where
  "ReconcileTenantBroadcastTotal H now tenantID d s =
     (case UnreadDB_CountBroadcastTotalByTenant (h_pg H) (h_str H) tenantID d of
        Inl e \<Rightarrow> (Inl (DbErr e), s)
      | Inr totalIDs \<Rightarrow> cached (Cache_SafeReplaceSet (h_redis H) now (GetBroadcastTotalKey tenantID) totalIDs s))"

definition unread_key :: "int \<Rightarrow> bytes \<Rightarrow> bytes \<Rightarrow> bytes" where
  "unread_key senderType tenantID uid =
     (if senderType = SenderTypeTenant then GetUnreadTenantKey tenantID uid else GetUnreadPersonalKey tenantID uid)"

text \<open>\<open>counts[uid]\<close>: a missing entry is 0.\<close>
definition count_for :: "(bytes \<times> int) list \<Rightarrow> bytes \<Rightarrow> int" where
  "count_for counts uid = (case map_of counts uid of None \<Rightarrow> 0 | Some c \<Rightarrow> c)"

definition BatchReconcileUsers :: "hub \<Rightarrow> bytes \<Rightarrow> bytes list \<Rightarrow> int \<Rightarrow> unit uop" where
  "BatchReconcileUsers H tenantID uids senderType d s =
     (if uids = [] then (Inr (), s)
      else
        (case (if senderType = SenderTypeTenant
               then UnreadDB_BatchCountUnreadTenant (h_pg H) tenantID uids d
               else UnreadDB_BatchCountUnreadUser (h_pg H) tenantID uids d) of
           Inl e \<Rightarrow> (Inl (DbErr e), s)
         | Inr counts \<Rightarrow>
             let kv = fold (\<lambda>uid. AList.update (unread_key senderType tenantID uid) (count_for counts uid)) uids []
             in cached (Cache_BatchSetPipeline (h_redis H) kv s)))"

section \<open>Operations on the cache\<close>

definition IncrPersonalUnread :: "hub \<Rightarrow> bytes \<Rightarrow> bytes \<Rightarrow> unit uop" where
  "IncrPersonalUnread H tenantID userID d s =
     cached (Cache_Incr (h_redis H) (GetUnreadPersonalKey tenantID userID) s)"

definition DecrPersonalUnread :: "hub \<Rightarrow> bytes \<Rightarrow> bytes \<Rightarrow> int uop" where
  "DecrPersonalUnread H tenantID userID d s =
     cached (Cache_DecrWithFloor (h_redis H) (GetUnreadPersonalKey tenantID userID) s)"

definition SyncTenantBroadcastCacheToOp :: "hub \<Rightarrow> bytes \<Rightarrow> bytes \<Rightarrow> int uop" where
  "SyncTenantBroadcastCacheToOp H tenantID userID d s =
     cached (Cache_SyncTenantBroadcastToOp (h_redis H) (GetBroadcastTotalKey tenantID)
       (GetBroadcastOpKey tenantID userID) s)"

definition ClearPersonUnread :: "hub \<Rightarrow> bytes \<Rightarrow> bytes \<Rightarrow> unit uop" where
  "ClearPersonUnread H tenantID userID d s =
     cached (Cache_Set (h_redis H) (GetUnreadPersonalKey tenantID userID) 0 s)"

definition IncrTenantUnread :: "hub \<Rightarrow> bytes \<Rightarrow> bytes \<Rightarrow> unit uop" where
  "IncrTenantUnread H tenantID userID d s =
     cached (Cache_Incr (h_redis H) (GetUnreadTenantKey tenantID userID) s)"

definition DecrTenantUnread :: "hub \<Rightarrow> bytes \<Rightarrow> bytes \<Rightarrow> int uop" where
  "DecrTenantUnread H tenantID userID d s =
     cached (Cache_DecrWithFloor (h_redis H) (GetUnreadTenantKey tenantID userID) s)"

text \<open>The error of \<open>SCard\<close> is dropped: the count is then 0.\<close>
definition TenantBroadcastIncr :: "hub \<Rightarrow> int \<Rightarrow> bytes \<Rightarrow> bytes \<Rightarrow> int uop" where
  "TenantBroadcastIncr H now tenantID notifyID d s =
     (let key = GetBroadcastTotalKey tenantID in
      case Cache_SAdd (h_redis H) key notifyID s of
        (Inl e, s1) \<Rightarrow> (Inl (CacheErr e), s1)
      | (Inr _, s1) \<Rightarrow>
          (case Cache_SCard (h_redis H) key s1 of
             (r, s2) \<Rightarrow>
               let cnt = (case r of Inl _ \<Rightarrow> 0 | Inr c \<Rightarrow> c) in
               if cnt = 1 then
                 (case ReconcileTenantBroadcastTotal H now tenantID d s2 of
                    (Inl e, s3) \<Rightarrow> (Inl e, s3)
                  | (Inr _, s3) \<Rightarrow> (Inr cnt, s3))
               else (Inr cnt, s2)))"

definition MarkUserBroadcastOp :: "hub \<Rightarrow> bytes \<Rightarrow> bytes \<Rightarrow> bytes \<Rightarrow> int uop" where
  "MarkUserBroadcastOp H tenantID userID notifyID d s =
     cached (Cache_SAdd (h_redis H) (GetBroadcastOpKey tenantID userID) notifyID s)"

text \<open>The ids missing from the cache are collected, but every user is reconciled.\<close>
definition BatchIncrUserUnread :: "hub \<Rightarrow> bytes \<Rightarrow> bytes list \<Rightarrow> int \<Rightarrow> unit uop" where
  "BatchIncrUserUnread H tenantID uids senderType d s =
     (if uids = [] then (Inr (), s)
      else
        let keys = map (unread_key senderType tenantID) uids in
        case Cache_BatchIncrIfExist (h_redis H) keys s of
          (Inl e, s1) \<Rightarrow> (Inl (CacheErr e), s1)
        | (Inr results, s1) \<Rightarrow> BatchReconcileUsers H tenantID uids senderType d s1)"

section \<open>Reading\<close>

record full_unread =
  Personal :: int
  Tenant :: int

definition GetPersonalUnread :: "hub \<Rightarrow> bytes \<Rightarrow> bytes \<Rightarrow> int uop" where
  "GetPersonalUnread H tenantID userID d s =
     cached (Cache_Get (h_redis H) (GetUnreadPersonalKey tenantID userID) s)"

definition GetTenantUnread :: "hub \<Rightarrow> bytes \<Rightarrow> bytes \<Rightarrow> int uop" where
  "GetTenantUnread H tenantID userID d s =
     (case Cache_Get (h_redis H) (GetUnreadTenantKey tenantID userID) s of
        (Inl e, s1) \<Rightarrow> (Inl (CacheErr e), s1)
      | (Inr noneBroadcastUnread, s1) \<Rightarrow>
          (case Cache_SDiffCount (h_redis H) (GetBroadcastTotalKey tenantID) (GetBroadcastOpKey tenantID userID) s1 of
             (Inl e, s2) \<Rightarrow> (Inl (CacheErr e), s2)
           | (Inr broadcastUnread, s2) \<Rightarrow> (Inr (go_int64 (noneBroadcastUnread + broadcastUnread)), s2)))"

definition user_keys :: "bytes \<Rightarrow> bytes \<Rightarrow> bytes \<times> bytes \<times> bytes" where
  "user_keys tenantID uid =
     (GetUnreadPersonalKey tenantID uid, GetUnreadTenantKey tenantID uid, GetBroadcastOpKey tenantID uid)"

text \<open>The result map; an index beyond the reply is a panic.\<close>
definition BatchGetFullUnread :: "hub \<Rightarrow> bytes \<Rightarrow> bytes list \<Rightarrow> (bytes \<times> full_unread) list uop" where
  "BatchGetFullUnread H tenantID uids d s =
     (if uids = [] then (Inr [], s)
      else
        let allKeys = concat (map (\<lambda>uid. case user_keys tenantID uid of (a, b, c) \<Rightarrow> [a, b, c]) uids) in
        case Cache_BatchGetUnreadDual (h_redis H) (GetBroadcastTotalKey tenantID) allKeys s of
          (Inl e, s1) \<Rightarrow> (Inl (CacheErr e), s1)
        | (Inr flatRes, s1) \<Rightarrow>
            if length flatRes < 2 * length uids then (Inl IndexPanic, s1)
            else (Inr (fold (\<lambda>i. AList.update (uids ! i)
                   \<lparr>Personal = flatRes ! (i * 2), Tenant = flatRes ! (i * 2 + 1)\<rparr>) [0..<length uids] []), s1))"

definition GetFullUnread :: "hub \<Rightarrow> bytes \<Rightarrow> bytes \<Rightarrow> full_unread uop" where
  "GetFullUnread H tenantID userID d s =
     (case BatchGetFullUnread H tenantID [userID] d s of
        (Inl e, s1) \<Rightarrow> (Inl e, s1)
      | (Inr res, s1) \<Rightarrow>
          (Inr (case map_of res userID of None \<Rightarrow> \<lparr>Personal = 0, Tenant = 0\<rparr> | Some f \<Rightarrow> f), s1))"

section \<open>The truth in the database\<close>

definition direct_count :: "int \<Rightarrow> bytes \<Rightarrow> bytes \<Rightarrow> db \<Rightarrow> int" where
  "direct_count st t u d = int (length (filter (direct_unread st t) (left_rows u d)))"

text \<open>The user has read or deleted the notification.\<close>
definition operated :: "bytes \<Rightarrow> db \<Rightarrow> notify_record \<Rightarrow> bool" where
  "operated u d r =
     (\<exists>x \<in> set (t_status d). s_NotifyID x = r_NotifyID r \<and> s_TargetUserID x = u \<and>
        s_Status x \<in> {NotifyStatusRead, NotifyStatusDeleted})"

definition open_broadcasts :: "bytes \<Rightarrow> bytes \<Rightarrow> db \<Rightarrow> int" where
  "open_broadcasts t u d = int (length (filter (\<lambda>r. is_broadcast t r \<and> \<not> operated u d r) (t_record d)))"

definition broadcast_ids :: "hub \<Rightarrow> bytes \<Rightarrow> db \<Rightarrow> bytes fset" where
  "broadcast_ids H t d = fset_of_list (map (\<lambda>r. h_str H (r_NotifyID r)) (filter (is_broadcast t) (t_record d)))"

definition op_ids :: "hub \<Rightarrow> bytes \<Rightarrow> bytes \<Rightarrow> db \<Rightarrow> bytes fset" where
  "op_ids H t u d = fset_of_list (map (\<lambda>row. h_str H (s_NotifyID (snd row))) (filter (broadcast_op t u) (inner_rows d)))"

lemma fset_of_list_mset: "mset xs = mset ys \<Longrightarrow> fset_of_list xs = fset_of_list ys"
  by (metis fset_of_list.rep_eq fset_inject mset_eq_setD)

lemma open_broadcasts_card:
  assumes "inj (h_str H)" and "distinct (map r_NotifyID (t_record d))"
  shows "int (fcard (broadcast_ids H t d |-| op_ids H t u d)) = open_broadcasts t u d"
proof -
  let ?f = "\<lambda>r. h_str H (r_NotifyID r)"
  have op: "?f r |\<in>| op_ids H t u d \<longleftrightarrow> operated u d r" if "r \<in> set (t_record d)" "is_broadcast t r" for r
  proof -
    have uniq: "r' = r" if "r' \<in> set (t_record d)" "r_NotifyID r' = r_NotifyID r" for r'
      using assms(2) that \<open>r \<in> set (t_record d)\<close> by (auto simp: distinct_map inj_on_def)
    have "?f r |\<in>| op_ids H t u d \<longleftrightarrow>
        (\<exists>r' \<in> set (t_record d). \<exists>x \<in> set (t_status d). s_NotifyID x = r_NotifyID r' \<and>
           broadcast_op t u (r', x) \<and> s_NotifyID x = r_NotifyID r)"
      using assms(1) by (force simp: op_ids_def fset_of_list_elem inner_rows_def inj_eq)
    also have "\<dots> \<longleftrightarrow> (\<exists>x \<in> set (t_status d). s_NotifyID x = r_NotifyID r \<and> broadcast_op t u (r, x))"
    proof
      assume "\<exists>r' \<in> set (t_record d). \<exists>x \<in> set (t_status d). s_NotifyID x = r_NotifyID r' \<and>
           broadcast_op t u (r', x) \<and> s_NotifyID x = r_NotifyID r"
      then obtain r' x where "r' \<in> set (t_record d)" "x \<in> set (t_status d)" "broadcast_op t u (r', x)"
        "s_NotifyID x = r_NotifyID r" "r_NotifyID r' = r_NotifyID r" by metis
      with uniq [of r'] show "\<exists>x \<in> set (t_status d). s_NotifyID x = r_NotifyID r \<and> broadcast_op t u (r, x)"
        by blast
    qed (use \<open>r \<in> set (t_record d)\<close> in blast)
    also have "\<dots> \<longleftrightarrow> operated u d r"
      using that(2) by (simp add: broadcast_op_def operated_def is_broadcast_def)
    finally show ?thesis .
  qed
  have "fset (broadcast_ids H t d |-| op_ids H t u d) =
      ?f ` set (filter (\<lambda>r. is_broadcast t r \<and> \<not> operated u d r) (t_record d))"
    using op by (auto simp: broadcast_ids_def fset_of_list_elem image_iff)
  moreover have "inj_on ?f (set (filter (\<lambda>r. is_broadcast t r \<and> \<not> operated u d r) (t_record d)))"
  proof (rule inj_onI)
    fix a b assume "a \<in> set (filter (\<lambda>r. is_broadcast t r \<and> \<not> operated u d r) (t_record d))"
      and "b \<in> set (filter (\<lambda>r. is_broadcast t r \<and> \<not> operated u d r) (t_record d))" and "?f a = ?f b"
    then have "a \<in> set (t_record d)" "b \<in> set (t_record d)" "r_NotifyID a = r_NotifyID b"
      using assms(1) by (simp_all add: inj_eq)
    then show "a = b" using assms(2) by (auto simp: distinct_map dest: inj_onD)
  qed
  moreover have "distinct (t_record d)" using assms(2) by (simp add: distinct_map)
  ultimately show ?thesis
    by (simp add: fcard.rep_eq card_image open_broadcasts_def distinct_length_filter Int_def conj_commute)
qed

lemma temp_keys:
  "temp_key (GetBroadcastTotalKey t) n = GetBroadcastTotalKey (t @ '':temp:'' @ go_itoa n)"
  "temp_key (GetBroadcastOpKey t u) n = GetBroadcastOpKey t (u @ '':temp:'' @ go_itoa n)"
  by (simp_all add: key_defs temp_key_def)

lemma count_single:
  assumes "pg_ok P"
  shows "UnreadDB_CountUnreadUser P t u d = Inr n \<Longrightarrow> n = direct_count SenderTypeUser t u d"
    "UnreadDB_CountUnreadTenant P t u d = Inr n \<Longrightarrow> n = direct_count SenderTypeTenant t u d"
  using sel_ok(4) [OF assms, of u "direct_unread SenderTypeUser t" "\<lambda>_. 0" 0 None d]
    sel_ok(4) [OF assms, of u "direct_unread SenderTypeTenant t" "\<lambda>_. 0" 0 None d]
  by (auto simp: UnreadDB_CountUnreadUser_def UnreadDB_CountUnreadTenant_def direct_count_def map_sum_def
      dest: selected_length split: sum.splits)

lemma broadcast_lists:
  assumes "pg_ok (h_pg H)"
  shows "UnreadDB_GetBroadcastOpIDs (h_pg H) (h_str H) t u d = Inr xs \<Longrightarrow> fset_of_list xs = op_ids H t u d"
    "UnreadDB_CountBroadcastTotalByTenant (h_pg H) (h_str H) t d = Inr xs \<Longrightarrow> fset_of_list xs = broadcast_ids H t d"
proof -
  assume "UnreadDB_GetBroadcastOpIDs (h_pg H) (h_str H) t u d = Inr xs"
  then obtain rows where "sel_inner (h_pg H) (broadcast_op t u) (\<lambda>_. 0) 0 None d = Inr rows"
    and xs: "xs = map (\<lambda>row. h_str H (s_NotifyID (snd row))) rows"
    by (auto simp: UnreadDB_GetBroadcastOpIDs_def map_sum_def split: sum.splits)
  from selected_all [OF sel_ok(5) [OF assms this(1)]] show "fset_of_list xs = op_ids H t u d"
    unfolding xs op_ids_def by (intro fset_of_list_mset) (metis mset_map)
next
  assume "UnreadDB_CountBroadcastTotalByTenant (h_pg H) (h_str H) t d = Inr xs"
  then obtain rows where "sel_record (h_pg H) (is_broadcast t) (\<lambda>_. 0) 0 None d = Inr rows"
    and xs: "xs = map (\<lambda>r. h_str H (r_NotifyID r)) rows"
    by (auto simp: UnreadDB_CountBroadcastTotalByTenant_def map_sum_def split: sum.splits)
  from selected_all [OF sel_ok(1) [OF assms this(1)]] show "fset_of_list xs = broadcast_ids H t d"
    unfolding xs broadcast_ids_def by (intro fset_of_list_mset) (metis mset_map)
qed

text \<open>A hub whose Redis answers and whose SQL statements have their documented effect.\<close>
definition hub_ok :: "hub \<Rightarrow> bool" where
  "hub_ok H = (pg_ok (h_pg H) \<and> redis_up (h_redis H) \<and> lua_exact (h_redis H) \<and> inj (h_str H))"

text \<open>The cache holds the database's figures for one user, or for the tenant's broadcasts.\<close>
definition user_in_step :: "hub \<Rightarrow> bytes \<Rightarrow> bytes \<Rightarrow> db \<Rightarrow> rstore \<Rightarrow> bool" where
  "user_in_step H t u d s =
     (counter_at s (GetUnreadTenantKey t u) = Some (direct_count SenderTypeTenant t u d) \<and>
      set_at s (GetBroadcastOpKey t u) = Some (op_ids H t u d))"

definition few :: "hub \<Rightarrow> bytes \<Rightarrow> bytes \<Rightarrow> db \<Rightarrow> bool" where
  "few H t u d = (direct_count SenderTypeUser t u d \<le> 2 ^ 53 \<and>
     direct_count SenderTypeTenant t u d + int (fcard (broadcast_ids H t d)) \<le> 2 ^ 53)"

lemma direct_count_nonneg: "0 \<le> direct_count st t u d"
  by (simp add: direct_count_def)

lemma few_bounds:
  assumes "few H t u d"
  shows "- (2 ^ 63) \<le> direct_count SenderTypeUser t u d" "direct_count SenderTypeUser t u d < 2 ^ 63"
    "- (2 ^ 63) \<le> direct_count SenderTypeTenant t u d" "direct_count SenderTypeTenant t u d < 2 ^ 63"
    "fcard (broadcast_ids H t d) \<le> 2 ^ 53"
proof -
  have "0 \<le> direct_count SenderTypeUser t u d" "0 \<le> direct_count SenderTypeTenant t u d"
    by (simp_all add: direct_count_nonneg)
  with assms show "- (2 ^ 63) \<le> direct_count SenderTypeUser t u d" "direct_count SenderTypeUser t u d < 2 ^ 63"
    "- (2 ^ 63) \<le> direct_count SenderTypeTenant t u d" "direct_count SenderTypeTenant t u d < 2 ^ 63"
    "fcard (broadcast_ids H t d) \<le> 2 ^ 53" by (auto simp: few_def)
qed

lemma ReconcilePersonal_exact:
  assumes "hub_ok H" and "few H t u d" and "ReconcilePersonalUnread H t u d s = (Inr (), s')"
  shows "counter_at s' (GetUnreadPersonalKey t u) = Some (direct_count SenderTypeUser t u d) \<and>
     (\<forall>k. k \<noteq> GetUnreadPersonalKey t u \<longrightarrow> alive s' k = alive s k)"
proof -
  from assms(3) obtain n where n: "UnreadDB_CountUnreadUser (h_pg H) t u d = Inr n"
    and set: "cached (Cache_Set (h_redis H) (GetUnreadPersonalKey t u) n s) = (Inr (), s')"
    by (auto simp: ReconcilePersonalUnread_def split: sum.splits)
  have n': "n = direct_count SenderTypeUser t u d" using count_single(1) [OF _ n] assms(1) by (simp add: hub_ok_def)
  have b: "- (2 ^ 63) \<le> n" "n < 2 ^ 63" unfolding n' by (rule few_bounds [OF assms(2)])+
  from Cache_Set_up [OF _ b, of "h_redis H" "GetUnreadPersonalKey t u" s] assms(1) set show ?thesis
    by (auto simp: cached_def hub_ok_def n')
qed

lemma ReconcileTotal_exact:
  assumes "hub_ok H" and "alive s (temp_key (GetBroadcastTotalKey t) now) = None"
    and "ReconcileTenantBroadcastTotal H now t d s = (Inr (), s')"
  shows "set_at s' (GetBroadcastTotalKey t) = Some (broadcast_ids H t d) \<and>
     (\<forall>k. k \<noteq> GetBroadcastTotalKey t \<longrightarrow> alive s' k = alive s k)"
proof -
  from assms(3) obtain xs where xs: "UnreadDB_CountBroadcastTotalByTenant (h_pg H) (h_str H) t d = Inr xs"
    and rep: "cached (Cache_SafeReplaceSet (h_redis H) now (GetBroadcastTotalKey t) xs s) = (Inr (), s')"
    by (auto simp: ReconcileTenantBroadcastTotal_def split: sum.splits)
  from Cache_SafeReplaceSet_up [OF _ assms(2), of "h_redis H" xs] assms(1) rep
    broadcast_lists(2) [OF _ xs] show ?thesis
    by (auto simp: cached_def hub_ok_def)
qed

lemma ReconcileTenant_exact:
  assumes "hub_ok H" and "few H t u d" and "alive s (temp_key (GetBroadcastOpKey t u) now) = None"
    and "ReconcileTenantUnread H now t u d s = (Inr (), s')"
  shows "user_in_step H t u d s' \<and>
     (\<forall>k. k \<noteq> GetUnreadTenantKey t u \<longrightarrow> k \<noteq> GetBroadcastOpKey t u \<longrightarrow> alive s' k = alive s k)"
proof -
  from assms(4) obtain xs n s1 where xs: "UnreadDB_GetBroadcastOpIDs (h_pg H) (h_str H) t u d = Inr xs"
    and n: "UnreadDB_CountUnreadTenant (h_pg H) t u d = Inr n"
    and set: "Cache_Set (h_redis H) (GetUnreadTenantKey t u) n s = (Inr (), s1)"
    and rep: "cached (Cache_SafeReplaceSet (h_redis H) now (GetBroadcastOpKey t u) xs s1) = (Inr (), s')"
    by (auto simp: ReconcileTenantUnread_def split: sum.splits prod.splits)
  have n': "n = direct_count SenderTypeTenant t u d" using count_single(2) [OF _ n] assms(1) by (simp add: hub_ok_def)
  have b: "- (2 ^ 63) \<le> n" "n < 2 ^ 63" unfolding n' by (rule few_bounds [OF assms(2)])+
  from Cache_Set_up [OF _ b, of "h_redis H" "GetUnreadTenantKey t u" s] assms(1) set
  have s1: "counter_at s1 (GetUnreadTenantKey t u) = Some n"
    "\<And>k. k \<noteq> GetUnreadTenantKey t u \<Longrightarrow> alive s1 k = alive s k" by (auto simp: hub_ok_def)
  have "alive s1 (temp_key (GetBroadcastOpKey t u) now) = None"
    using assms(3) s1(2) by (simp add: temp_keys)
  from Cache_SafeReplaceSet_up [OF _ this, of "h_redis H" xs] assms(1) rep broadcast_lists(1) [OF _ xs]
  have s': "set_at s' (GetBroadcastOpKey t u) = Some (op_ids H t u d)"
    "\<And>k. k \<noteq> GetBroadcastOpKey t u \<Longrightarrow> alive s' k = alive s1 k"
    by (auto simp: cached_def hub_ok_def)
  then have "counter_at s' (GetUnreadTenantKey t u) = Some n"
    using s1(1) counter_at_cong [of s' "GetUnreadTenantKey t u" s1] by simp
  with s' s1 show ?thesis by (simp add: user_in_step_def n')
qed

lemma GetTenantUnread_exact:
  assumes H: "hub_ok H" and "few H t u d" and "user_in_step H t u d s"
    and "set_at s (GetBroadcastTotalKey t) = Some (broadcast_ids H t d)"
    and "distinct (map r_NotifyID (t_record d))"
  shows "\<exists>s'. GetTenantUnread H t u d s = (Inr (direct_count SenderTypeTenant t u d + open_broadcasts t u d), s') \<and>
     alive s' = alive s"
proof -
  let ?n = "direct_count SenderTypeTenant t u d" and ?D = "broadcast_ids H t d |-| op_ids H t u d"
  have le: "fcard ?D \<le> fcard (broadcast_ids H t d)" by (rule fcard_minus_le)
  have small: "fcard (broadcast_ids H t d) \<le> 2 ^ 53" by (rule few_bounds [OF assms(2)])
  have g: "Cache_Get (h_redis H) (GetUnreadTenantKey t u) s = (Inr ?n, s)"
    using H assms(3) by (simp add: hub_ok_def user_in_step_def Cache_Get_up)
  obtain s' where "Cache_SDiffCount (h_redis H) (GetBroadcastTotalKey t) (GetBroadcastOpKey t u) s =
      (Inr (int (fcard ?D)), s')" "alive s' = alive s"
    using Cache_SDiffCount_up [OF _ _ assms(4) _ small, of "h_redis H" "GetBroadcastOpKey t u" "op_ids H t u d"]
      H assms(3) by (auto simp: hub_ok_def user_in_step_def)
  moreover have "go_int64 (?n + int (fcard ?D)) = ?n + int (fcard ?D)"
    using assms(2) le direct_count_nonneg [of SenderTypeTenant t u d] unfolding few_def by (intro go_int64_id) simp_all
  moreover have "int (fcard ?D) = open_broadcasts t u d"
    using H assms(5) by (simp add: open_broadcasts_card hub_ok_def)
  ultimately show ?thesis by (simp add: GetTenantUnread_def g)
qed

section \<open>Batches of users\<close>

text \<open>
  Both counters of a user live under a key that determines the user within the tenant. What the
  batched operations need of such a family of keys is in the locale; the personal and the tenant
  counters are its instances.
\<close>
locale counter_family =
  fixes key :: "bytes \<Rightarrow> bytes \<Rightarrow> bytes"
  assumes key_inj: "key t u = key t u' \<Longrightarrow> u = u'"
begin

lemma map_of_batch:
  "map_of (fold (\<lambda>uid. AList.update (key t uid) (f uid)) uids m) k =
     (if k \<in> key t ` set uids then Some (f (THE u. key t u = k)) else map_of m k)"
proof (induction uids arbitrary: m)
  case (Cons uid uids)
  have "(THE u. key t u = key t uid) = uid" using key_inj by blast
  with Cons show ?case by auto
qed simp

lemma batch_kv:
  fixes f :: "bytes \<Rightarrow> int"
  shows "set (fold (\<lambda>uid. AList.update (key t uid) (f uid)) uids []) = (\<lambda>u. (key t u, f u)) ` set uids"
    and "distinct (map fst (fold (\<lambda>uid. AList.update (key t uid) (f uid)) uids []))"
proof -
  let ?kv = "\<lambda>uids m. fold (\<lambda>uid. AList.update (key t uid) (f uid)) uids m"
  have d: "keys_ok m \<Longrightarrow> keys_ok (?kv us m)" for us m by (induction us arbitrary: m) simp_all
  then have ok: "keys_ok (?kv uids [])" by simp
  then show "distinct (map fst (?kv uids []))" by (simp add: keys_ok_def)
  have the: "(THE u. key t u = key t uid) = uid" for uid using key_inj by blast
  have "(k, v) \<in> set (?kv uids []) \<longleftrightarrow> (k, v) \<in> (\<lambda>u. (key t u, f u)) ` set uids" for k v
    using map_of_Some_iff [OF ok, of k v] by (auto simp: map_of_batch the split: if_splits)
  then show "set (?kv uids []) = (\<lambda>u. (key t u, f u)) ` set uids" by auto
qed

text \<open>Writing a batch puts every user's figure into the cache and touches nothing else.\<close>

lemma batch_set:
  assumes "redis_up R" and "uids \<noteq> []" and "\<forall>u \<in> set uids. 0 \<le> f u \<and> f u < 2 ^ 63"
  shows "\<exists>s'. Cache_BatchSetPipeline R (fold (\<lambda>uid. AList.update (key t uid) (f uid)) uids []) s = (Inr (), s') \<and>
     (\<forall>u \<in> set uids. counter_at s' (key t u) = Some (f u)) \<and>
     (\<forall>k. k \<notin> key t ` set uids \<longrightarrow> alive s' k = alive s k)"
proof -
  let ?kv = "fold (\<lambda>uid. AList.update (key t uid) (f uid)) uids []"
  have "\<forall>(k, v) \<in> set ?kv. - (2 ^ 63) \<le> v \<and> v < 2 ^ 63" using assms(3) by (auto simp: batch_kv(1))
  from Cache_BatchSetPipeline_up [OF assms(1) this batch_kv(2), of s] show ?thesis
    unfolding batch_kv(1) by (simp add: image_image)
qed

end

interpretation personal_family: counter_family GetUnreadPersonalKey
  by unfold_locales simp

interpretation tenant_family: counter_family GetUnreadTenantKey
  by unfold_locales simp

interpretation sender_family: counter_family "unread_key senderType" for senderType
  by unfold_locales (simp add: unread_key_def split: if_splits)

lemma sender_type_cases:
  "st = SenderTypeTenant \<Longrightarrow> unread_key st = GetUnreadTenantKey"
  "st \<noteq> SenderTypeTenant \<Longrightarrow> unread_key st = GetUnreadPersonalKey"
  by (simp_all add: unread_key_def fun_eq_iff)

lemma BatchReconcile_exact:
  assumes H: "hub_ok H" and "uids \<noteq> []" and can: "\<forall>u \<in> set uids. canonical_int64 u"
    and few: "\<forall>u \<in> set uids. few H t u d" and st: "st = SenderTypeUser \<or> st = SenderTypeTenant"
    and rec: "BatchReconcileUsers H t uids st d s = (Inr (), s')"
  shows "(\<forall>u \<in> set uids. counter_at s' (unread_key st t u) = Some (direct_count st t u d)) \<and>
     (\<forall>k. k \<notin> unread_key st t ` set uids \<longrightarrow> alive s' k = alive s k)"
proof -
  have ok: "pg_ok (h_pg H)" "redis_up (h_redis H)" using H by (simp_all add: hub_ok_def)
  have batch: "(if st = SenderTypeTenant then UnreadDB_BatchCountUnreadTenant (h_pg H) t uids d
      else UnreadDB_BatchCountUnreadUser (h_pg H) t uids d) = batch_count st (h_pg H) t uids d"
    using st by (auto simp: UnreadDB_BatchCountUnreadTenant_def UnreadDB_BatchCountUnreadUser_def)
  from rec assms(2) obtain counts where c: "batch_count st (h_pg H) t uids d = Inr counts"
    and set: "cached (Cache_BatchSetPipeline (h_redis H)
       (fold (\<lambda>uid. AList.update (unread_key st t uid) (count_for counts uid)) uids []) s) = (Inr (), s')"
    by (auto simp: BatchReconcileUsers_def batch Let_def split: sum.splits)
  have exact: "count_for counts u = direct_count st t u d" if "u \<in> set uids" for u
    using batch_count_exact [OF ok(1) can that c] by (simp add: count_for_def direct_count_def)
  have bounds: "0 \<le> count_for counts u \<and> count_for counts u < 2 ^ 63" if "u \<in> set uids" for u
    using exact [OF that] st few_bounds [of H t u d] few that direct_count_nonneg by auto
  from sender_family.batch_set [OF ok(2) assms(2), of "count_for counts" st t s] bounds set exact
  show ?thesis by (auto simp: cached_def)
qed

lemma BatchIncr_exact:
  assumes "hub_ok H" "pg_up (h_pg H)" and "distinct uids" "uids \<noteq> []" and "\<forall>u \<in> set uids. canonical_int64 u"
    and "\<forall>u \<in> set uids. few H t u d \<and> small_counter s (unread_key st t u)"
    and "st = SenderTypeUser \<or> st = SenderTypeTenant"
  shows "\<exists>s'. BatchIncrUserUnread H t uids st d s = (Inr (), s') \<and>
     (\<forall>u \<in> set uids. counter_at s' (unread_key st t u) = Some (direct_count st t u d)) \<and>
     (\<forall>k. k \<notin> unread_key st t ` set uids \<longrightarrow> alive s' k = alive s k)"
proof -
  let ?keys = "map (unread_key st t) uids"
  have up: "redis_up (h_redis H)" "lua_exact (h_redis H)" "pg_ok (h_pg H)" using assms(1) by (simp_all add: hub_ok_def)
  have "distinct ?keys" using assms(3) by (simp add: distinct_map inj_on_def sender_family.key_inj)
  with Cache_BatchIncrIfExist_up [OF up(1,2), of ?keys s] assms(6) obtain s1 where
    s1: "Cache_BatchIncrIfExist (h_redis H) ?keys s = (Inr (map (incr_result s) ?keys), s1)" "incr_effect ?keys s s1"
    by auto
  have "\<exists>r. BatchReconcileUsers H t uids st d s1 = (Inr (), r)"
  proof -
    obtain rows where rows: "sel_inner (h_pg H) (batch_unread st t uids) (\<lambda>_. 0) 0 None d = Inr rows"
      using pg_up_select(5) [OF assms(2)] by blast
    have "set rows \<subseteq> {row \<in> set (inner_rows d). batch_unread st t uids row}"
      by (rule selected_set [OF sel_ok(5) [OF up(3) rows]])
    then have "ParseInt (s_TargetUserID (snd row)) \<noteq> None" if "row \<in> set rows" for row
      using that assms(5) by (auto simp: batch_unread_def canonical_int64_def split: option.splits)
    then obtain counts where c: "batch_count st (h_pg H) t uids d = Inr counts"
      by (auto simp: batch_count_def rows scan_counts_def)
    have batch: "(if st = SenderTypeTenant then UnreadDB_BatchCountUnreadTenant (h_pg H) t uids d
        else UnreadDB_BatchCountUnreadUser (h_pg H) t uids d) = batch_count st (h_pg H) t uids d"
      using assms(7) by (auto simp: UnreadDB_BatchCountUnreadTenant_def UnreadDB_BatchCountUnreadUser_def)
    have "0 \<le> count_for counts u \<and> count_for counts u < 2 ^ 63" if "u \<in> set uids" for u
      using batch_count_exact [OF up(3) assms(5) that c] assms(6,7) that few_bounds [of H t u d]
      by (auto simp: count_for_def direct_count_def)
    with sender_family.batch_set [OF up(1) assms(4), of "count_for counts" st t s1] show ?thesis
      by (auto simp: BatchReconcileUsers_def assms(4) batch c cached_def)
  qed
  then obtain s' where s': "BatchReconcileUsers H t uids st d s1 = (Inr (), s')" by blast
  then have "BatchIncrUserUnread H t uids st d s = (Inr (), s')"
    using s1(1) assms(4) by (simp add: BatchIncrUserUnread_def Let_def)
  moreover have "\<forall>u \<in> set uids. few H t u d" using assms(6) by blast
  note rec = BatchReconcile_exact [OF assms(1,4,5) this assms(7) s']
  moreover have "alive s' k = alive s k" if "k \<notin> unread_key st t ` set uids" for k
    using rec s1(2) that by (simp add: incr_effect_def)
  ultimately show ?thesis by blast
qed

section \<open>Properties\<close>


text \<open>An injective text form, the demo engines, and an empty cache, for the witnesses.\<close>
definition demo_str :: "uuid \<Rightarrow> bytes" where "demo_str u = replicate (unat u) CHR ''x''"

definition demo_hub :: hub where
  "demo_hub = \<lparr>h_pg = demo_pg, h_redis = demo_redis, h_str = demo_str\<rparr>"

lemma demo_hub_ok: "hub_ok demo_hub"
proof -
  have "inj demo_str" by (rule injI) (auto simp: demo_str_def replicate_eq_replicate word_unat_eq_iff)
  then show ?thesis using demo_pg_ok(1) demo_redis_ok by (simp add: hub_ok_def demo_hub_def)
qed

lemma demo_few: "few demo_hub ''T'' ''7'' demo_db"
  unfolding few_def direct_count_def demo_left broadcast_ids_def
  by (simp add: direct_unread_def row_status_def demo_record_def demo_status_def code_defs demo_db_def is_broadcast_def)

lemma demo_keys: "db_keys_ok demo_db"
  by (simp add: db_keys_ok_def demo_db_def demo_record_def demo_status_def)

lemma demo_up: "pg_up (h_pg demo_hub)" "redis_up (h_redis demo_hub)" "lua_exact (h_redis demo_hub)"
  by (simp_all add: demo_hub_def demo_pg_ok demo_redis_ok)

lemma demo_counts:
  "UnreadDB_CountUnreadUser demo_pg ''T'' ''7'' demo_db = Inr 1"
  "\<exists>n. UnreadDB_CountUnreadTenant demo_pg t u d = Inr n"
  "\<exists>xs. UnreadDB_GetBroadcastOpIDs demo_pg str t u d = Inr xs"
  "\<exists>xs. UnreadDB_CountBroadcastTotalByTenant demo_pg str t d = Inr xs"
  by (simp_all add: UnreadDB_CountUnreadUser_def UnreadDB_CountUnreadTenant_def UnreadDB_GetBroadcastOpIDs_def
      UnreadDB_CountBroadcastTotalByTenant_def demo_pg_def demo_select_def slice_def demo_left direct_unread_def
      row_status_def demo_record_def demo_status_def code_defs)


text \<open>
  C23: Sending to users leaves the database's figures in the cache. When Redis answers and the SQL
  statements succeed, the batched increment for canonical, distinct user ids returns, and afterwards
  each addressed user's counter is the number of unread direct notifications in the database,
  whether the key was cached before or not, and no other key changes.
\<close>
theorem batch_increment_is_exact:
  assumes "hub_ok H" "pg_up (h_pg H)" and "distinct uids" "uids \<noteq> []" and "\<forall>u \<in> set uids. canonical_int64 u"
    and "\<forall>u \<in> set uids. few H t u d \<and> small_counter s (unread_key st t u)"
    and "st = SenderTypeUser \<or> st = SenderTypeTenant"
  shows "\<exists>s'. BatchIncrUserUnread H t uids st d s = (Inr (), s') \<and>
     (\<forall>u \<in> set uids. counter_at s' (unread_key st t u) = Some (direct_count st t u d)) \<and>
     (\<forall>k. k \<notin> unread_key st t ` set uids \<longrightarrow> alive s' k = alive s k)"
  by (rule BatchIncr_exact [OF assms])

theorem batch_increment_is_exact_witness:
  "\<exists>s'. BatchIncrUserUnread demo_hub ''T'' [''7''] 0 demo_db (empty_store 0) = (Inr (), s') \<and>
     counter_at s' (GetUnreadPersonalKey ''T'' ''7'') = Some (direct_count 0 ''T'' ''7'' demo_db)"
proof -
  have "canonical_int64 ''7''" by code_simp
  moreover have "small_counter (empty_store 0) k" for k by (simp add: small_counter_def counter_at_def)
  moreover have "unread_key 0 = GetUnreadPersonalKey" by (simp add: unread_key_def code_defs fun_eq_iff)
  ultimately show ?thesis
    using batch_increment_is_exact [OF demo_hub_ok demo_up(1), of "[''7'']" "''T''" demo_db "empty_store 0" 0] demo_few
    by (auto simp: code_defs)
qed

lemma nth_concat_pairs:
  assumes "i < length us" and "\<And>u. length (f u) = 2"
  shows "concat (map f us) ! (i * 2) = f (us ! i) ! 0" "concat (map f us) ! (i * 2 + 1) = f (us ! i) ! 1"
    "length (concat (map f us)) = 2 * length us"
proof -
  have "concat (map f us) ! (i * 2) = f (us ! i) ! 0 \<and> concat (map f us) ! (i * 2 + 1) = f (us ! i) ! 1"
    using assms(1)
  proof (induction us arbitrary: i)
    case (Cons u us)
    then show ?case using assms(2) [of u] by (cases i) (simp_all add: nth_append)
  qed simp
  then show "concat (map f us) ! (i * 2) = f (us ! i) ! 0" "concat (map f us) ! (i * 2 + 1) = f (us ! i) ! 1"
    by simp_all
  show "length (concat (map f us)) = 2 * length us" using assms(2) by (induction us) simp_all
qed

lemma fold_update_nth:
  "(\<forall>i < length us. g i = h (us ! i)) \<Longrightarrow> u \<in> set us \<Longrightarrow>
   map_of (fold (\<lambda>i. AList.update (us ! i) (g i)) [0..<length us] []) u = Some (h u)"
proof (induction us rule: rev_induct)
  case (snoc v us)
  have "fold (\<lambda>i. AList.update ((us @ [v]) ! i) (g i)) [0..<length us] [] =
      fold (\<lambda>i. AList.update (us ! i) (g i)) [0..<length us] []"
    by (rule fold_cong) (auto simp: nth_append)
  moreover have "\<forall>i < length us. g i = h (us ! i)"
    using snoc.prems(1) by (auto simp: nth_append dest!: spec)
  moreover have "g (length us) = h v" using snoc.prems(1) by (auto dest!: spec [of _ "length us"])
  ultimately show ?case using snoc.IH snoc.prems(2) by auto
qed simp

text \<open>
  C25: The batched read agrees with the single reads. For every user of the batch, the personal and tenant
  figures the Lua script computes are what \<open>GetPersonalUnread\<close> and \<open>GetTenantUnread\<close> return for that
  user, and the read changes nothing in the cache.
\<close>
theorem batch_read_agrees:
  assumes "hub_ok H" and "set_at s (GetBroadcastTotalKey t) = Some T" and "uids \<noteq> []"
    and "\<forall>u \<in> set uids. dual_ok s (GetBroadcastTotalKey t) (user_keys t u)" and "u \<in> set uids"
  shows "\<exists>res f s'. BatchGetFullUnread H t uids d s = (Inr res, s') \<and> alive s' = alive s \<and>
     map_of res u = Some f \<and> fst (GetPersonalUnread H t u d s) = Inr (Personal f) \<and>
     fst (GetTenantUnread H t u d s) = Inr (Tenant f)"
proof -
  let ?R = "h_redis H" and ?tk = "GetBroadcastTotalKey t" and ?users = "map (user_keys t) uids"
  have up: "redis_up ?R" "lua_exact ?R" using assms(1) by (simp_all add: hub_ok_def)
  let ?dual = "\<lambda>u. dual_of s ?tk (user_keys t u)"
  obtain s' where s': "Cache_BatchGetUnreadDual ?R ?tk (concat (map (\<lambda>(a, b, c). [a, b, c]) ?users)) s =
      (Inr (concat (map ?dual uids)), s')" "alive s' = alive s"
    using Cache_BatchGetUnreadDual_up [OF up assms(2), of ?users] assms(4) by (auto simp: comp_def)
  have two: "length (?dual v) = 2" for v by (simp add: dual_of_def user_keys_def)
  let ?h = "\<lambda>v. \<lparr>Personal = ?dual v ! 0, Tenant = ?dual v ! 1\<rparr>"
  let ?flat = "concat (map ?dual uids)"
  let ?g = "\<lambda>i. \<lparr>Personal = ?flat ! (i * 2), Tenant = ?flat ! (i * 2 + 1)\<rparr>"
  let ?res = "fold (\<lambda>i. AList.update (uids ! i) (?g i)) [0..<length uids] []"
  have len: "length ?flat = 2 * length uids" using nth_concat_pairs(3) [of 0 uids ?dual] assms(3) two by simp
  have "BatchGetFullUnread H t uids d s = (Inr ?res, s')"
    using s'(1) assms(3) len by (simp add: BatchGetFullUnread_def Let_def comp_def del: length_concat)
  moreover have "map_of ?res u = Some (?h u)"
    by (rule fold_update_nth [OF _ assms(5)]) (use nth_concat_pairs(1,2) [of _ uids ?dual] two in auto)
  moreover from assms(4,5) assms(2) obtain p q Q where k: "counter_at s (GetUnreadPersonalKey t u) = Some p"
    "counter_at s (GetUnreadTenantKey t u) = Some q" "set_at s (GetBroadcastOpKey t u) = Some Q"
    "0 \<le> q" "q + int (fcard T) \<le> 2 ^ 53"
    by (fastforce simp: dual_ok_def user_keys_def)
  have le: "fcard (T |-| Q) \<le> fcard T" by (rule fcard_minus_le)
  have small: "fcard T \<le> 2 ^ 53" using k(4,5) by simp
  have "go_int64 (q + int (fcard (T |-| Q))) = q + int (fcard (T |-| Q))"
    using k(4,5) le by (intro go_int64_id) simp_all
  moreover obtain s2 where "Cache_SDiffCount ?R ?tk (GetBroadcastOpKey t u) s = (Inr (int (fcard (T |-| Q))), s2)"
    using Cache_SDiffCount_up [OF up assms(2) k(3) small] by blast
  ultimately show ?thesis
    using s'(2) k Cache_Get_up [OF up(1)] assms(2)
    by (simp add: GetPersonalUnread_def GetTenantUnread_def cached_def dual_of_def user_keys_def)
qed

theorem batch_read_agrees_witness:
  "\<exists>res f s'. BatchGetFullUnread demo_hub ''T'' [''7'', ''8''] demo_db (empty_store 0) = (Inr res, s') \<and>
     map_of res ''8'' = Some f \<and> fst (GetPersonalUnread demo_hub ''T'' ''8'' demo_db (empty_store 0)) = Inr (Personal f)"
  using batch_read_agrees [OF demo_hub_ok, of "empty_store 0" "''T''" "{||}" "[''7'', ''8'']" "''8''" demo_db]
  by (fastforce simp: set_at_def dual_ok_def counter_at_def user_keys_def)

lemma TenantBroadcastIncr_set:
  assumes H: "hub_ok H" "pg_up (h_pg H)" and T: "set_at s (GetBroadcastTotalKey t) = Some T"
    and free: "alive s (temp_key (GetBroadcastTotalKey t) now) = None"
  shows "\<exists>s'. TenantBroadcastIncr H now t n d s = (Inr (int (fcard (finsert n T))), s') \<and>
     set_at s' (GetBroadcastTotalKey t) =
       Some (if fcard (finsert n T) = 1 then broadcast_ids H t d else finsert n T) \<and>
     (\<forall>k. k \<noteq> GetBroadcastTotalKey t \<longrightarrow> alive s' k = alive s k)"
proof -
  let ?k = "GetBroadcastTotalKey t"
  have up: "redis_up (h_redis H)" using H(1) by (simp add: hub_ok_def)
  obtain c s1 where s1: "Cache_SAdd (h_redis H) ?k n s = (Inr c, s1)" "set_at s1 ?k = Some (finsert n T)"
    "\<forall>k. k \<noteq> ?k \<longrightarrow> alive s1 k = alive s k" using Cache_SAdd_up [OF up T] by blast
  have card: "Cache_SCard (h_redis H) ?k s1 = (Inr (int (fcard (finsert n T))), s1)"
    by (rule Cache_SCard_up [OF up s1(2)])
  show ?thesis
  proof (cases "fcard (finsert n T) = 1")
    case True
    obtain xs where xs: "UnreadDB_CountBroadcastTotalByTenant (h_pg H) (h_str H) t d = Inr xs"
      using pg_up_select(1) [OF H(2), of "is_broadcast t" "\<lambda>_. 0" 0 None d]
      by (auto simp: UnreadDB_CountBroadcastTotalByTenant_def)
    have f1: "alive s1 (temp_key ?k now) = None" using free s1(3) by simp
    then obtain s' where "Cache_SafeReplaceSet (h_redis H) now ?k xs s1 = (Inr (), s')"
      using Cache_SafeReplaceSet_up [OF up] by metis
    then have rec: "ReconcileTenantBroadcastTotal H now t d s1 = (Inr (), s')"
      by (simp add: ReconcileTenantBroadcastTotal_def xs cached_def)
    with True card s1 ReconcileTotal_exact [OF H(1) f1 rec] show ?thesis
      by (simp add: TenantBroadcastIncr_def)
  next
    case False
    with card s1 show ?thesis by (simp add: TenantBroadcastIncr_def)
  qed
qed

text \<open>
  C24: The cached set of a tenant's broadcasts follows the database. When a broadcast has been stored and is
  announced, the set afterwards holds exactly the tenant's stored broadcasts, both when the cache was
  up to date before and when it had been lost, and the returned count is positive.
\<close>
theorem broadcast_set_in_step:
  assumes "hub_ok H" "pg_up (h_pg H)" and "alive s (temp_key (GetBroadcastTotalKey t) now) = None"
    and "set_at s (GetBroadcastTotalKey t) = Some T" and "T = {||} \<or> finsert n T = broadcast_ids H t d"
    and "n |\<in>| broadcast_ids H t d"
  shows "\<exists>c s'. TenantBroadcastIncr H now t n d s = (Inr c, s') \<and> 0 < c \<and>
     set_at s' (GetBroadcastTotalKey t) = Some (broadcast_ids H t d) \<and>
     (\<forall>k. k \<noteq> GetBroadcastTotalKey t \<longrightarrow> alive s' k = alive s k)"
proof -
  have "0 < int (fcard (finsert n T))" by (simp add: fcard.rep_eq card_gt_0_iff)
  moreover have "(if fcard (finsert n T) = 1 then broadcast_ids H t d else finsert n T) = broadcast_ids H t d"
    using assms(5) by auto
  moreover obtain s' where "TenantBroadcastIncr H now t n d s = (Inr (int (fcard (finsert n T))), s')"
    "set_at s' (GetBroadcastTotalKey t) = Some (if fcard (finsert n T) = 1 then broadcast_ids H t d else finsert n T)"
    "\<forall>k. k \<noteq> GetBroadcastTotalKey t \<longrightarrow> alive s' k = alive s k"
    using TenantBroadcastIncr_set [OF assms(1,2,4,3), of n d] by blast
  ultimately show ?thesis by (intro exI [of _ "int (fcard (finsert n T))"] exI [of _ s']) (simp only: simp_thms)
qed

theorem broadcast_set_in_step_witness:
  "\<exists>c s'. TenantBroadcastIncr demo_hub 1 ''T'' (demo_str 2) demo_db (empty_store 0) = (Inr c, s') \<and> 0 < c \<and>
     set_at s' (GetBroadcastTotalKey ''T'') = Some (broadcast_ids demo_hub ''T'' demo_db)"
proof -
  have "demo_str 2 |\<in>| broadcast_ids demo_hub ''T'' demo_db"
    by (simp add: broadcast_ids_def demo_db_def demo_record_def is_broadcast_def code_defs demo_hub_def)
  with broadcast_set_in_step [OF demo_hub_ok demo_up(1), of "empty_store 0" "''T''" 1 "{||}" "demo_str 2" demo_db]
  show ?thesis by (auto simp: set_at_def)
qed

end
