(* ===== verification/Dispatch.thy ===== *)
theory Dispatch
  imports Conn_Pool
begin

text \<open>
  Message dispatch: src/internal/dispatch (dispatcher.go, broker.go, broker_local.go and
  broker_cluster_redis.go).

  A \<open>Broker\<close> is an interface with two implementations, a buffered Go channel (\<open>LocalBroker\<close>) and
  Redis Pub/Sub (\<open>RedisBroker\<close>). The locale \<open>broker\<close> states what the dispatcher relies on: an
  accepted message goes to the end of the queue, a refused one changes nothing, and receiving takes
  the oldest message. Both queues of the code are interpretations. Redis itself and the JSON codec
  of \<open>Message\<close> are arguments.

  \<open>Dispatcher_process\<close> writes a message's payload to the connections of its target. Shown: it
  delivers to exactly the target's connections, once per addressee, in order and within the channel
  capacity, it touches no connection of another tenant or user, and it never panics.
\<close>

section \<open>Messages and brokers\<close>

record message =
  m_TraceID :: bytes
  m_TenantID :: bytes
  m_TargetType :: int
  m_TargetIDs :: "bytes list"
  m_Payload :: bytes

record local_broker =
  lb_ch :: "message list"
  lb_buffer :: nat

definition NewLocalBroker :: "nat \<Rightarrow> local_broker" where
  "NewLocalBroker buffer = \<lparr>lb_ch = [], lb_buffer = buffer\<rparr>"

text \<open>\<open>None\<close> is the error "local queue full".\<close>
definition LocalBroker_Publish :: "message \<Rightarrow> local_broker \<Rightarrow> local_broker option" where
  "LocalBroker_Publish msg b =
     (if length (lb_ch b) < lb_buffer b then Some (b\<lparr>lb_ch := lb_ch b @ [msg]\<rparr>) else None)"

text \<open>A receive from the channel \<open>Subscribe\<close> returns; \<open>None\<close> when it would block.\<close>
definition LocalBroker_Subscribe :: "local_broker \<Rightarrow> (message \<times> local_broker) option" where
  "LocalBroker_Subscribe b =
     (case lb_ch b of [] \<Rightarrow> None | m # ms \<Rightarrow> Some (m, b\<lparr>lb_ch := ms\<rparr>))"

definition defaultRedisDispatchChannel :: bytes where
  "defaultRedisDispatchChannel = ''notify_hub_dispatch''"

definition outChan_capacity :: nat where
  "outChan_capacity = 1000"

record redis_broker =
  rb_channel :: bytes
  rb_outChan :: "message list"
  rb_cancelled :: bool

definition NewRedisBroker :: redis_broker where
  "NewRedisBroker =
     \<lparr>rb_channel = defaultRedisDispatchChannel, rb_outChan = [], rb_cancelled = False\<rparr>"

text \<open>
  \<open>marshal\<close> is \<open>json.Marshal\<close> on messages, \<open>publish ch data\<close> the PUBLISH command: \<open>None\<close> is an error.
\<close>
definition RedisBroker_Publish ::
  "(message \<Rightarrow> bytes option) \<Rightarrow> (bytes \<Rightarrow> bytes \<Rightarrow> unit option) \<Rightarrow> redis_broker \<Rightarrow> message \<Rightarrow> unit option" where
  "RedisBroker_Publish marshal publish b msg =
     (case marshal msg of
        None \<Rightarrow> None
      | Some data \<Rightarrow> publish (rb_channel b) data)"

text \<open>The non-blocking send into \<open>outChan\<close>: \<open>None\<close> when the channel is full and the message dropped.\<close>
definition RedisBroker_offer :: "message \<Rightarrow> redis_broker \<Rightarrow> redis_broker option" where
  "RedisBroker_offer m b =
     (if length (rb_outChan b) < outChan_capacity then Some (b\<lparr>rb_outChan := rb_outChan b @ [m]\<rparr>)
      else None)"

definition RedisBroker_Subscribe :: "redis_broker \<Rightarrow> (message \<times> redis_broker) option" where
  "RedisBroker_Subscribe b =
     (case rb_outChan b of [] \<Rightarrow> None | m # ms \<Rightarrow> Some (m, b\<lparr>rb_outChan := ms\<rparr>))"

text \<open>What the consumer's \<open>select\<close> can see: a payload from Redis, or its channel closed.\<close>
datatype sub_msg = SubPayload bytes | SubClosed

datatype consume_end = Cancelled | ErrClosed | StillOpen

definition consume_payload ::
  "(bytes \<Rightarrow> message option) \<Rightarrow> bytes \<Rightarrow> redis_broker \<Rightarrow> redis_broker" where
  "consume_payload unmarshal payload b =
     (case unmarshal payload of
        None \<Rightarrow> b
      | Some m \<Rightarrow> (case RedisBroker_offer m b of Some b' \<Rightarrow> b' | None \<Rightarrow> b))"

text \<open>One subscription: it ends when the context is cancelled or the Redis channel closes.\<close>
fun consumeOnce ::
  "(bytes \<Rightarrow> message option) \<Rightarrow> sub_msg list \<Rightarrow> redis_broker \<Rightarrow> consume_end \<times> sub_msg list \<times> redis_broker" where
  "consumeOnce unmarshal [] b = (if rb_cancelled b then (Cancelled, [], b) else (StillOpen, [], b))"
| "consumeOnce unmarshal (SubClosed # rest) b =
     (if rb_cancelled b then (Cancelled, SubClosed # rest, b) else (ErrClosed, rest, b))"
| "consumeOnce unmarshal (SubPayload payload # rest) b =
     (if rb_cancelled b then (Cancelled, SubPayload payload # rest, b)
      else consumeOnce unmarshal rest (consume_payload unmarshal payload b))"

lemma consumeOnce_shrinks:
  "(ErrClosed, rest, b') = consumeOnce unmarshal msgs b \<Longrightarrow> length rest < length msgs"
  by (induction unmarshal msgs b rule: consumeOnce.induct) (auto split: if_splits)

text \<open>
  The retry loop around it: a closed subscription is opened again (after a pause), a cancelled
  context ends the loop. The recursion is on what Redis still delivers.
\<close>
function consumeLoop ::
  "(bytes \<Rightarrow> message option) \<Rightarrow> sub_msg list \<Rightarrow> redis_broker \<Rightarrow> consume_end \<times> redis_broker" where
  "consumeLoop unmarshal msgs b =
     (case consumeOnce unmarshal msgs b of
        (Cancelled, _, b') \<Rightarrow> (Cancelled, b')
      | (StillOpen, _, b') \<Rightarrow> (StillOpen, b')
      | (ErrClosed, rest, b') \<Rightarrow> consumeLoop unmarshal rest b')"
  by pat_completeness auto
termination
  by (relation "measure (\<lambda>(_, msgs, _). length msgs)") (auto dest: consumeOnce_shrinks)

declare consumeLoop.simps [simp del]

definition RedisBroker_Close :: "redis_broker \<Rightarrow> redis_broker" where
  "RedisBroker_Close b = b\<lparr>rb_cancelled := True\<rparr>"

section \<open>The dispatcher\<close>

type_synonym hub_pool = "hub_conn pool"

definition Dispatcher_Join :: "bytes \<Rightarrow> bytes \<Rightarrow> bytes \<Rightarrow> conn_ref \<Rightarrow> hub_pool \<Rightarrow> hub_pool" where
  "Dispatcher_Join groupName userID connID conn p =
     Manager_Register HubSSEConnection_Close groupName userID connID conn p"

definition Dispatcher_Leave :: "bytes \<Rightarrow> bytes \<Rightarrow> bytes \<Rightarrow> conn_ref option \<Rightarrow> hub_pool \<Rightarrow> hub_pool" where
  "Dispatcher_Leave groupName userID connID conn p =
     Manager_Unregister HubSSEConnection_Close groupName userID connID conn p"

definition TransmitMessage :: "(message \<Rightarrow> 'b \<Rightarrow> 'b option) \<Rightarrow> message \<Rightarrow> 'b \<Rightarrow> 'b option" where
  "TransmitMessage publish msg b = publish msg b"

text \<open>The dispatcher's read-only views; \<open>None\<close> is a dispatcher without a pool.\<close>
definition Dispatcher_ConnectionCount :: "hub_pool option \<Rightarrow> nat" where
  "Dispatcher_ConnectionCount connPool = (case connPool of None \<Rightarrow> 0 | Some p \<Rightarrow> Manager_Count p)"

definition Dispatcher_OnlineGroupCount :: "hub_pool option \<Rightarrow> nat" where
  "Dispatcher_OnlineGroupCount connPool = (case connPool of None \<Rightarrow> 0 | Some p \<Rightarrow> Manager_GroupCount p)"

definition Dispatcher_OnlineUserCount :: "hub_pool option \<Rightarrow> nat" where
  "Dispatcher_OnlineUserCount connPool = (case connPool of None \<Rightarrow> 0 | Some p \<Rightarrow> Manager_UserCount p)"

definition Dispatcher_GroupStats :: "hub_pool option \<Rightarrow> (bytes \<times> nat \<times> nat) list" where
  "Dispatcher_GroupStats connPool = (case connPool of None \<Rightarrow> [] | Some p \<Rightarrow> Manager_GroupStats p)"

definition Dispatcher_GetOnlineUserIDs :: "hub_pool option \<Rightarrow> bytes \<Rightarrow> bytes list" where
  "Dispatcher_GetOnlineUserIDs connPool tenantID =
     (case connPool of None \<Rightarrow> [] | Some p \<Rightarrow> Manager_GetOnlineUserIDs p tenantID)"

text \<open>\<open>_ = conn.Write(data)\<close>: the error is dropped, a panic is not.\<close>
definition write_conn :: "codec \<Rightarrow> bytes \<Rightarrow> conn_ref \<Rightarrow> bool \<times> hub_pool \<Rightarrow> bool \<times> hub_pool" where
  "write_conn C data r = (\<lambda>(panic, p).
     case HubSSEConnection_Write C (conns p r) (RawMessage data) of
       (out, cn) \<Rightarrow> (panic \<or> out = WritePanic, p\<lparr>conns := (conns p)(r := cn)\<rparr>))"

definition Dispatcher_process :: "codec \<Rightarrow> message \<Rightarrow> bool \<times> hub_pool \<Rightarrow> bool \<times> hub_pool" where
  "Dispatcher_process C msg st =
     (let data = m_Payload msg in
      if m_TargetType msg = TargetSingle \<or> m_TargetType msg = TargetMultiple then
        fold (\<lambda>userID st.
                fold (\<lambda>(_, conn). write_conn C data conn)
                  (Manager_RangeUser (snd st) (m_TenantID msg) userID) st)
          (m_TargetIDs msg) st
      else if m_TargetType msg = TargetBroadcast then
        fold (\<lambda>(_, _, conn). write_conn C data conn) (Manager_RangeGroup (snd st) (m_TenantID msg)) st
      else st)"

text \<open>\<open>n\<close> rounds of \<open>for msg := range d.broker.Subscribe()\<close>; a round with nothing to receive waits.\<close>
primrec Dispatcher_run ::
  "('b \<Rightarrow> (message \<times> 'b) option) \<Rightarrow> codec \<Rightarrow> nat \<Rightarrow> 'b \<times> bool \<times> hub_pool \<Rightarrow> 'b \<times> bool \<times> hub_pool" where
  "Dispatcher_run recv C 0 st = st"
| "Dispatcher_run recv C (Suc n) st =
     (case recv (fst st) of
        None \<Rightarrow> st
      | Some (msg, b') \<Rightarrow> Dispatcher_run recv C n (b', Dispatcher_process C msg (snd st)))"

section \<open>Brokers as queues\<close>

locale broker =
  fixes publish :: "message \<Rightarrow> 'b \<Rightarrow> 'b option"
    and receive :: "'b \<Rightarrow> (message \<times> 'b) option"
    and pending :: "'b \<Rightarrow> message list"
  assumes publish_accepts: "publish m b = Some b' \<Longrightarrow> pending b' = pending b @ [m]"
    and receive_oldest: "receive b = Some (m, b') \<Longrightarrow> pending b = m # pending b'"
    and receive_blocks: "receive b = None \<Longrightarrow> pending b = []"
begin

text \<open>With enough rounds the loop processes what is pending, oldest first, and nothing else.\<close>

lemma run_processes_pending:
  "length (pending b) \<le> n \<Longrightarrow>
   \<exists>b'. pending b' = [] \<and>
     Dispatcher_run receive C n (b, st) = (b', fold (Dispatcher_process C) (pending b) st)"
proof (induction n arbitrary: b st)
  case 0
  then show ?case by (intro exI [of _ b]) simp
next
  case (Suc n)
  show ?case
  proof (cases "receive b")
    case None
    then show ?thesis by (intro exI [of _ b]) (simp add: receive_blocks)
  next
    case (Some mb)
    obtain m b1 where mb: "mb = (m, b1)" by fastforce
    with Some have p: "pending b = m # pending b1" by (simp add: receive_oldest)
    with Suc.prems have "length (pending b1) \<le> n" by simp
    from Suc.IH [OF this, of "Dispatcher_process C m st"] Some show ?thesis by (auto simp: p mb)
  qed
qed

lemma publish_then_run:
  assumes "publish m b = Some b'" and "length (pending b) < n"
  shows "\<exists>b''. pending b'' = [] \<and>
    Dispatcher_run receive C n (b', st) =
      (b'', Dispatcher_process C m (fold (Dispatcher_process C) (pending b) st))"
  using run_processes_pending [of b' n C st] publish_accepts [OF assms(1)] assms(2) by simp

end

interpretation local_queue: broker LocalBroker_Publish LocalBroker_Subscribe lb_ch
  by unfold_locales
    (auto simp: LocalBroker_Publish_def LocalBroker_Subscribe_def split: if_splits list.splits)

interpretation redis_queue: broker RedisBroker_offer RedisBroker_Subscribe rb_outChan
  by unfold_locales
    (auto simp: RedisBroker_offer_def RedisBroker_Subscribe_def split: if_splits list.splits)

section \<open>Delivery\<close>

text \<open>Every channel holds at most its capacity: an invariant of the type of Go's channels.\<close>
definition chans_bounded :: "hub_pool \<Rightarrow> bool" where
  "chans_bounded p = (\<forall>r. length (MessageChan (conns p r)) \<le> chan_capacity)"

text \<open>A connection after \<open>n\<close> deliveries of \<open>m\<close>: what does not fit into the channel is dropped.\<close>
definition delivered :: "internal_msg \<Rightarrow> nat \<Rightarrow> hub_conn \<Rightarrow> hub_conn" where
  "delivered m n cn =
     cn\<lparr>MessageChan := take chan_capacity (MessageChan cn @ replicate n m)\<rparr>"

text \<open>How often a message is addressed to a user of a tenant.\<close>
definition addressed :: "message \<Rightarrow> bytes \<Rightarrow> bytes \<Rightarrow> nat" where
  "addressed msg t u =
     (if t \<noteq> m_TenantID msg then 0
      else if m_TargetType msg = TargetSingle \<or> m_TargetType msg = TargetMultiple
      then count_list (m_TargetIDs msg) u
      else if m_TargetType msg = TargetBroadcast then 1 else 0)"

definition recipients :: "hub_pool \<Rightarrow> message \<Rightarrow> conn_ref list" where
  "recipients p msg =
     (if m_TargetType msg = TargetSingle \<or> m_TargetType msg = TargetMultiple
      then concat (map (\<lambda>u. map snd (Manager_RangeUser p (m_TenantID msg) u)) (m_TargetIDs msg))
      else if m_TargetType msg = TargetBroadcast
      then map (\<lambda>(_, _, r). r) (Manager_RangeGroup p (m_TenantID msg))
      else [])"

lemma delivered_0: "length (MessageChan cn) \<le> chan_capacity \<Longrightarrow> delivered m 0 cn = cn"
  by (simp add: delivered_def)

lemma delivered_Suc: "delivered m n (delivered m 1 cn) = delivered m (Suc n) cn"
proof -
  have "(MessageChan cn @ [m]) @ replicate n m = MessageChan cn @ replicate (Suc n) m"
    by simp
  then show ?thesis unfolding delivered_def by (simp add: take_take_append del: take_append)
qed

lemma write_delivers:
  assumes "sonic_Unmarshal C data = Some m" and "hub_open (conns p r)" and "chans_bounded p"
  shows "write_conn C data r (b, p) = (b, p\<lparr>conns := (conns p)(r := delivered m 1 (conns p r))\<rparr>)"
  using assms
  by (auto simp: write_conn_def HubSSEConnection_Write_def hub_open_def delivered_def
      chans_bounded_def not_less order_antisym)

lemma delivered_open [simp]: "hub_open (delivered m n cn) = hub_open cn"
  by (simp add: hub_open_def delivered_def)

lemma delivered_bound [simp]: "length (MessageChan (delivered m n cn)) \<le> chan_capacity"
  by (simp add: delivered_def)

lemma fold_write_delivers:
  assumes m: "sonic_Unmarshal C data = Some m"
    and "\<forall>r \<in> set rs. hub_open (conns p r)" and "chans_bounded p"
  shows "fold (write_conn C data) rs (b, p) =
    (b, p\<lparr>conns := (\<lambda>r. delivered m (count_list rs r) (conns p r))\<rparr>)"
  using assms(2,3)
proof (induction rs arbitrary: p)
  case Nil
  then show ?case by (simp add: chans_bounded_def delivered_0)
next
  case (Cons r rs)
  let ?p1 = "p\<lparr>conns := (conns p)(r := delivered m 1 (conns p r))\<rparr>"
  have w: "write_conn C data r (b, p) = (b, ?p1)"
    using Cons.prems m by (intro write_delivers) simp_all
  have "fold (write_conn C data) rs (b, ?p1) =
      (b, ?p1\<lparr>conns := (\<lambda>r'. delivered m (count_list rs r') (conns ?p1 r'))\<rparr>)"
    using Cons.prems by (intro Cons.IH) (auto simp: chans_bounded_def)
  moreover have "(\<lambda>r'. delivered m (count_list rs r') (conns ?p1 r')) =
      (\<lambda>r'. delivered m (count_list (r # rs) r') (conns p r'))"
    by (auto simp: fun_eq_iff delivered_Suc [unfolded One_nat_def])
  ultimately show ?case by (simp add: w)
qed

text \<open>Writing changes connections only, so a range still sees the same entries.\<close>

lemma range_conns_irrelevant [simp]:
  "Manager_RangeUser (p\<lparr>conns := h\<rparr>) t u = Manager_RangeUser p t u"
  "Manager_RangeGroup (p\<lparr>conns := h\<rparr>) t = Manager_RangeGroup p t"
  "pool_lookup (p\<lparr>conns := h\<rparr>) t u c = pool_lookup p t u c"
  "pool_inv (p\<lparr>conns := h\<rparr>) = pool_inv p"
  by (auto simp: Manager_RangeUser_def Manager_RangeGroup_def getGroup_def pool_lookup_def
      pool_inv_def split: option.splits)

lemma RangeUser_fold_write:
  "Manager_RangeUser (snd (fold (write_conn C data) rs st)) t u = Manager_RangeUser (snd st) t u"
  by (induction rs arbitrary: st) (auto simp: write_conn_def split: prod.splits)

lemma process_is_fold:
  "Dispatcher_process C msg st = fold (write_conn C (m_Payload msg)) (recipients (snd st) msg) st"
proof -
  let ?f = "\<lambda>u st. fold (\<lambda>(_, conn). write_conn C (m_Payload msg) conn)
      (Manager_RangeUser (snd st) (m_TenantID msg) u) st"
  have one: "?f u st = fold (write_conn C (m_Payload msg))
      (map snd (Manager_RangeUser (snd st) (m_TenantID msg) u)) st" for u st
    by (simp add: fold_map comp_def case_prod_beta')
  have "fold ?f us st = fold (write_conn C (m_Payload msg))
      (concat (map (\<lambda>u. map snd (Manager_RangeUser (snd st) (m_TenantID msg) u)) us)) st" for us
  proof (induction us arbitrary: st)
    case Nil
    then show ?case by simp
  next
    case (Cons u us)
    then show ?case by (simp add: one RangeUser_fold_write)
  qed
  then show ?thesis
    by (simp add: Dispatcher_process_def recipients_def Let_def fold_map comp_def case_prod_beta')
qed

lemma count_list_distinct: "distinct xs \<Longrightarrow> count_list xs x = (if x \<in> set xs then 1 else 0)"
  by (induction xs) auto

lemma count_RangeUser:
  assumes inv: "pool_inv p" and opn: "conns_open op p" and lk: "pool_lookup p t u c = Some r"
  shows "count_list (map snd (Manager_RangeUser p t' u')) r = (if t' = t \<and> u' = u then 1 else 0)"
proof -
  have "inj_on snd (set (Manager_RangeUser p t' u'))"
    using conns_open_unique [OF opn] by (auto simp: set_RangeUser [OF inv] inj_on_def)
  moreover have "distinct (Manager_RangeUser p t' u')"
    using distinct_RangeUser [OF inv] by (simp add: distinct_map)
  ultimately have "distinct (map snd (Manager_RangeUser p t' u'))" by (simp add: distinct_map)
  moreover have "r \<in> set (map snd (Manager_RangeUser p t' u')) \<longleftrightarrow> t' = t \<and> u' = u"
  proof -
    have "r \<in> set (map snd (Manager_RangeUser p t' u')) \<longleftrightarrow> (\<exists>c'. pool_lookup p t' u' c' = Some r)"
      by (force simp: set_RangeUser [OF inv])
    then show ?thesis using lk conns_open_unique [OF opn lk] by blast
  qed
  ultimately show ?thesis by (simp only: count_list_distinct)
qed

lemma distinct_RangeGroup:
  assumes "pool_inv p"
  shows "distinct (Manager_RangeGroup p t)"
proof (cases "map_of (groups p) t")
  case None
  then show ?thesis by (simp add: Manager_RangeGroup_def getGroup_def)
next
  case (Some g)
  have gi: "group_inv (group_heap p g)" by (rule pool_inv_group [OF assms])
  have "distinct (concat (map (\<lambda>(u, cl). map (\<lambda>(c, r). (u, c, r)) cl) us))"
    if "distinct (map fst us)" and "\<forall>(u, cl) \<in> set us. distinct (map fst cl)" for us :: "(bytes \<times> user_clients) list"
    using that by (induction us) (auto simp: distinct_map inj_on_def rev_image_eqI)
  with gi Some show ?thesis
    by (simp add: Manager_RangeGroup_def getGroup_def group_inv_def keys_ok_def case_prod_beta')
qed

lemma count_RangeGroup:
  assumes inv: "pool_inv p" and opn: "conns_open op p" and lk: "pool_lookup p t u c = Some r"
  shows "count_list (map (\<lambda>(_, _, r). r) (Manager_RangeGroup p t')) r = (if t' = t then 1 else 0)"
proof -
  have "inj_on (\<lambda>(_, _, r). r) (set (Manager_RangeGroup p t'))"
    using conns_open_unique [OF opn] by (auto simp: set_RangeGroup [OF inv] inj_on_def)
  with distinct_RangeGroup [OF inv]
  have "distinct (map (\<lambda>(_, _, r). r) (Manager_RangeGroup p t'))" by (simp add: distinct_map)
  moreover have "r \<in> set (map (\<lambda>(_, _, r). r) (Manager_RangeGroup p t')) \<longleftrightarrow> t' = t"
  proof -
    have "r \<in> set (map (\<lambda>(_, _, r). r) (Manager_RangeGroup p t')) \<longleftrightarrow>
        (\<exists>u' c'. pool_lookup p t' u' c' = Some r)"
      by (force simp: set_RangeGroup [OF inv])
    then show ?thesis using lk conns_open_unique [OF opn lk] by blast
  qed
  ultimately show ?thesis by (simp only: count_list_distinct)
qed

lemma count_concat: "count_list (concat (map f us)) r = sum_list (map (\<lambda>u. count_list (f u) r) us)"
  by (induction us) simp_all

lemma count_as_sum: "sum_list (map (\<lambda>u'. if u' = u then 1 else 0) us) = count_list us u"
  by (induction us) auto

lemma count_recipients:
  assumes "pool_inv p" and "conns_open op p" and "pool_lookup p t u c = Some r"
  shows "count_list (recipients p msg) r = addressed msg t u"
proof -
  have "count_list (concat (map (\<lambda>u. map snd (Manager_RangeUser p (m_TenantID msg) u)) us)) r =
      (if m_TenantID msg = t then count_list us u else 0)" for us
    by (simp add: count_concat count_RangeUser [OF assms] count_as_sum)
  then show ?thesis
    by (auto simp: recipients_def addressed_def count_RangeGroup [OF assms])
qed

lemma set_recipients:
  "pool_inv p \<Longrightarrow> r \<in> set (recipients p msg) \<Longrightarrow>
   \<exists>u c. pool_lookup p (m_TenantID msg) u c = Some r"
  by (auto simp: recipients_def set_RangeUser set_RangeGroup split: if_splits; blast)

lemma recipients_open:
  "pool_inv p \<Longrightarrow> conns_open hub_open p \<Longrightarrow> r \<in> set (recipients p msg) \<Longrightarrow> hub_open (conns p r)"
  by (blast dest: set_recipients conns_openD)

text \<open>The connections after a message and after a sequence of messages that can be decoded.\<close>

lemma recipients_conns [simp]: "recipients (p\<lparr>conns := h\<rparr>) msg = recipients p msg"
  by (simp add: recipients_def)

lemma process_exact:
  assumes "pool_inv p" and "conns_open hub_open p" and "chans_bounded p" and "sonic_Unmarshal C (m_Payload msg) = Some m"
  shows "Dispatcher_process C msg (b, p) =
     (b, p\<lparr>conns := \<lambda>r. delivered m (count_list (recipients p msg) r) (conns p r)\<rparr>)"
  using fold_write_delivers [OF assms(4), of "recipients p msg" p b] recipients_open [OF assms(1,2)] assms(3)
  by (simp add: process_is_fold)

definition deliveries :: "codec \<Rightarrow> hub_pool \<Rightarrow> message list \<Rightarrow> conn_ref \<Rightarrow> internal_msg list" where
  "deliveries C p msgs r =
     concat (map (\<lambda>msg. replicate (count_list (recipients p msg) r) (the (sonic_Unmarshal C (m_Payload msg)))) msgs)"

lemma deliveries_conns [simp]: "deliveries C (p\<lparr>conns := h\<rparr>) = deliveries C p"
  by (simp add: deliveries_def fun_eq_iff)

lemma fold_process_exact:
  assumes "pool_inv p" and "conns_open hub_open p" and "chans_bounded p"
    and "\<forall>msg \<in> set msgs. sonic_Unmarshal C (m_Payload msg) \<noteq> None"
  shows "fold (Dispatcher_process C) msgs (b, p) =
     (b, p\<lparr>conns := \<lambda>r. (conns p r)\<lparr>MessageChan := take chan_capacity (MessageChan (conns p r) @ deliveries C p msgs r)\<rparr>\<rparr>)"
  using assms
proof (induction msgs arbitrary: p)
  case Nil
  then show ?case by (simp add: deliveries_def chans_bounded_def)
next
  case (Cons msg msgs)
  then obtain m where m: "sonic_Unmarshal C (m_Payload msg) = Some m" by auto
  let ?h = "\<lambda>r. delivered m (count_list (recipients p msg) r) (conns p r)"
  have one: "Dispatcher_process C msg (b, p) = (b, p\<lparr>conns := ?h\<rparr>)" by (rule process_exact) (use Cons.prems m in simp_all)
  have "conns_open hub_open (p\<lparr>conns := ?h\<rparr>)" using Cons.prems(2) by (simp add: conns_open_def)
  then have "fold (Dispatcher_process C) msgs (b, p\<lparr>conns := ?h\<rparr>) =
     (b, p\<lparr>conns := \<lambda>r. (?h r)\<lparr>MessageChan := take chan_capacity (MessageChan (?h r) @ deliveries C p msgs r)\<rparr>\<rparr>)"
    using Cons.IH [of "p\<lparr>conns := ?h\<rparr>"] Cons.prems by (simp add: chans_bounded_def)
  moreover have "deliveries C p (msg # msgs) r = replicate (count_list (recipients p msg) r) m @ deliveries C p msgs r" for r
    by (simp add: deliveries_def m)
  ultimately show ?case
    by (simp add: one delivered_def take_take_append del: take_append flip: append_assoc)
qed

section \<open>Properties\<close>

text \<open>
  C1: Delivery. When the payload decodes to a message \<open>m\<close>, processing appends \<open>m\<close> to the channel of
  every connection registered for a tenant and user exactly as often as the message addresses that
  user (once for a broadcast to the tenant, once per occurrence among the target ids, never for
  another tenant), dropping only what exceeds the channel's capacity. A connection that is not
  registered is unchanged, the registry is unchanged and no write panics.
\<close>
theorem process_delivers_to_target:
  assumes "pool_inv p" and "conns_open hub_open p" and "chans_bounded p"
    and "sonic_Unmarshal C (m_Payload msg) = Some m"
  shows "\<exists>h. Dispatcher_process C msg (b, p) = (b, p\<lparr>conns := h\<rparr>) \<and>
     (\<forall>t u c r. pool_lookup p t u c = Some r \<longrightarrow> h r = delivered m (addressed msg t u) (conns p r)) \<and>
     (\<forall>r. \<not> registered p r \<longrightarrow> h r = conns p r)"
proof (intro exI conjI allI impI)
  let ?h = "\<lambda>r. delivered m (count_list (recipients p msg) r) (conns p r)"
  show "Dispatcher_process C msg (b, p) = (b, p\<lparr>conns := ?h\<rparr>)"
    by (rule process_exact [OF assms])
  show "?h r = delivered m (addressed msg t u) (conns p r)"
    if "pool_lookup p t u c = Some r" for t u c r
    by (simp add: count_recipients [OF assms(1,2) that])
  show "?h r = conns p r" if "\<not> registered p r" for r
  proof -
    from that set_recipients [OF assms(1)] have "r \<notin> set (recipients p msg)"
      by (fastforce simp: registered_def)
    then show ?thesis using assms(3) by (simp add: chans_bounded_def delivered_0 count_list_0_iff)
  qed
qed

text \<open>A pool with one open connection and a codec that decodes every payload, for the witnesses.\<close>
definition demo_codec :: codec where
  "demo_codec =
     \<lparr>json_Marshal = \<lambda>m. Some (msg_Type m),
      sonic_Unmarshal = \<lambda>b. Some \<lparr>msg_Type = b, msg_Data = JNull\<rparr>,
      json_Time = \<lambda>t. ''t''\<rparr>"

definition pool_of_one :: "bytes \<Rightarrow> bytes \<Rightarrow> bytes \<Rightarrow> conn_ref \<Rightarrow> hub_pool" where
  "pool_of_one t u c r = Dispatcher_Join t u c r (NewManager (\<lambda>_. new_hub_conn))"

lemma pool_of_one_ok:
  "pool_inv (pool_of_one t u c r)" "conns_open hub_open (pool_of_one t u c r)" "chans_bounded (pool_of_one t u c r)"
  "pool_lookup (pool_of_one t u c r) t u c = Some r" "conns (pool_of_one t u c r) = (\<lambda>_. new_hub_conn)"
proof -
  let ?p = "NewManager (\<lambda>_. new_hub_conn)"
  have none: "pool_lookup ?p t' u' c' = None" for t' u' c'
    by (simp add: pool_lookup_def NewManager_def)
  have op: "conns_open hub_open ?p" by (simp add: conns_open_def none)
  have free: "\<not> registered ?p r" by (simp add: registered_def none)
  have new: "hub_open (conns ?p r)" by (simp add: NewManager_def hub_open_def new_hub_conn_def)
  show "pool_inv (pool_of_one t u c r)"
    by (simp add: pool_of_one_def Dispatcher_Join_def pool_inv_Register)
  show "conns_open hub_open (pool_of_one t u c r)"
    unfolding pool_of_one_def Dispatcher_Join_def
    by (rule sse.join_keeps_open [OF pool_inv_New op free new])
  have cs: "conns (pool_of_one t u c r) = (\<lambda>_. new_hub_conn)"
    unfolding pool_of_one_def Dispatcher_Join_def conns_Register [OF pool_inv_New] none
    by (simp add: NewManager_def)
  then show "conns (pool_of_one t u c r) = (\<lambda>_. new_hub_conn)" "chans_bounded (pool_of_one t u c r)"
    by (simp_all add: chans_bounded_def new_hub_conn_def)
  show "pool_lookup (pool_of_one t u c r) t u c = Some r"
    by (simp add: pool_of_one_def Dispatcher_Join_def pool_lookup_Register)
qed

definition demo_pool :: hub_pool where
  "demo_pool = pool_of_one ''T'' ''U'' ''c'' 7"

lemma demo_pool_ok:
  "pool_inv demo_pool" "conns_open hub_open demo_pool" "chans_bounded demo_pool"
  "pool_lookup demo_pool ''T'' ''U'' ''c'' = Some 7" "conns demo_pool 7 = new_hub_conn"
  by (simp_all add: demo_pool_def pool_of_one_ok)

definition demo_msg :: message where
  "demo_msg = \<lparr>m_TraceID = '''', m_TenantID = ''T'', m_TargetType = TargetMultiple,
     m_TargetIDs = [''U'', ''V''], m_Payload = ''hi''\<rparr>"

theorem process_delivers_to_target_witness:
  "MessageChan (conns (snd (Dispatcher_process demo_codec demo_msg (False, demo_pool))) 7)
     = [\<lparr>msg_Type = ''hi'', msg_Data = JNull\<rparr>]"
proof -
  have dec: "sonic_Unmarshal demo_codec (m_Payload demo_msg) = Some \<lparr>msg_Type = ''hi'', msg_Data = JNull\<rparr>"
    by (simp add: demo_codec_def demo_msg_def)
  have one: "addressed demo_msg ''T'' ''U'' = 1"
    by (simp add: addressed_def demo_msg_def TargetSingle_def TargetMultiple_def)
  show ?thesis
    using process_delivers_to_target [OF demo_pool_ok(1-3) dec, of False] demo_pool_ok(4,5) one
    by (fastforce simp: delivered_def new_hub_conn_def chan_capacity_def)
qed

text \<open>
  Order and back-pressure of the local queue. \<open>Publish\<close> fails exactly when the queue is full; a
  message it accepts is processed by the dispatch loop after everything queued before it, each once
  and in publishing order, and the loop then waits on an empty queue.
\<close>
lemma local_dispatch_in_order:
  assumes "length (lb_ch b) < lb_buffer b" and "length (lb_ch b) < n"
  shows "\<exists>b' b''. TransmitMessage LocalBroker_Publish m b = Some b' \<and> lb_ch b'' = [] \<and>
     Dispatcher_run LocalBroker_Subscribe C n (b', st) =
       (b'', Dispatcher_process C m (fold (Dispatcher_process C) (lb_ch b) st))"
proof -
  have "LocalBroker_Publish m b = Some (b\<lparr>lb_ch := lb_ch b @ [m]\<rparr>)"
    using assms(1) by (simp add: LocalBroker_Publish_def)
  with local_queue.publish_then_run [OF this assms(2)] show ?thesis
    unfolding TransmitMessage_def by blast
qed

lemma local_dispatch_in_order_example:
  "\<exists>b' b''. TransmitMessage LocalBroker_Publish demo_msg (NewLocalBroker 1000) = Some b' \<and> lb_ch b'' = [] \<and>
     Dispatcher_run LocalBroker_Subscribe demo_codec 1 (b', (False, demo_pool)) =
       (b'', Dispatcher_process demo_codec demo_msg (False, demo_pool))"
  using local_dispatch_in_order [of "NewLocalBroker 1000" 1 demo_msg demo_codec "(False, demo_pool)"]
  by (simp add: NewLocalBroker_def)

text \<open>The messages a Redis consumer can decode from what it receives.\<close>
fun decoded :: "(bytes \<Rightarrow> message option) \<Rightarrow> sub_msg list \<Rightarrow> message list" where
  "decoded unmarshal [] = []"
| "decoded unmarshal (SubClosed # rest) = decoded unmarshal rest"
| "decoded unmarshal (SubPayload payload # rest) =
     (case unmarshal payload of None \<Rightarrow> [] | Some m \<Rightarrow> [m]) @ decoded unmarshal rest"

definition received :: "redis_broker \<Rightarrow> message list \<Rightarrow> redis_broker" where
  "received b ms = b\<lparr>rb_outChan := take outChan_capacity (rb_outChan b @ ms)\<rparr>"

lemma received_received: "received (received b ms) ms' = received b (ms @ ms')"
  by (simp add: received_def take_take_append del: take_append flip: append_assoc)

lemma received_frame [simp]:
  "rb_cancelled (received b ms) = rb_cancelled b"
  "length (rb_outChan (received b ms)) \<le> outChan_capacity"
  by (simp_all add: received_def)

lemma consume_payload_received:
  "length (rb_outChan b) \<le> outChan_capacity \<Longrightarrow>
   consume_payload unmarshal payload b =
     received b (case unmarshal payload of None \<Rightarrow> [] | Some m \<Rightarrow> [m])"
  by (auto simp: consume_payload_def RedisBroker_offer_def received_def split: option.split)

lemma consumeOnce_received:
  assumes "\<not> rb_cancelled b" and "length (rb_outChan b) \<le> outChan_capacity"
  shows "\<exists>e rest b'. consumeOnce unmarshal msgs b = (e, rest, b') \<and> e \<noteq> Cancelled \<and>
     (e = StillOpen \<longrightarrow> rest = []) \<and>
     received b' (decoded unmarshal rest) = received b (decoded unmarshal msgs) \<and>
     \<not> rb_cancelled b' \<and> length (rb_outChan b') \<le> outChan_capacity"
  using assms
proof (induction unmarshal msgs b rule: consumeOnce.induct)
  case (3 unmarshal payload rest b)
  then show ?case by (simp add: consume_payload_received received_received)
qed simp_all

lemma received_Nil: "length (rb_outChan b) \<le> outChan_capacity \<Longrightarrow> received b [] = b"
  by (simp add: received_def)

text \<open>
  C15: The cluster consumer. Until it is closed, the consumer survives every closed subscription, puts
  each message it can decode into the out channel in arrival order, skips what it cannot decode, and
  drops exactly what does not fit into the channel's capacity of 1000.
\<close>
theorem redis_consumer_keeps_order:
  assumes "\<not> rb_cancelled b" and "length (rb_outChan b) \<le> outChan_capacity"
  shows "consumeLoop unmarshal msgs b =
     (StillOpen, b\<lparr>rb_outChan := take outChan_capacity (rb_outChan b @ decoded unmarshal msgs)\<rparr>)"
proof -
  have "consumeLoop unmarshal msgs b = (StillOpen, received b (decoded unmarshal msgs))"
    using assms
  proof (induction unmarshal msgs b rule: consumeLoop.induct)
    case (1 unmarshal msgs b)
    from consumeOnce_received [OF 1(2,3), of unmarshal msgs] obtain e rest b' where
      one: "consumeOnce unmarshal msgs b = (e, rest, b')" "e \<noteq> Cancelled" "e = StillOpen \<longrightarrow> rest = []"
        "received b' (decoded unmarshal rest) = received b (decoded unmarshal msgs)"
      and b': "\<not> rb_cancelled b'" "length (rb_outChan b') \<le> outChan_capacity" by blast
    show ?case
    proof (cases e)
      case ErrClosed
      with 1(1) one(1) b' have "consumeLoop unmarshal rest b' = (StillOpen, received b' (decoded unmarshal rest))"
        by simp
      with one ErrClosed show ?thesis by (subst consumeLoop.simps) simp
    next
      case StillOpen
      with one received_Nil [OF b'(2)] show ?thesis by (subst consumeLoop.simps) simp
    qed (use one in simp)
  qed
  then show ?thesis by (simp add: received_def)
qed

theorem redis_consumer_keeps_order_witness:
  "consumeLoop (\<lambda>p. if p = ''bad'' then None else Some demo_msg)
     [SubPayload ''x'', SubClosed, SubPayload ''bad'', SubPayload ''y''] NewRedisBroker =
   (StillOpen, NewRedisBroker\<lparr>rb_outChan := [demo_msg, demo_msg]\<rparr>)"
  using redis_consumer_keeps_order [of NewRedisBroker]
  by (simp add: NewRedisBroker_def outChan_capacity_def)

end
