(* ===== verification/Sender.thy ===== *)
theory Sender
  imports Unread Dispatch Conf
begin

text \<open>
  Sending: src/internal/service/sender.go (validation, storing) and src/internal/logic/sender.go
  (counting and pushing).

  The state of the hub is \<open>world\<close>: the database, the Redis cache, the broker, the connection pool and
  the goroutines that have been started and not yet run (\<open>hw_jobs\<close>). \<open>transmit\<close> stores the
  notification in one transaction and starts a goroutine; \<open>SendNotify_body\<close> is that goroutine. The
  timeouts of contexts are not modelled. \<open>sender\<close> holds the parameters: the hub's engines, the JSON
  codec and the broker's \<open>Publish\<close>.

  Shown: what validation accepts, that a send is all or nothing in the database, what it stores, that
  the stored notification never carries the expiry the response announces, when the announced
  expiry is the requested one, and that the goroutine queues every addressee's exact unread count and
  then the notification, in this order.
\<close>

datatype job =
    JobSendNotify notify_record
  | JobBatchOp bytes bytes int
  | JobOnceOp notify_record bytes

record 'b world =
  hw_db :: db
  hw_cache :: rstore
  hw_broker :: 'b
  hw_pool :: hub_pool
  hw_jobs :: "job list"

record 'b sender =
  sd_hub :: hub
  sd_codec :: codec
  sd_publish :: "message \<Rightarrow> 'b \<Rightarrow> 'b option"
  sd_trace :: bytes

section \<open>Pushing\<close>

text \<open>A failed \<open>json.Marshal\<close> is logged and the nil payload sent; a failed \<open>Publish\<close> is logged.\<close>
definition Sender_message :: "'b sender \<Rightarrow> bytes \<Rightarrow> int \<Rightarrow> bytes list \<Rightarrow> internal_msg \<Rightarrow> message" where
  "Sender_message S tenantID targetType targetIDs msg =
     \<lparr>m_TraceID = sd_trace S, m_TenantID = tenantID, m_TargetType = targetType, m_TargetIDs = targetIDs,
      m_Payload = (case json_Marshal (sd_codec S) msg of None \<Rightarrow> [] | Some b \<Rightarrow> b)\<rparr>"

definition Sender_send :: "'b sender \<Rightarrow> bytes \<Rightarrow> int \<Rightarrow> bytes list \<Rightarrow> internal_msg \<Rightarrow> 'b world \<Rightarrow> 'b world" where
  "Sender_send S tenantID targetType targetIDs msg w =
     (case TransmitMessage (sd_publish S) (Sender_message S tenantID targetType targetIDs msg) (hw_broker w) of
        None \<Rightarrow> w
      | Some b \<Rightarrow> w\<lparr>hw_broker := b\<rparr>)"

definition SendTenantUnread :: "'b sender \<Rightarrow> bytes \<Rightarrow> bytes \<Rightarrow> int \<Rightarrow> 'b world \<Rightarrow> 'b world" where
  "SendTenantUnread S tenantID userId unread w =
     Sender_send S tenantID TargetSingle [userId] \<lparr>msg_Type = TenantUnreadMsg, msg_Data = JNum unread\<rparr> w"

definition SendPersonalUnread :: "'b sender \<Rightarrow> bytes \<Rightarrow> bytes \<Rightarrow> int \<Rightarrow> 'b world \<Rightarrow> 'b world" where
  "SendPersonalUnread S tenantID userId unread w =
     Sender_send S tenantID TargetSingle [userId] \<lparr>msg_Type = PersonalUnreadMsg, msg_Data = JNum unread\<rparr> w"

text \<open>Run an unread operation against the world's database and cache.\<close>
definition on_cache :: "'a uop \<Rightarrow> 'b world \<Rightarrow> (unread_err + 'a) \<times> 'b world" where
  "on_cache f w = (case f (hw_db w) (hw_cache w) of (r, s) \<Rightarrow> (r, w\<lparr>hw_cache := s\<rparr>))"

definition push_tenant_unread :: "'b sender \<Rightarrow> bytes \<Rightarrow> bytes \<Rightarrow> 'b world \<Rightarrow> 'b world" where
  "push_tenant_unread S tenantID userID w =
     (case on_cache (GetTenantUnread (sd_hub S) tenantID userID) w of
        (Inl _, w1) \<Rightarrow> w1
      | (Inr unread, w1) \<Rightarrow> SendTenantUnread S tenantID userID unread w1)"

definition push_personal_unread :: "'b sender \<Rightarrow> bytes \<Rightarrow> bytes \<Rightarrow> 'b world \<Rightarrow> 'b world" where
  "push_personal_unread S tenantID userID w =
     (case on_cache (GetPersonalUnread (sd_hub S) tenantID userID) w of
        (Inl _, w1) \<Rightarrow> w1
      | (Inr unread, w1) \<Rightarrow> SendPersonalUnread S tenantID userID unread w1)"

definition sendUnread :: "'b sender \<Rightarrow> notify_record \<Rightarrow> 'b world \<Rightarrow> 'b world" where
  "sendUnread S record w =
     (if r_TargetType record = TargetBroadcast then
        fold (push_tenant_unread S (r_TenantID record))
          (Dispatcher_GetOnlineUserIDs (Some (hw_pool w)) (r_TenantID record)) w
      else if r_SenderType record = SenderTypeUser then
        fold (push_personal_unread S (r_TenantID record)) (r_TargetIDs record) w
      else fold (push_tenant_unread S (r_TenantID record)) (r_TargetIDs record) w)"

definition notify_data :: "'b sender \<Rightarrow> notify_record \<Rightarrow> notify_msg_data" where
  "notify_data S record =
     \<lparr>nd_NotifyID = h_str (sd_hub S) (r_NotifyID record), nd_Title = r_Title record,
      nd_Content = r_Content record, nd_TenantID = r_TenantID record, nd_SenderID = r_SenderID record,
      nd_SenderType = r_SenderType record, nd_TargetIDs = r_TargetIDs record,
      nd_EventType = r_EventType record, nd_ExpireTime = r_ExpireAt record\<rparr>"

definition notify_msg :: "'b sender \<Rightarrow> notify_record \<Rightarrow> internal_msg" where
  "notify_msg S record =
     \<lparr>msg_Type = NotifyMsg, msg_Data = NotifyMsgData_json (sd_codec S) (notify_data S record)\<rparr>"

text \<open>The goroutine of \<open>SendNotify\<close>; errors of the counting step are logged. \<open>now\<close> names the temporary key.\<close>
definition SendNotify_body :: "'b sender \<Rightarrow> int \<Rightarrow> notify_record \<Rightarrow> 'b world \<Rightarrow> 'b world" where
  "SendNotify_body S now record w =
     (let notifyID = h_str (sd_hub S) (r_NotifyID record);
          w1 = (if r_TargetType record = TargetBroadcast
                then snd (on_cache (TenantBroadcastIncr (sd_hub S) now (r_TenantID record) notifyID) w)
                else snd (on_cache (BatchIncrUserUnread (sd_hub S) (r_TenantID record) (r_TargetIDs record)
                            (r_SenderType record)) w));
          w2 = sendUnread S record w1
      in if r_TargetType record = TargetBroadcast
         then Sender_send S (r_TenantID record) TargetBroadcast [] (notify_msg S record) w2
         else Sender_send S (r_TenantID record) TargetSingle (r_TargetIDs record) (notify_msg S record) w2)"

definition SendNotify :: "notify_record \<Rightarrow> 'b world \<Rightarrow> 'b world" where
  "SendNotify record w = w\<lparr>hw_jobs := hw_jobs w @ [JobSendNotify record]\<rparr>"

section \<open>The send service\<close>

record send_prop =
  p_Title :: bytes
  p_Content :: bytes
  p_TenantID :: bytes
  p_SenderID :: bytes
  p_SenderType :: int
  p_EventType :: bytes
  p_TTLSeconds :: "int option"
  p_TargetType :: int
  p_TargetIDs :: "bytes list"

record send_result =
  res_NotifyID :: bytes
  res_ExpireTime :: "time option"
  res_TTLSeconds :: int

definition validateSenderType :: "int \<Rightarrow> bool" where
  "validateSenderType senderType = (senderType = SenderTypeUser \<or> senderType = SenderTypeTenant)"

definition validateSendProp :: "send_prop \<Rightarrow> code_error option" where
  "validateSendProp prop =
     (if p_TenantID prop = [] then Some (NewCodeError BadRequest MsgTenantRequired)
      else if \<not> validateSenderType (p_SenderType prop) then Some (NewCodeError BadRequest MsgSenderType)
      else if (case p_TTLSeconds prop of None \<Rightarrow> False | Some ttl \<Rightarrow> ttl < 0)
      then Some (NewCodeError BadRequest MsgTTLNegative)
      else if p_TargetType prop = TargetSingle then
        (if length (p_TargetIDs prop) \<noteq> 1 \<or> p_TargetIDs prop ! 0 = []
         then Some (NewCodeError BadRequest MsgSingleTarget) else None)
      else if p_TargetType prop = TargetMultiple then
        (if length (p_TargetIDs prop) = 0 then Some (NewCodeError BadRequest MsgMultipleTarget) else None)
      else if p_TargetType prop = TargetBroadcast then
        (if length (p_TargetIDs prop) \<noteq> 0 then Some (NewCodeError BadRequest MsgBroadcastTarget) else None)
      else None)"

definition resolveTTLSeconds :: "system_config \<Rightarrow> send_prop \<Rightarrow> code_error + int" where
  "resolveTTLSeconds cfg prop =
     (case p_TTLSeconds prop of
        Some ttl \<Rightarrow> Inr ttl
      | None \<Rightarrow>
          if p_SenderType prop = SenderTypeUser then
            (if UserNotifyTTLSeconds cfg < 0 then Inl (NewCodeError InternalError MsgDefaultTTLNegative)
             else Inr (UserNotifyTTLSeconds cfg))
          else if p_SenderType prop = SenderTypeTenant then
            (if TenantNotifyTTLSeconds cfg < 0 then Inl (NewCodeError InternalError MsgDefaultTTLNegative)
             else Inr (TenantNotifyTTLSeconds cfg))
          else Inl (NewCodeError BadRequest MsgSenderTypeInvalid))"

definition resolveExpireTime :: "time \<Rightarrow> int \<Rightarrow> time option" where
  "resolveExpireTime now ttlSeconds =
     (if ttlSeconds = 0 then None else Some (now + go_int64 (ttlSeconds * time_Second)))"

text \<open>The record \<open>transmit\<close> builds; \<open>expireAt\<close> is declared and never assigned.\<close>
definition prop_record :: "send_prop \<Rightarrow> notify_record" where
  "prop_record prop =
     \<lparr>r_NotifyID = uuid_Nil, r_Title = p_Title prop, r_Content = p_Content prop,
      r_TargetType = go_int8 (p_TargetType prop), r_SenderType = p_SenderType prop,
      r_SenderID = p_SenderID prop, r_EventType = p_EventType prop, r_TenantID = p_TenantID prop,
      r_TargetIDs = (if p_TargetType prop = TargetBroadcast then [] else p_TargetIDs prop),
      r_ExpireAt = None, r_CreatedAt = zero_time\<rparr>"

text \<open>The transaction: \<open>fresh\<close> is the record's new uuid, \<open>freshs\<close> those of the status rows.\<close>
definition store_prop :: "pg \<Rightarrow> time \<Rightarrow> uuid \<Rightarrow> uuid list \<Rightarrow> send_prop \<Rightarrow> db \<Rightarrow> sql_err + notify_record \<times> db" where
  "store_prop P now fresh freshs prop d =
     (case RecordRepo_Create P now fresh (prop_record prop) d of
        Inl e \<Rightarrow> Inl e
      | Inr (record, d1) \<Rightarrow>
          if p_TargetType prop = TargetSingle \<or> p_TargetType prop = TargetMultiple then
            let statuses = map (\<lambda>u. new_status (r_NotifyID record) u NotifyStatusUnread) (p_TargetIDs prop) in
            if length statuses > 0 then
              (case StatusRepo_CreateBulk P now freshs statuses d1 of
                 Inl e \<Rightarrow> Inl e
               | Inr d2 \<Rightarrow> Inr (record, d2))
            else Inr (record, d1)
          else Inr (record, d1))"

definition transmit ::
  "'b sender \<Rightarrow> system_config \<Rightarrow> time \<Rightarrow> uuid \<Rightarrow> uuid list \<Rightarrow> send_prop \<Rightarrow> 'b world
     \<Rightarrow> (code_error + send_result) \<times> 'b world" where
  "transmit S cfg now fresh freshs prop w =
     (case validateSendProp prop of
        Some e \<Rightarrow> (Inl e, w)
      | None \<Rightarrow>
          (case resolveTTLSeconds cfg prop of
             Inl e \<Rightarrow> (Inl e, w)
           | Inr ttlSeconds \<Rightarrow>
               let expireTime = resolveExpireTime now ttlSeconds in
               case Transaction (h_pg (sd_hub S)) (store_prop (h_pg (sd_hub S)) now fresh freshs prop) (hw_db w) of
                 (Inl _, d) \<Rightarrow> (Inl (NewCodeError InternalError MsgSendFailed), w\<lparr>hw_db := d\<rparr>)
               | (Inr record, d) \<Rightarrow>
                   (Inr \<lparr>res_NotifyID = h_str (sd_hub S) (r_NotifyID record),
                         res_ExpireTime = expireTime, res_TTLSeconds = ttlSeconds\<rparr>,
                    SendNotify record (w\<lparr>hw_db := d\<rparr>))))"

definition SendToUser ::
  "'b sender \<Rightarrow> system_config \<Rightarrow> time \<Rightarrow> uuid \<Rightarrow> uuid list \<Rightarrow> send_prop \<Rightarrow> 'b world
     \<Rightarrow> (code_error + send_result) \<times> 'b world" where
  "SendToUser S cfg now fresh freshs prop w =
     transmit S cfg now fresh freshs (prop\<lparr>p_TargetType := TargetSingle\<rparr>) w"

definition SendToUsers ::
  "'b sender \<Rightarrow> system_config \<Rightarrow> time \<Rightarrow> uuid \<Rightarrow> uuid list \<Rightarrow> send_prop \<Rightarrow> 'b world
     \<Rightarrow> (code_error + send_result) \<times> 'b world" where
  "SendToUsers S cfg now fresh freshs prop w =
     transmit S cfg now fresh freshs (prop\<lparr>p_TargetType := TargetMultiple\<rparr>) w"

definition SendToAll ::
  "'b sender \<Rightarrow> system_config \<Rightarrow> time \<Rightarrow> uuid \<Rightarrow> uuid list \<Rightarrow> send_prop \<Rightarrow> 'b world
     \<Rightarrow> (code_error + send_result) \<times> 'b world" where
  "SendToAll S cfg now fresh freshs prop w =
     transmit S cfg now fresh freshs (prop\<lparr>p_TargetType := TargetBroadcast\<rparr>) w"

section \<open>Storing\<close>

lemma RecordRepo_Create_exact:
  assumes "pg_ok P" and "RecordRepo_Create P now fresh r0 d = Inr (r, d')"
  shows "r = (NotifyRecord_BeforeCreate fresh r0)\<lparr>r_CreatedAt := (if r_CreatedAt r0 = zero_time then now else r_CreatedAt r0)\<rparr> \<and>
     d' = d\<lparr>t_record := t_record d @ [r]\<rparr>"
  using assms write_ok(1) [OF assms(1)]
  by (auto simp: RecordRepo_Create_def NotifyRecord_BeforeCreate_def Let_def split: sum.splits if_splits)

text \<open>What a stored send adds: the record, and one unread row per addressee of a direct one.\<close>
definition stored_record :: "time \<Rightarrow> uuid \<Rightarrow> send_prop \<Rightarrow> notify_record" where
  "stored_record now fresh prop = (prop_record prop)\<lparr>r_NotifyID := fresh, r_CreatedAt := now\<rparr>"

definition stored_statuses :: "time \<Rightarrow> uuid \<Rightarrow> uuid list \<Rightarrow> send_prop \<Rightarrow> notify_status list" where
  "stored_statuses now fresh freshs prop =
     (if p_TargetType prop = TargetSingle \<or> p_TargetType prop = TargetMultiple
      then map (\<lambda>(k, u). stamp_status now k (new_status fresh u NotifyStatusUnread)) (zip freshs (p_TargetIDs prop))
      else [])"

lemma store_prop_exact:
  assumes "pg_ok P" and "store_prop P now fresh freshs prop d = Inr (r, d')"
  shows "r = stored_record now fresh prop \<and>
     d' = d\<lparr>t_record := t_record d @ [r], t_status := t_status d @ stored_statuses now fresh freshs prop\<rparr>"
proof -
  from assms(2) obtain d1 where c: "RecordRepo_Create P now fresh (prop_record prop) d = Inr (r, d1)"
    by (auto simp: store_prop_def Let_def split: sum.splits if_splits)
  from RecordRepo_Create_exact [OF assms(1) c]
  have r: "r = stored_record now fresh prop" and d1: "d1 = d\<lparr>t_record := t_record d @ [r]\<rparr>"
    by (simp_all add: stored_record_def prop_record_def NotifyRecord_BeforeCreate_def)
  have id: "r_NotifyID r = fresh" by (simp add: r stored_record_def)
  show ?thesis
  proof (cases "(p_TargetType prop = TargetSingle \<or> p_TargetType prop = TargetMultiple) \<and> p_TargetIDs prop \<noteq> []")
    case True
    have z: "map (\<lambda>(u, s). stamp_status now u s) (zip freshs (map (\<lambda>u. new_status fresh u NotifyStatusUnread) (p_TargetIDs prop)))
        = stored_statuses now fresh freshs prop"
      using True by (auto simp: stored_statuses_def zip_map2 comp_def case_prod_beta')
    with True assms(2) c have "ins_status P (stored_statuses now fresh freshs prop) d1 = Inr d'"
      by (auto simp: store_prop_def StatusRepo_CreateBulk_def id Let_def split: sum.splits)
    from write_ok(2) [OF assms(1) this] r d1 show ?thesis by simp
  next
    case False
    then have "stored_statuses now fresh freshs prop = []" by (auto simp: stored_statuses_def)
    with False assms(2) c r d1 show ?thesis by (auto simp: store_prop_def Let_def split: if_splits)
  qed
qed

lemma transmit_ok:
  assumes "pg_ok (h_pg (sd_hub S))" and "transmit S cfg now fresh freshs prop w = (Inr res, w')"
  shows "\<exists>ttl r. validateSendProp prop = None \<and> resolveTTLSeconds cfg prop = Inr ttl \<and>
     r = stored_record now fresh prop \<and>
     res = \<lparr>res_NotifyID = h_str (sd_hub S) fresh, res_ExpireTime = resolveExpireTime now ttl, res_TTLSeconds = ttl\<rparr> \<and>
     w' = w\<lparr>hw_db := (hw_db w)\<lparr>t_record := t_record (hw_db w) @ [r],
            t_status := t_status (hw_db w) @ stored_statuses now fresh freshs prop\<rparr>,
          hw_jobs := hw_jobs w @ [JobSendNotify r]\<rparr>"
proof -
  let ?P = "h_pg (sd_hub S)"
  from assms(2) obtain ttl r d where v: "validateSendProp prop = None" "resolveTTLSeconds cfg prop = Inr ttl"
    and t: "Transaction ?P (store_prop ?P now fresh freshs prop) (hw_db w) = (Inr r, d)"
    and res: "res = \<lparr>res_NotifyID = h_str (sd_hub S) (r_NotifyID r), res_ExpireTime = resolveExpireTime now ttl, res_TTLSeconds = ttl\<rparr>"
    and w': "w' = SendNotify r (w\<lparr>hw_db := d\<rparr>)"
    by (auto simp: transmit_def Let_def split: option.splits sum.splits prod.splits)
  from t have s: "store_prop ?P now fresh freshs prop (hw_db w) = Inr (r, d)"
    by (auto simp: Transaction_def split: sum.splits option.splits)
  from store_prop_exact [OF assms(1) s] have "r = stored_record now fresh prop"
    "d = (hw_db w)\<lparr>t_record := t_record (hw_db w) @ [r], t_status := t_status (hw_db w) @ stored_statuses now fresh freshs prop\<rparr>"
    by simp_all
  moreover from this(1) have "r_NotifyID r = fresh" by (simp add: stored_record_def)
  ultimately show ?thesis using v res w' by (simp add: SendNotify_def)
qed

section \<open>Queueing\<close>

definition has_room :: "nat \<Rightarrow> local_broker world \<Rightarrow> bool" where
  "has_room n w = (length (lb_ch (hw_broker w)) + n \<le> lb_buffer (hw_broker w))"

definition enqueue :: "message list \<Rightarrow> local_broker world \<Rightarrow> local_broker world" where
  "enqueue ms w = w\<lparr>hw_broker := (hw_broker w)\<lparr>lb_ch := lb_ch (hw_broker w) @ ms\<rparr>\<rparr>"

lemma enqueue_simps [simp]:
  "hw_db (enqueue ms w) = hw_db w" "hw_cache (enqueue ms w) = hw_cache w" "hw_pool (enqueue ms w) = hw_pool w"
  "hw_jobs (enqueue ms w) = hw_jobs w"
  "lb_ch (hw_broker (enqueue ms w)) = lb_ch (hw_broker w) @ ms"
  "enqueue ms (enqueue ms' w) = enqueue (ms' @ ms) w" "enqueue [] w = w"
  "has_room n (enqueue ms w) = has_room (length ms + n) w"
  by (simp_all add: enqueue_def has_room_def add.assoc)

lemma Sender_send_room:
  assumes "sd_publish S = LocalBroker_Publish" and "has_room (Suc n) w"
  shows "Sender_send S t tt us m w = enqueue [Sender_message S t tt us m] w"
  using assms by (simp add: Sender_send_def TransmitMessage_def LocalBroker_Publish_def has_room_def enqueue_def)

definition personal_msg :: "'b sender \<Rightarrow> bytes \<Rightarrow> bytes \<Rightarrow> int \<Rightarrow> message" where
  "personal_msg S t u n =
     Sender_message S t TargetSingle [u] \<lparr>msg_Type = PersonalUnreadMsg, msg_Data = JNum n\<rparr>"

lemma push_personal_counter:
  assumes "sd_publish S = LocalBroker_Publish" and "redis_up (h_redis (sd_hub S))" and "has_room (Suc n) w"
    and "counter_at (hw_cache w) (GetUnreadPersonalKey t u) = Some c"
  shows "push_personal_unread S t u w = enqueue [personal_msg S t u c] w"
proof -
  have "on_cache (GetPersonalUnread (sd_hub S) t u) w = (Inr c, w)"
    using Cache_Get_up [OF assms(2,4)] by (simp add: on_cache_def GetPersonalUnread_def cached_def)
  then show ?thesis
    using Sender_send_room [OF assms(1,3)] by (simp add: push_personal_unread_def SendPersonalUnread_def personal_msg_def)
qed

lemma push_personal_fold:
  assumes "sd_publish S = LocalBroker_Publish" and "redis_up (h_redis (sd_hub S))" and "has_room (length us) w"
    and "\<forall>u \<in> set us. counter_at (hw_cache w) (GetUnreadPersonalKey t u) = Some (c u)"
  shows "fold (push_personal_unread S t) us w = enqueue (map (\<lambda>u. personal_msg S t u (c u)) us) w"
  using assms(3,4)
proof (induction us arbitrary: w)
  case (Cons u us)
  have "push_personal_unread S t u w = enqueue [personal_msg S t u (c u)] w"
    using Cons.prems by (intro push_personal_counter [OF assms(1,2)]) auto
  with Cons show ?case by simp
qed simp

definition tenant_msg :: "'b sender \<Rightarrow> bytes \<Rightarrow> bytes \<Rightarrow> int \<Rightarrow> message" where
  "tenant_msg S t u n =
     Sender_message S t TargetSingle [u] \<lparr>msg_Type = TenantUnreadMsg, msg_Data = JNum n\<rparr>"

text \<open>The cache holds the database's figures of these users and of the tenant's broadcasts.\<close>
definition users_in_step :: "hub \<Rightarrow> bytes \<Rightarrow> bytes list \<Rightarrow> db \<Rightarrow> rstore \<Rightarrow> bool" where
  "users_in_step H t us d s =
     ((\<forall>u \<in> set us. few H t u d \<and> user_in_step H t u d s) \<and> db_keys_ok d \<and>
      set_at s (GetBroadcastTotalKey t) = Some (broadcast_ids H t d))"

lemma users_in_step_cong: "alive s = alive s' \<Longrightarrow> users_in_step H t us d s = users_in_step H t us d s'"
  by (simp add: users_in_step_def user_in_step_def counter_at_def set_at_def)

lemma push_tenant_fold:
  assumes "sd_publish S = LocalBroker_Publish" and H: "hub_ok (sd_hub S)" and "has_room (length us) w"
    and "users_in_step (sd_hub S) t us (hw_db w) (hw_cache w)"
  shows "\<exists>s'. alive s' = alive (hw_cache w) \<and>
     fold (push_tenant_unread S t) us w = enqueue (map (\<lambda>u. tenant_msg S t u
       (direct_count SenderTypeTenant t u (hw_db w) + open_broadcasts t u (hw_db w))) us) (w\<lparr>hw_cache := s'\<rparr>)"
  using assms(3,4)
proof (induction us arbitrary: w)
  case Nil
  then show ?case by (intro exI [of _ "hw_cache w"]) simp
next
  case (Cons u us)
  let ?n = "direct_count SenderTypeTenant t u (hw_db w) + open_broadcasts t u (hw_db w)"
  from Cons.prems(2) GetTenantUnread_exact [OF H, of t u "hw_db w" "hw_cache w"] obtain s1 where
    s1: "GetTenantUnread (sd_hub S) t u (hw_db w) (hw_cache w) = (Inr ?n, s1)" "alive s1 = alive (hw_cache w)"
    by (auto simp: users_in_step_def db_keys_ok_def)
  let ?w1 = "enqueue [tenant_msg S t u ?n] (w\<lparr>hw_cache := s1\<rparr>)"
  have "has_room (Suc (length us)) (w\<lparr>hw_cache := s1\<rparr>)" using Cons.prems(1) by (simp add: has_room_def)
  then have p: "push_tenant_unread S t u w = ?w1"
    using Sender_send_room [OF assms(1)]
    by (simp add: push_tenant_unread_def on_cache_def s1 SendTenantUnread_def tenant_msg_def)
  have "users_in_step (sd_hub S) t us (hw_db ?w1) (hw_cache ?w1)"
    using Cons.prems(2) users_in_step_cong [OF s1(2), of "sd_hub S" t us "hw_db w"] by (simp add: users_in_step_def)
  moreover have "has_room (length us) ?w1" using Cons.prems(1) by (simp add: has_room_def enqueue_def)
  ultimately obtain s' where "alive s' = alive (hw_cache ?w1)" "fold (push_tenant_unread S t) us ?w1 =
      enqueue (map (\<lambda>u. tenant_msg S t u (direct_count SenderTypeTenant t u (hw_db ?w1) + open_broadcasts t u (hw_db ?w1))) us)
        (?w1\<lparr>hw_cache := s'\<rparr>)" using Cons.IH by blast
  moreover have "?w1\<lparr>hw_cache := s'\<rparr> = enqueue [tenant_msg S t u ?n] (w\<lparr>hw_cache := s'\<rparr>)" by (simp add: enqueue_def)
  ultimately show ?case using s1(2) by (intro exI [of _ s']) (simp add: p)
qed

section \<open>Properties\<close>

text \<open>
  What may be sent. Validation accepts a request exactly when it names a tenant, a known sender type and
  no negative lifetime, and its addressees fit the kind of send: one non-empty user for a single send,
  at least one for a multiple send, none for a broadcast; every refusal is a bad request.
\<close>
lemma validate_accepts_iff:
  "(validateSendProp prop = None \<longleftrightarrow>
      p_TenantID prop \<noteq> [] \<and> p_SenderType prop \<in> {SenderTypeUser, SenderTypeTenant} \<and>
      p_TTLSeconds prop \<notin> Some ` {..<0} \<and>
      (p_TargetType prop \<noteq> TargetSingle \<or> (\<exists>u. u \<noteq> [] \<and> p_TargetIDs prop = [u])) \<and>
      (p_TargetType prop \<noteq> TargetMultiple \<or> p_TargetIDs prop \<noteq> []) \<and>
      (p_TargetType prop \<noteq> TargetBroadcast \<or> p_TargetIDs prop = [])) \<and>
   map_option Code (validateSendProp prop) \<in> {None, Some BadRequest}"
proof -
  have ttl: "(case p_TTLSeconds prop of None \<Rightarrow> False | Some ttl \<Rightarrow> ttl < 0) \<longleftrightarrow> p_TTLSeconds prop \<in> Some ` {..<0}"
    by (cases "p_TTLSeconds prop") auto
  have single: "(length (p_TargetIDs prop) \<noteq> 1 \<or> p_TargetIDs prop ! 0 = []) \<longleftrightarrow>
      \<not> (\<exists>u. u \<noteq> [] \<and> p_TargetIDs prop = [u])"
    by (auto simp: length_Suc_conv)
  show ?thesis
    unfolding validateSendProp_def ttl single
    by (simp add: validateSenderType_def NewCodeError_def TargetSingle_def TargetMultiple_def TargetBroadcast_def)
qed

lemma validate_accepts_iff_example:
  "validateSendProp \<lparr>p_Title = '''', p_Content = '''', p_TenantID = ''T'', p_SenderID = '''', p_SenderType = 0,
     p_EventType = '''', p_TTLSeconds = None, p_TargetType = 0, p_TargetIDs = [''7'']\<rparr> = None"
  using validate_accepts_iff [of "\<lparr>p_Title = '''', p_Content = '''', p_TenantID = ''T'', p_SenderID = '''', p_SenderType = 0,
     p_EventType = '''', p_TTLSeconds = None, p_TargetType = 0, p_TargetIDs = [''7'']\<rparr>"]
  by (simp add: code_defs)

text \<open>
  C21: A send is all or nothing. If it is refused or fails, the database, the cache, the broker, the pool and
  the started goroutines are as before. If it succeeds, exactly one record has been added, with one
  unread status row per addressee of a direct send and none for a broadcast, and exactly the goroutine
  that announces this record has been started; the response names the stored notification.
\<close>
theorem send_all_or_nothing:
  assumes "pg_ok (h_pg (sd_hub S))" and "transmit S cfg now fresh freshs prop w = (r, w')"
  shows "case r of
      Inl e \<Rightarrow> w' = w
    | Inr res \<Rightarrow>
        w' = w\<lparr>hw_db := (hw_db w)\<lparr>t_record := t_record (hw_db w) @ [stored_record now fresh prop],
                t_status := t_status (hw_db w) @ stored_statuses now fresh freshs prop\<rparr>,
              hw_jobs := hw_jobs w @ [JobSendNotify (stored_record now fresh prop)]\<rparr> \<and>
        res_NotifyID res = h_str (sd_hub S) fresh \<and>
        (length freshs = length (p_TargetIDs prop) \<and> p_TargetType prop \<in> {TargetSingle, TargetMultiple} \<longrightarrow>
           map s_TargetUserID (stored_statuses now fresh freshs prop) = p_TargetIDs prop \<and>
           (\<forall>x \<in> set (stored_statuses now fresh freshs prop). s_NotifyID x = fresh \<and> s_Status x = NotifyStatusUnread)) \<and>
        (p_TargetType prop = TargetBroadcast \<longrightarrow> stored_statuses now fresh freshs prop = [])"
proof (cases r)
  case (Inl e)
  have "w\<lparr>hw_db := hw_db w\<rparr> = w" by simp
  with Inl assms(2) show ?thesis
    by (auto simp: transmit_def Let_def Transaction_def split: option.splits sum.splits prod.splits)
next
  case (Inr res)
  have rows: "map s_TargetUserID (map (\<lambda>(k, u). stamp_status now k (new_status fresh u NotifyStatusUnread)) (zip ks us)) = us"
    if "length ks = length us" for ks us
    using that by (induction ks us rule: list_induct2) simp_all
  have 1: "map s_TargetUserID (stored_statuses now fresh freshs prop) = p_TargetIDs prop"
    if "length freshs = length (p_TargetIDs prop)" "p_TargetType prop \<in> {TargetSingle, TargetMultiple}"
    using that rows [of freshs "p_TargetIDs prop"] by (auto simp: stored_statuses_def)
  have 2: "s_NotifyID x = fresh \<and> s_Status x = NotifyStatusUnread"
    if "x \<in> set (stored_statuses now fresh freshs prop)" for x
    using that by (auto simp: stored_statuses_def split: if_splits)
  have 3: "p_TargetType prop = TargetBroadcast \<Longrightarrow> stored_statuses now fresh freshs prop = []"
    by (simp add: stored_statuses_def code_defs)
  from assms(2) Inr have "transmit S cfg now fresh freshs prop w = (Inr res, w')" by simp
  from transmit_ok [OF assms(1) this] 1 2 3 show ?thesis unfolding Inr by (auto simp only: sum.case send_result.simps)
qed

definition demo_sender :: "local_broker sender" where
  "demo_sender = \<lparr>sd_hub = demo_hub, sd_codec = demo_codec, sd_publish = LocalBroker_Publish, sd_trace = ''t''\<rparr>"

definition demo_world :: "local_broker world" where
  "demo_world = \<lparr>hw_db = empty_db, hw_cache = empty_store 0, hw_broker = NewLocalBroker 1000,
     hw_pool = demo_pool, hw_jobs = []\<rparr>"

definition demo_prop :: "send_prop" where
  "demo_prop = \<lparr>p_Title = '''', p_Content = '''', p_TenantID = ''T'', p_SenderID = '''', p_SenderType = 0,
     p_EventType = '''', p_TTLSeconds = Some 60, p_TargetType = TargetSingle, p_TargetIDs = [''7'']\<rparr>"

definition demo_cfg :: system_config where
  "demo_cfg = System demo_config"

lemma demo_transmit:
  "\<exists>res w'. transmit demo_sender demo_cfg 5 1 [11] demo_prop demo_world = (Inr res, w') \<and>
     res_ExpireTime res = Some (5 + 60 * time_Second)"
  by (simp add: transmit_def demo_prop_def validateSendProp_def validateSenderType_def resolveTTLSeconds_def
      Transaction_def store_prop_def RecordRepo_Create_def prop_record_def demo_sender_def demo_hub_def demo_pg_def
      demo_world_def empty_db_def record_fits_def status_fits_def StatusRepo_CreateBulk_def code_defs
      NotifyRecord_BeforeCreate_def resolveExpireTime_def time_Second_def go_int64_id Let_def)

theorem send_all_or_nothing_witness:
  "\<exists>res w'. transmit demo_sender demo_cfg 5 1 [11] demo_prop demo_world = (Inr res, w') \<and>
     map s_TargetUserID (t_status (hw_db w')) = [''7'']"
proof -
  obtain res w' where t: "transmit demo_sender demo_cfg 5 1 [11] demo_prop demo_world = (Inr res, w')"
    using demo_transmit by blast
  have ok: "pg_ok (h_pg (sd_hub demo_sender))" using demo_hub_ok by (simp add: demo_sender_def hub_ok_def)
  from send_all_or_nothing [OF ok t] t show ?thesis
    by (auto simp: demo_world_def empty_db_def demo_prop_def)
qed

text \<open>
  The announced expiry is never stored. Whatever lifetime a successful send resolves, the stored record
  has no expiry, so neither the cleanup nor the inbox ever sees one, although the response reports it.
\<close>
lemma announced_expiry_not_stored:
  assumes "pg_ok (h_pg (sd_hub S))" and "transmit S cfg now fresh freshs prop w = (Inr res, w')"
  shows "\<exists>r. t_record (hw_db w') = t_record (hw_db w) @ [r] \<and> r_NotifyID r = fresh \<and> r_ExpireAt r = None \<and>
     (\<forall>before. \<not> expired_by before r) \<and>
     (\<exists>ttl. resolveTTLSeconds cfg prop = Inr ttl \<and> res_ExpireTime res = resolveExpireTime now ttl)"
  using transmit_ok [OF assms] by (auto simp: stored_record_def prop_record_def expired_by_def)

lemma announced_expiry_not_stored_example:
  "\<exists>res w' r. transmit demo_sender demo_cfg 5 1 [11] demo_prop demo_world = (Inr res, w') \<and>
     t_record (hw_db w') = [r] \<and> r_ExpireAt r = None \<and> res_ExpireTime res = Some (5 + 60 * time_Second)"
proof -
  obtain res w' where t: "transmit demo_sender demo_cfg 5 1 [11] demo_prop demo_world = (Inr res, w')"
    "res_ExpireTime res = Some (5 + 60 * time_Second)" using demo_transmit by blast
  have ok: "pg_ok (h_pg (sd_hub demo_sender))" using demo_hub_ok by (simp add: demo_sender_def hub_ok_def)
  from announced_expiry_not_stored [OF ok t(1)] t show ?thesis
    by (auto simp: demo_world_def empty_db_def)
qed



text \<open>
  What a direct send from a user pushes. With room in the local queue, the goroutine appends one
  message per addressee carrying exactly that user's number of unread direct notifications in the
  database, in the order of the addressees, and after them the notification itself; the cached
  counters of the addressees are then exact and nothing else of the hub changes.
\<close>
lemma direct_send_queues:
  assumes "hub_ok (sd_hub S)" "pg_up (h_pg (sd_hub S))" and "sd_publish S = LocalBroker_Publish"
    and "r_TargetType r \<noteq> TargetBroadcast" "r_SenderType r = SenderTypeUser" and "r_TargetIDs r \<noteq> []" "distinct (r_TargetIDs r)"
    and "\<forall>u \<in> set (r_TargetIDs r). canonical_int64 u"
    and "\<forall>u \<in> set (r_TargetIDs r). few (sd_hub S) (r_TenantID r) u (hw_db w) \<and>
           small_counter (hw_cache w) (GetUnreadPersonalKey (r_TenantID r) u)"
    and "has_room (Suc (length (r_TargetIDs r))) w"
  shows "\<exists>s'. SendNotify_body S now r w =
       enqueue (map (\<lambda>u. personal_msg S (r_TenantID r) u (direct_count SenderTypeUser (r_TenantID r) u (hw_db w))) (r_TargetIDs r)
                @ [Sender_message S (r_TenantID r) TargetSingle (r_TargetIDs r) (notify_msg S r)]) (w\<lparr>hw_cache := s'\<rparr>) \<and>
     (\<forall>u \<in> set (r_TargetIDs r). counter_at s' (GetUnreadPersonalKey (r_TenantID r) u) =
        Some (direct_count SenderTypeUser (r_TenantID r) u (hw_db w)))"
proof -
  let ?t = "r_TenantID r" and ?us = "r_TargetIDs r" and ?d = "hw_db w"
  have key: "unread_key SenderTypeUser = GetUnreadPersonalKey"
    by (simp add: unread_key_def code_defs fun_eq_iff)
  have sc: "\<forall>u \<in> set ?us. few (sd_hub S) ?t u ?d \<and> small_counter (hw_cache w) (unread_key SenderTypeUser ?t u)"
    using assms(9) by (simp add: key)
  obtain s' where s': "BatchIncrUserUnread (sd_hub S) ?t ?us SenderTypeUser ?d (hw_cache w) = (Inr (), s')"
    "\<forall>u \<in> set ?us. counter_at s' (GetUnreadPersonalKey ?t u) = Some (direct_count SenderTypeUser ?t u ?d)"
    using BatchIncr_exact [OF assms(1,2,7,6,8) sc] key by auto
  let ?w1 = "w\<lparr>hw_cache := s'\<rparr>"
  let ?ms = "map (\<lambda>u. personal_msg S ?t u (direct_count SenderTypeUser ?t u ?d)) ?us"
  have w1: "snd (on_cache (BatchIncrUserUnread (sd_hub S) ?t ?us (r_SenderType r)) w) = ?w1"
    by (simp add: on_cache_def assms(5) s')
  have up: "redis_up (h_redis (sd_hub S))" using assms(1) by (simp add: hub_ok_def)
  have "has_room (length ?us) ?w1" using assms(10) by (simp add: has_room_def)
  then have u: "sendUnread S r ?w1 = enqueue ?ms ?w1"
    using push_personal_fold [OF assms(3) up, of ?us ?w1] s'(2) assms(4,5) by (simp add: sendUnread_def)
  have "has_room (Suc 0) (enqueue ?ms ?w1)" using assms(10) by (simp add: has_room_def enqueue_def)
  from Sender_send_room [OF assms(3) this]
  have "SendNotify_body S now r w = enqueue (?ms @ [Sender_message S ?t TargetSingle ?us (notify_msg S r)]) ?w1"
    using assms(4) by (simp add: SendNotify_body_def w1 u)
  with s'(2) show ?thesis by blast
qed

lemma demo_sender_ok:
  "hub_ok (sd_hub demo_sender)" "pg_up (h_pg (sd_hub demo_sender))" "sd_publish demo_sender = LocalBroker_Publish"
  using demo_hub_ok demo_up(1) by (simp_all add: demo_sender_def)

lemma direct_send_queues_example:
  "\<exists>s'. SendNotify_body demo_sender 1 (demo_record 1 0 0 5) (demo_world\<lparr>hw_db := demo_db\<rparr>) =
       enqueue [personal_msg demo_sender ''T'' ''7'' (direct_count SenderTypeUser ''T'' ''7'' demo_db),
         Sender_message demo_sender ''T'' TargetSingle [''7''] (notify_msg demo_sender (demo_record 1 0 0 5))]
         (demo_world\<lparr>hw_db := demo_db, hw_cache := s'\<rparr>)"
proof -
  let ?w = "demo_world\<lparr>hw_db := demo_db\<rparr>" and ?r = "demo_record 1 0 0 5"
  have c: "canonical_int64 ''7''" by code_simp
  have s: "small_counter (empty_store 0) k" for k by (simp add: small_counter_def counter_at_def)
  have f: "few (sd_hub demo_sender) ''T'' ''7'' demo_db" using demo_few by (simp add: demo_sender_def)
  have room: "has_room (Suc 1) ?w" by (simp add: has_room_def demo_world_def NewLocalBroker_def)
  have r: "r_TargetType ?r = 0" "r_SenderType ?r = 0" "r_TargetIDs ?r = [''7'']" "r_TenantID ?r = ''T''"
    by (simp_all add: demo_record_def)
  show ?thesis
    using direct_send_queues [OF demo_sender_ok, of ?r ?w 1] c s f room
    by (auto simp: r code_defs demo_world_def)
qed

text \<open>
  What a tenant broadcast pushes. With room in the local queue and a cache that is in step, the
  goroutine appends for every user of the tenant that is online one message with exactly that user's
  tenant unread count (unread direct notifications plus the broadcasts neither read nor deleted, the
  new one included), and after them one broadcast of the notification to the tenant.
\<close>
lemma broadcast_queues:
  assumes "hub_ok (sd_hub S)" "pg_up (h_pg (sd_hub S))" and "sd_publish S = LocalBroker_Publish"
    and "r_TargetType r = TargetBroadcast" and "us = Dispatcher_GetOnlineUserIDs (Some (hw_pool w)) (r_TenantID r)"
    and "set_at (hw_cache w) (GetBroadcastTotalKey (r_TenantID r)) = Some T"
    and "T = {||} \<or> finsert (h_str (sd_hub S) (r_NotifyID r)) T = broadcast_ids (sd_hub S) (r_TenantID r) (hw_db w)"
    and "alive (hw_cache w) (temp_key (GetBroadcastTotalKey (r_TenantID r)) now) = None"
    and "db_keys_ok (hw_db w)"
    and "\<forall>u \<in> set us. few (sd_hub S) (r_TenantID r) u (hw_db w) \<and> user_in_step (sd_hub S) (r_TenantID r) u (hw_db w) (hw_cache w)"
    and "has_room (Suc (length us)) w"
  shows "\<exists>s'. SendNotify_body S now r w =
       enqueue (map (\<lambda>u. tenant_msg S (r_TenantID r) u (direct_count SenderTypeTenant (r_TenantID r) u (hw_db w)
                   + open_broadcasts (r_TenantID r) u (hw_db w))) us
                @ [Sender_message S (r_TenantID r) TargetBroadcast [] (notify_msg S r)]) (w\<lparr>hw_cache := s'\<rparr>)"
proof -
  let ?t = "r_TenantID r" and ?d = "hw_db w" and ?H = "sd_hub S"
  let ?n = "h_str ?H (r_NotifyID r)"
  obtain s1 where s1: "TenantBroadcastIncr ?H now ?t ?n ?d (hw_cache w) = (Inr (int (fcard (finsert ?n T))), s1)"
    "set_at s1 (GetBroadcastTotalKey ?t) = Some (if fcard (finsert ?n T) = 1 then broadcast_ids ?H ?t ?d else finsert ?n T)"
    "\<forall>k. k \<noteq> GetBroadcastTotalKey ?t \<longrightarrow> alive s1 k = alive (hw_cache w) k"
    using TenantBroadcastIncr_set [OF assms(1,2,6,8), of ?n ?d] by blast
  have tot: "set_at s1 (GetBroadcastTotalKey ?t) = Some (broadcast_ids ?H ?t ?d)" using s1(2) assms(7) by auto
  let ?w1 = "w\<lparr>hw_cache := s1\<rparr>"
  have "user_in_step ?H ?t u ?d s1" if "user_in_step ?H ?t u ?d (hw_cache w)" for u
    using that s1(3) counter_at_cong [of s1 "GetUnreadTenantKey ?t u" "hw_cache w"]
      set_at_cong [of s1 "GetBroadcastOpKey ?t u" "hw_cache w"] by (simp add: user_in_step_def)
  with assms(9,10) tot have "users_in_step ?H ?t us (hw_db ?w1) (hw_cache ?w1)" by (simp add: users_in_step_def)
  moreover have "has_room (length us) ?w1" using assms(11) by (simp add: has_room_def)
  ultimately obtain s' where s': "fold (push_tenant_unread S ?t) us ?w1 = enqueue (map (\<lambda>u. tenant_msg S ?t u
       (direct_count SenderTypeTenant ?t u ?d + open_broadcasts ?t u ?d)) us) (?w1\<lparr>hw_cache := s'\<rparr>)"
    using push_tenant_fold [OF assms(3,1), of us ?w1 ?t] by auto
  have "has_room (Suc 0) (enqueue (map (\<lambda>u. tenant_msg S ?t u
       (direct_count SenderTypeTenant ?t u ?d + open_broadcasts ?t u ?d)) us) (?w1\<lparr>hw_cache := s'\<rparr>))"
    using assms(11) by (simp add: has_room_def enqueue_def)
  from Sender_send_room [OF assms(3) this] s' have "SendNotify_body S now r w =
      enqueue (map (\<lambda>u. tenant_msg S ?t u (direct_count SenderTypeTenant ?t u ?d + open_broadcasts ?t u ?d)) us
        @ [Sender_message S ?t TargetBroadcast [] (notify_msg S r)]) (w\<lparr>hw_cache := s'\<rparr>)"
    by (simp add: SendNotify_body_def on_cache_def s1 sendUnread_def assms(4) flip: assms(5))
  then show ?thesis by blast
qed

lemma broadcast_queues_example:
  "\<exists>s'. SendNotify_body demo_sender 1 (demo_record 2 0 2 6) (demo_world\<lparr>hw_db := demo_db, hw_pool := NewManager (\<lambda>_. new_hub_conn)\<rparr>) =
       enqueue [Sender_message demo_sender ''T'' TargetBroadcast [] (notify_msg demo_sender (demo_record 2 0 2 6))]
         (demo_world\<lparr>hw_db := demo_db, hw_pool := NewManager (\<lambda>_. new_hub_conn), hw_cache := s'\<rparr>)"
proof -
  let ?p = "NewManager (\<lambda>_. new_hub_conn) :: hub_pool"
  let ?w = "demo_world\<lparr>hw_db := demo_db, hw_pool := ?p\<rparr>" and ?r = "demo_record 2 0 2 6"
  have off: "Dispatcher_GetOnlineUserIDs (Some ?p) ''T'' = []"
    by (simp add: Dispatcher_GetOnlineUserIDs_def Manager_GetOnlineUserIDs_def NewManager_def getGroup_def)
  have r: "r_TargetType ?r = 2" "r_TenantID ?r = ''T''" by (simp_all add: demo_record_def)
  have room: "has_room (Suc 0) ?w" by (simp add: has_room_def demo_world_def NewLocalBroker_def)
  have c: "set_at (hw_cache ?w) k = Some {||}" "alive (hw_cache ?w) k = None" for k
    by (simp_all add: demo_world_def set_at_def)
  show ?thesis
    using broadcast_queues [OF demo_sender_ok, of ?r "[]" ?w "{||}" 1] c room off demo_keys
    by (simp add: r code_defs demo_world_def)
qed

end
