(* ===== verification/Status_Service.thy ===== *)
theory Status_Service
  imports Sender
begin

text \<open>
  Reading and deleting notifications: src/internal/service/status.go. Single operations check that the
  user may touch the notification and write one status row; batch operations update all status rows
  of a user in a tenant and, on the tenant side, a watermark, in one transaction. Each starts a
  goroutine (\<open>hw_jobs\<close>) that adjusts the cache and pushes the new unread count; \<open>run_job\<close> runs one.

  \<open>uuid_lib\<close> holds \<open>uuid.Parse\<close> of google/uuid and PostgreSQL's reading of a uuid parameter; \<open>now\<close>
  is the clock of one operation, for the watermark and for the stamps gorm writes.

  Shown: who may change a status and with which error others are refused, that no operation touches
  another user's or another tenant's state, that marking or clearing everything on the tenant side
  empties the unread count or the inbox, and three effects of the batch operations that their
  comments do not mention.
\<close>

record uuid_lib =
  uuid_Parse :: "bytes \<Rightarrow> uuid option"
  pg_uuid :: "bytes \<Rightarrow> uuid option"

section \<open>The goroutines\<close>

definition BatchOp_body :: "'b sender \<Rightarrow> bytes \<Rightarrow> bytes \<Rightarrow> int \<Rightarrow> 'b world \<Rightarrow> 'b world" where
  "BatchOp_body S userID tenantID category w =
     (if category = NotifyCategoryTenant then
        (case on_cache (SyncTenantBroadcastCacheToOp (sd_hub S) tenantID userID) w of
           (Inl _, w1) \<Rightarrow> w1
         | (Inr _, w1) \<Rightarrow>
             (case on_cache (GetTenantUnread (sd_hub S) tenantID userID) w1 of
                (Inl _, w2) \<Rightarrow> w2
              | (Inr unread, w2) \<Rightarrow> SendTenantUnread S tenantID userID unread w2))
      else if category = NotifyCategoryUser then
        (case on_cache (ClearPersonUnread (sd_hub S) tenantID userID) w of
           (Inl _, w1) \<Rightarrow> w1
         | (Inr _, w1) \<Rightarrow> SendPersonalUnread S tenantID userID 0 w1)
      else w)"

definition OnceOp_body :: "'b sender \<Rightarrow> notify_record \<Rightarrow> bytes \<Rightarrow> 'b world \<Rightarrow> 'b world" where
  "OnceOp_body S record userID w =
     (let tenantID = r_TenantID record in
      if r_TargetType record = TargetBroadcast then
        (case on_cache (MarkUserBroadcastOp (sd_hub S) tenantID userID (h_str (sd_hub S) (r_NotifyID record))) w of
           (Inl _, w1) \<Rightarrow> w1
         | (Inr _, w1) \<Rightarrow>
             (case on_cache (GetTenantUnread (sd_hub S) tenantID userID) w1 of
                (Inl _, w2) \<Rightarrow> w2
              | (Inr tenant, w2) \<Rightarrow> SendTenantUnread S tenantID userID tenant w2))
      else if r_SenderType record = SenderTypeUser then
        (case on_cache (DecrPersonalUnread (sd_hub S) tenantID userID) w of
           (Inl _, w1) \<Rightarrow> w1
         | (Inr val, w1) \<Rightarrow> SendPersonalUnread S tenantID userID val w1)
      else
        (case on_cache (DecrTenantUnread (sd_hub S) tenantID userID) w of
           (Inl _, w1) \<Rightarrow> w1
         | (Inr val, w1) \<Rightarrow> SendTenantUnread S tenantID userID val w1))"

definition asyncUpdateBatchOpCacheAndSend :: "bytes \<Rightarrow> bytes \<Rightarrow> int \<Rightarrow> 'b world \<Rightarrow> 'b world" where
  "asyncUpdateBatchOpCacheAndSend userID tenantID category w =
     w\<lparr>hw_jobs := hw_jobs w @ [JobBatchOp userID tenantID category]\<rparr>"

definition asyncUpdateOnceOpCacheAndSend :: "notify_record \<Rightarrow> bytes \<Rightarrow> 'b world \<Rightarrow> 'b world" where
  "asyncUpdateOnceOpCacheAndSend record userID w =
     w\<lparr>hw_jobs := hw_jobs w @ [JobOnceOp record userID]\<rparr>"

text \<open>The scheduler picks any started goroutine.\<close>
definition run_job :: "'b sender \<Rightarrow> int \<Rightarrow> job \<Rightarrow> 'b world \<Rightarrow> 'b world" where
  "run_job S now j w =
     (let w1 = w\<lparr>hw_jobs := remove1 j (hw_jobs w)\<rparr> in
      case j of
        JobSendNotify record \<Rightarrow> SendNotify_body S now record w1
      | JobBatchOp userID tenantID category \<Rightarrow> BatchOp_body S userID tenantID category w1
      | JobOnceOp record userID \<Rightarrow> OnceOp_body S record userID w1)"

section \<open>Single operations\<close>

fun containsUser :: "bytes list \<Rightarrow> bytes \<Rightarrow> bool" where
  "containsUser [] target = False"
| "containsUser (userID # userIDs) target = (if userID = target then True else containsUser userIDs target)"

definition validateNotifyAccess ::
  "'b sender \<Rightarrow> uuid_lib \<Rightarrow> bytes \<Rightarrow> bytes \<Rightarrow> bytes \<Rightarrow> db \<Rightarrow> code_error + notify_record" where
  "validateNotifyAccess S U notifyID userID tenantID d =
     (if notifyID = [] \<or> userID = [] \<or> tenantID = [] then Inl (NewCodeError BadRequest MsgIdsRequired)
      else if uuid_Parse U notifyID = None then Inl (NewCodeError BadRequest MsgNotifyIDFormat)
      else
        (case RecordRepo_FindByID (h_pg (sd_hub S)) (pg_uuid U) notifyID d of
           Inl err \<Rightarrow>
             if err = ErrRecordNotFound then Inl (NewCodeError NotFound MsgNotifyNotFound)
             else Inl (NewCodeError InternalError MsgNotifyQueryFailed)
         | Inr record \<Rightarrow>
             if r_TenantID record \<noteq> tenantID then Inl (NewCodeError Forbidden MsgNoPermission)
             else if (r_TargetType record = TargetSingle \<or> r_TargetType record = TargetMultiple) \<and>
                     \<not> containsUser (r_TargetIDs record) userID
             then Inl (NewCodeError Forbidden MsgNoPermission)
             else Inr record))"

definition execStatusUpdate ::
  "'b sender \<Rightarrow> uuid_lib \<Rightarrow> time \<Rightarrow> uuid \<Rightarrow> bytes \<Rightarrow> bytes \<Rightarrow> bytes \<Rightarrow> int \<Rightarrow> 'b world \<Rightarrow> code_error option \<times> 'b world" where
  "execStatusUpdate S U now fresh notifyID userID tenantID nextStatus w =
     (case validateNotifyAccess S U notifyID userID tenantID (hw_db w) of
        Inl e \<Rightarrow> (Some e, w)
      | Inr record \<Rightarrow>
          (case StatusRepo_UpsertByUserAndNotify (h_pg (sd_hub S)) now fresh userID (r_NotifyID record) nextStatus (hw_db w) of
             Inl _ \<Rightarrow> (Some (NewCodeError InternalError MsgStatusUpdateFailed), w)
           | Inr (_, d) \<Rightarrow> (None, asyncUpdateOnceOpCacheAndSend record userID (w\<lparr>hw_db := d\<rparr>))))"

definition MarkRead ::
  "'b sender \<Rightarrow> uuid_lib \<Rightarrow> time \<Rightarrow> uuid \<Rightarrow> bytes \<Rightarrow> bytes \<Rightarrow> bytes \<Rightarrow> 'b world \<Rightarrow> code_error option \<times> 'b world" where
  "MarkRead S U now fresh notifyID userID tenantID w =
     execStatusUpdate S U now fresh notifyID userID tenantID NotifyStatusRead w"

definition DeleteNotify ::
  "'b sender \<Rightarrow> uuid_lib \<Rightarrow> time \<Rightarrow> uuid \<Rightarrow> bytes \<Rightarrow> bytes \<Rightarrow> bytes \<Rightarrow> 'b world \<Rightarrow> code_error option \<times> 'b world" where
  "DeleteNotify S U now fresh notifyID userID tenantID w =
     execStatusUpdate S U now fresh notifyID userID tenantID NotifyStatusDeleted w"

section \<open>Batch operations\<close>

definition UserBatchMarkRead ::
  "'b sender \<Rightarrow> time \<Rightarrow> bytes \<Rightarrow> bytes \<Rightarrow> 'b world \<Rightarrow> code_error option \<times> 'b world" where
  "UserBatchMarkRead S now userID tenantID w =
     (case auto_commit (StatusRepo_BatchMarkReadByUser (h_pg (sd_hub S)) now userID tenantID (hw_db w)) (hw_db w) of
        (Inl _, d) \<Rightarrow> (Some (NewCodeError InternalError MsgBatchReadFailed), w\<lparr>hw_db := d\<rparr>)
      | (Inr _, d) \<Rightarrow>
          (None, asyncUpdateBatchOpCacheAndSend userID tenantID NotifyCategoryUser (w\<lparr>hw_db := d\<rparr>)))"

definition TenantBatchMarkRead ::
  "'b sender \<Rightarrow> time \<Rightarrow> bytes \<Rightarrow> bytes \<Rightarrow> 'b world \<Rightarrow> code_error option \<times> 'b world" where
  "TenantBatchMarkRead S now userID tenantID w =
     (let P = h_pg (sd_hub S) in
      case Transaction P (\<lambda>d.
             case WatermarkRepo_UpsertTenantReadAt P tenantID userID now d of
               Inl e \<Rightarrow> Inl e
             | Inr d1 \<Rightarrow>
                 (case StatusRepo_BatchMarkTenantNonBroadcastReadByUser P now userID tenantID d1 of
                    Inl e \<Rightarrow> Inl e
                  | Inr d2 \<Rightarrow> Inr ((), d2))) (hw_db w) of
        (Inl _, d) \<Rightarrow> (Some (NewCodeError InternalError MsgTenantReadFailed), w\<lparr>hw_db := d\<rparr>)
      | (Inr _, d) \<Rightarrow>
          (None, asyncUpdateBatchOpCacheAndSend userID tenantID NotifyCategoryTenant (w\<lparr>hw_db := d\<rparr>)))"

definition UserBatchDelete ::
  "'b sender \<Rightarrow> time \<Rightarrow> bytes \<Rightarrow> bytes \<Rightarrow> 'b world \<Rightarrow> code_error option \<times> 'b world" where
  "UserBatchDelete S now userID tenantID w =
     (case auto_commit (StatusRepo_BatchMarkDeleteUserNotifyByUser (h_pg (sd_hub S)) now userID tenantID (hw_db w)) (hw_db w) of
        (Inl _, d) \<Rightarrow> (Some (NewCodeError InternalError MsgBatchDeleteFailed), w\<lparr>hw_db := d\<rparr>)
      | (Inr _, d) \<Rightarrow>
          (None, asyncUpdateBatchOpCacheAndSend userID tenantID NotifyCategoryUser (w\<lparr>hw_db := d\<rparr>)))"

definition TenantBatchDelete ::
  "'b sender \<Rightarrow> time \<Rightarrow> bytes \<Rightarrow> bytes \<Rightarrow> 'b world \<Rightarrow> code_error option \<times> 'b world" where
  "TenantBatchDelete S now userID tenantID w =
     (let P = h_pg (sd_hub S) in
      case Transaction P (\<lambda>d.
             case WatermarkRepo_UpsertTenantClearAt P tenantID userID now d of
               Inl e \<Rightarrow> Inl e
             | Inr d1 \<Rightarrow>
                 (case StatusRepo_BatchMarkDeleteUserNotifyByUser P now userID tenantID d1 of
                    Inl e \<Rightarrow> Inl e
                  | Inr d2 \<Rightarrow> Inr ((), d2))) (hw_db w) of
        (Inl _, d) \<Rightarrow> (Some (NewCodeError InternalError MsgTenantDeleteFailed), w\<lparr>hw_db := d\<rparr>)
      | (Inr _, d) \<Rightarrow>
          (None, asyncUpdateBatchOpCacheAndSend userID tenantID NotifyCategoryTenant (w\<lparr>hw_db := d\<rparr>)))"

section \<open>Effects on the database\<close>

lemma containsUser_iff: "containsUser us u \<longleftrightarrow> u \<in> set us"
  by (induction us) auto

definition marked :: "time \<Rightarrow> bytes \<Rightarrow> (notify_record \<Rightarrow> bool) \<Rightarrow> int \<Rightarrow> db \<Rightarrow> db" where
  "marked now u wh st d = d\<lparr>t_status := map (\<lambda>s.
     if s_TargetUserID s = u \<and> in_records wh d (s_NotifyID s) then s\<lparr>s_Status := st, s_UpdateTime := now\<rparr> else s)
       (t_status d)\<rparr>"

lemma set_status_exact: "pg_ok P \<Longrightarrow> set_status_where P now u wh st d = Inr d' \<Longrightarrow> d' = marked now u wh st d"
  unfolding set_status_where_def marked_def by (drule (1) write_ok(4)) simp

text \<open>Only rows of this user for notifications of this tenant, and only this watermark, may change.\<close>
definition untouched :: "bytes \<Rightarrow> bytes \<Rightarrow> db \<Rightarrow> db \<Rightarrow> bool" where
  "untouched u t d d' =
     ((\<forall>u' n. u' \<noteq> u \<or> \<not> in_records (\<lambda>r. r_TenantID r = t) d n \<longrightarrow> pair_rows u' n d' = pair_rows u' n d) \<and>
      t_record d' = t_record d \<and> (\<forall>t' u'. (t', u') \<noteq> (t, u) \<longrightarrow> wm_of t' u' d' = wm_of t' u' d))"

lemma untouched_refl [simp]: "untouched u t d d"
  by (simp add: untouched_def)

lemma untouched_trans:
  "untouched u t d d1 \<Longrightarrow> untouched u t d1 d2 \<Longrightarrow> untouched u t d d2"
  by (simp add: untouched_def in_records_def)

lemma marked_untouched:
  assumes "\<And>r. wh r \<Longrightarrow> r_TenantID r = t"
  shows "untouched u t d (marked now u wh st d)"
proof -
  have "pair_rows u' n (marked now u wh st d) = pair_rows u' n d"
    if "u' \<noteq> u \<or> \<not> in_records (\<lambda>r. r_TenantID r = t) d n" for u' n
  proof -
    have "t_status (marked now u wh st d) = map (\<lambda>s. if s_TargetUserID s = u \<and> in_records wh d (s_NotifyID s)
        then s\<lparr>s_Status := st, s_UpdateTime := now\<rparr> else s) (t_status d)" by (simp add: marked_def)
    then show ?thesis
      unfolding pair_rows_def
      by (simp only:) (rule filter_map_other, use that assms in \<open>auto simp: in_records_def\<close>)
  qed
  then show ?thesis by (simp add: untouched_def marked_def wm_of_def)
qed

lemma watermark_untouched:
  assumes "pg_ok P"
  shows "WatermarkRepo_UpsertTenantReadAt P t u at d = Inr d' \<Longrightarrow> untouched u t d d' \<and>
      wm_of t u d' = Some (case wm_of t u d of None \<Rightarrow> new_watermark t u at zero_time | Some w \<Rightarrow> w\<lparr>w_TenantReadAt := at\<rparr>)"
    "WatermarkRepo_UpsertTenantClearAt P t u at d = Inr d' \<Longrightarrow> untouched u t d d' \<and>
      wm_of t u d' = Some (case wm_of t u d of None \<Rightarrow> new_watermark t u zero_time at | Some w \<Rightarrow> w\<lparr>w_TenantClearAt := at\<rparr>)"
  by (auto dest!: write_ok(3) [OF assms] simp: WatermarkRepo_UpsertTenantReadAt_def
      WatermarkRepo_UpsertTenantClearAt_def untouched_def pair_rows_def wm_of_upserted new_watermark_def
      split: option.split)

lemma wm_of_marked [simp]: "wm_of t' u' (marked now u wh st d) = wm_of t' u' d"
  by (simp add: wm_of_def marked_def)

text \<open>The database after each successful batch operation; a failed one leaves it alone.\<close>

lemma user_batch_effect:
  assumes "pg_ok (h_pg (sd_hub S))"
  shows "UserBatchMarkRead S now u t w = (None, w') \<Longrightarrow>
      hw_db w' = marked now u (\<lambda>r. r_TenantID r = t) NotifyStatusRead (hw_db w)"
    "UserBatchDelete S now u t w = (None, w') \<Longrightarrow>
      hw_db w' = marked now u (\<lambda>r. r_TenantID r = t) NotifyStatusDeleted (hw_db w)"
  by (auto simp: UserBatchMarkRead_def UserBatchDelete_def StatusRepo_BatchMarkReadByUser_def auto_commit_def
      StatusRepo_BatchMarkDeleteUserNotifyByUser_def asyncUpdateBatchOpCacheAndSend_def
      split: sum.splits dest!: set_status_exact [OF assms])

lemma tenant_batch_effect:
  assumes "pg_ok (h_pg (sd_hub S))"
  shows "TenantBatchMarkRead S now u t w = (None, w') \<Longrightarrow>
      \<exists>d1. WatermarkRepo_UpsertTenantReadAt (h_pg (sd_hub S)) t u now (hw_db w) = Inr d1 \<and>
        hw_db w' = marked now u (tenant_direct t) NotifyStatusRead d1"
    "TenantBatchDelete S now u t w = (None, w') \<Longrightarrow>
      \<exists>d1. WatermarkRepo_UpsertTenantClearAt (h_pg (sd_hub S)) t u now (hw_db w) = Inr d1 \<and>
        hw_db w' = marked now u (\<lambda>r. r_TenantID r = t) NotifyStatusDeleted d1"
  by (auto simp: TenantBatchMarkRead_def TenantBatchDelete_def Transaction_def Let_def
      StatusRepo_BatchMarkTenantNonBroadcastReadByUser_def asyncUpdateBatchOpCacheAndSend_def
      StatusRepo_BatchMarkDeleteUserNotifyByUser_def
      split: sum.splits option.splits dest!: set_status_exact [OF assms])

lemma batch_fails_unchanged:
  "UserBatchMarkRead S now u t w = (Some e, w') \<Longrightarrow> w' = w" "UserBatchDelete S now u t w = (Some e, w') \<Longrightarrow> w' = w"
  "TenantBatchMarkRead S now u t w = (Some e, w') \<Longrightarrow> w' = w" "TenantBatchDelete S now u t w = (Some e, w') \<Longrightarrow> w' = w"
  by (auto simp: UserBatchMarkRead_def UserBatchDelete_def TenantBatchMarkRead_def TenantBatchDelete_def
      Transaction_def auto_commit_def Let_def split: sum.splits option.splits)

lemma batch_untouched:
  assumes ok: "pg_ok (h_pg (sd_hub S))"
  shows "UserBatchMarkRead S now u t w = (e, w') \<Longrightarrow> untouched u t (hw_db w) (hw_db w')"
    "UserBatchDelete S now u t w = (e, w') \<Longrightarrow> untouched u t (hw_db w) (hw_db w')"
    "TenantBatchMarkRead S now u t w = (e, w') \<Longrightarrow> untouched u t (hw_db w) (hw_db w')"
    "TenantBatchDelete S now u t w = (e, w') \<Longrightarrow> untouched u t (hw_db w) (hw_db w')"
proof -
  note m = marked_untouched [of "\<lambda>r. r_TenantID r = t" t u] marked_untouched [of "tenant_direct t" t u]
  show "UserBatchMarkRead S now u t w = (e, w') \<Longrightarrow> untouched u t (hw_db w) (hw_db w')"
    by (cases e) (auto dest: batch_fails_unchanged simp: user_batch_effect [OF ok] m)
  show "UserBatchDelete S now u t w = (e, w') \<Longrightarrow> untouched u t (hw_db w) (hw_db w')"
    by (cases e) (auto dest: batch_fails_unchanged simp: user_batch_effect [OF ok] m)
  show "TenantBatchMarkRead S now u t w = (e, w') \<Longrightarrow> untouched u t (hw_db w) (hw_db w')"
    by (cases e) (auto dest!: tenant_batch_effect(1) [OF ok] watermark_untouched(1) [OF ok]
        dest: batch_fails_unchanged intro!: untouched_trans [OF _ m(2)] simp: tenant_direct_def)
  show "TenantBatchDelete S now u t w = (e, w') \<Longrightarrow> untouched u t (hw_db w) (hw_db w')"
    by (cases e) (auto dest!: tenant_batch_effect(2) [OF ok] watermark_untouched(2) [OF ok]
        dest: batch_fails_unchanged intro!: untouched_trans [OF _ m(1)])
qed

lemma FindByID_exact:
  assumes "pg_ok P" and "RecordRepo_FindByID P parse n d = Inr r"
  shows "r \<in> set (t_record d) \<and> parse n = Some (r_NotifyID r)"
proof -
  from assms(2) obtain k where k: "parse n = Some k"
    and f: "gorm_First (sel_record P (\<lambda>r. r_NotifyID r = k) (\<lambda>r. uint (r_NotifyID r)) 0 (Some 1) d) = Inr r"
    by (auto simp: RecordRepo_FindByID_def split: option.splits)
  then obtain xs where xs: "sel_record P (\<lambda>r. r_NotifyID r = k) (\<lambda>r. uint (r_NotifyID r)) 0 (Some 1) d = Inr xs"
    by (auto simp: gorm_First_def split: sum.splits)
  from First_cases [OF sel_ok(1) [OF assms(1) xs]] f xs k show ?thesis by auto
qed

lemma validate_access_exact:
  assumes "pg_ok (h_pg (sd_hub S))" and "validateNotifyAccess S U n u t d = Inr r"
  shows "r \<in> set (t_record d) \<and> pg_uuid U n = Some (r_NotifyID r) \<and> r_TenantID r = t \<and> u \<noteq> [] \<and>
     (r_TargetType r \<in> {TargetSingle, TargetMultiple} \<longrightarrow> u \<in> set (r_TargetIDs r))"
  using assms(2) FindByID_exact [OF assms(1), of "pg_uuid U" n d]
  by (auto simp: validateNotifyAccess_def containsUser_iff split: if_splits sum.splits)

lemma exec_ok:
  assumes ok: "pg_ok (h_pg (sd_hub S))" and "execStatusUpdate S U now fresh n u t st w = (None, w')"
  shows "\<exists>r s. validateNotifyAccess S U n u t (hw_db w) = Inr r \<and>
     StatusRepo_UpsertByUserAndNotify (h_pg (sd_hub S)) now fresh u (r_NotifyID r) st (hw_db w) = Inr (s, hw_db w') \<and>
     w' = w\<lparr>hw_db := hw_db w', hw_jobs := hw_jobs w @ [JobOnceOp r u]\<rparr>"
  using assms(2) by (auto simp: execStatusUpdate_def asyncUpdateOnceOpCacheAndSend_def split: sum.splits)

lemma exec_untouched:
  assumes ok: "pg_ok (h_pg (sd_hub S))" and keys: "db_keys_ok (hw_db w)"
    and e: "execStatusUpdate S U now fresh n u t st w = (e, w')"
  shows "untouched u t (hw_db w) (hw_db w')"
proof (cases e)
  case (Some err)
  with e show ?thesis by (auto simp: execStatusUpdate_def split: sum.splits)
next
  case None
  with exec_ok [OF ok] e obtain r s where r: "validateNotifyAccess S U n u t (hw_db w) = Inr r"
    and up: "StatusRepo_UpsertByUserAndNotify (h_pg (sd_hub S)) now fresh u (r_NotifyID r) st (hw_db w) = Inr (s, hw_db w')"
    by blast
  from validate_access_exact [OF ok r] have "in_records (\<lambda>r. r_TenantID r = t) (hw_db w) (r_NotifyID r)"
    by (auto simp: in_records_def)
  then have "(u', n') \<noteq> (u, r_NotifyID r)" if "u' \<noteq> u \<or> \<not> in_records (\<lambda>r. r_TenantID r = t) (hw_db w) n'" for u' n'
    using that by auto
  with upsert_exact [OF ok keys up] show ?thesis unfolding untouched_def wm_of_def by simp
qed

section \<open>Properties\<close>

text \<open>
  C19: Tenant and user isolation. Whatever a user does in a tenant (marking or deleting one notification,
  marking all read or clearing all, on the user or tenant side), whether it succeeds or fails, the
  status rows of every other user, the user's rows for notifications of other tenants, the
  watermarks of every other user or tenant, and all records stay as they are.
\<close>
theorem status_operations_isolated:
  assumes "pg_ok (h_pg (sd_hub S))" and "db_keys_ok (hw_db w)"
    and "(e, w') \<in> {MarkRead S U now fresh n u t w, DeleteNotify S U now fresh n u t w, UserBatchMarkRead S now u t w,
            TenantBatchMarkRead S now u t w, UserBatchDelete S now u t w, TenantBatchDelete S now u t w}"
  shows "untouched u t (hw_db w) (hw_db w')"
  using assms(3) exec_untouched [OF assms(1,2), of U now fresh n u t NotifyStatusRead e w']
    exec_untouched [OF assms(1,2), of U now fresh n u t NotifyStatusDeleted e w'] batch_untouched [OF assms(1)]
  by (auto simp: MarkRead_def DeleteNotify_def eq_commute [of "(e, w')"])

definition demo_uuids :: uuid_lib where
  "demo_uuids = \<lparr>uuid_Parse = (\<lambda>s. map_option of_nat (ParseUint s)), pg_uuid = (\<lambda>s. map_option of_nat (ParseUint s))\<rparr>"

definition inbox_world :: "local_broker world" where
  "inbox_world = demo_world\<lparr>hw_db := demo_db\<rparr>"

theorem status_operations_isolated_witness:
  "untouched ''7'' ''T'' demo_db (hw_db (snd (TenantBatchDelete demo_sender 9 ''7'' ''T'' inbox_world)))"
proof -
  have "(fst (TenantBatchDelete demo_sender 9 ''7'' ''T'' inbox_world), snd (TenantBatchDelete demo_sender 9 ''7'' ''T'' inbox_world))
      \<in> {MarkRead demo_sender demo_uuids 9 0 '''' ''7'' ''T'' inbox_world, DeleteNotify demo_sender demo_uuids 9 0 '''' ''7'' ''T'' inbox_world,
         UserBatchMarkRead demo_sender 9 ''7'' ''T'' inbox_world, TenantBatchMarkRead demo_sender 9 ''7'' ''T'' inbox_world,
         UserBatchDelete demo_sender 9 ''7'' ''T'' inbox_world, TenantBatchDelete demo_sender 9 ''7'' ''T'' inbox_world}" by simp
  with status_operations_isolated [OF pg_up_ok [OF demo_sender_ok(2)], of inbox_world] demo_keys
  show ?thesis by (fastforce simp: inbox_world_def)
qed

text \<open>
  C20: Who may change a status. A single operation succeeds only for an existing notification of the caller's
  tenant that is a broadcast or addressed to the caller; then the caller's row has the new status and
  the goroutine for exactly this record and user is started. Otherwise nothing changes, and the error
  is a bad request, not found, forbidden or an internal error.
\<close>
theorem status_change_authorised:
  assumes "pg_ok (h_pg (sd_hub S))" and "db_keys_ok (hw_db w)"
    and "execStatusUpdate S U now fresh n u t st w = (e, w')"
  shows "case e of
      Some err \<Rightarrow> w' = w \<and> Code err \<in> {BadRequest, NotFound, Forbidden, InternalError}
    | None \<Rightarrow> \<exists>r s. r \<in> set (t_record (hw_db w)) \<and> pg_uuid U n = Some (r_NotifyID r) \<and> r_TenantID r = t \<and>
        (r_TargetType r \<in> {TargetSingle, TargetMultiple} \<longrightarrow> u \<in> set (r_TargetIDs r)) \<and>
        s \<in> set (pair_rows u (r_NotifyID r) (hw_db w')) \<and> s_Status s = st \<and>
        hw_jobs w' = hw_jobs w @ [JobOnceOp r u]"
proof (cases e)
  case (Some err)
  with assms(3) show ?thesis
    by (auto simp: execStatusUpdate_def validateNotifyAccess_def NewCodeError_def split: sum.splits if_splits)
next
  case None
  with exec_ok [OF assms(1)] assms(3) obtain r s where r: "validateNotifyAccess S U n u t (hw_db w) = Inr r"
    and up: "StatusRepo_UpsertByUserAndNotify (h_pg (sd_hub S)) now fresh u (r_NotifyID r) st (hw_db w) = Inr (s, hw_db w')"
    and j: "w' = w\<lparr>hw_db := hw_db w', hw_jobs := hw_jobs w @ [JobOnceOp r u]\<rparr>" by blast
  from j have "hw_jobs w' = hw_jobs w @ [JobOnceOp r u]" by (metis world.select_convs(5) world.surjective world.update_convs(5))
  with validate_access_exact [OF assms(1) r] upsert_exact [OF assms(1,2) up] show ?thesis unfolding None by auto
qed

theorem status_change_authorised_witness:
  "\<exists>err. execStatusUpdate demo_sender demo_uuids 9 12 ''1'' ''8'' ''T'' NotifyStatusRead inbox_world = (Some err, inbox_world) \<and>
     Code err \<in> {BadRequest, NotFound, Forbidden, InternalError}"
proof -
  have "uuid_Parse demo_uuids ''1'' = Some 1" "pg_uuid demo_uuids ''1'' = Some 1"
    by (simp_all add: demo_uuids_def ParseUint_def char_digit_def Let_def)
  then have "\<exists>err w'. execStatusUpdate demo_sender demo_uuids 9 12 ''1'' ''8'' ''T'' NotifyStatusRead inbox_world = (Some err, w')"
    by (simp add: execStatusUpdate_def validateNotifyAccess_def RecordRepo_FindByID_def demo_sender_def demo_hub_def
        demo_pg_def demo_select_def inbox_world_def demo_db_def demo_record_def slice_def gorm_First_def code_defs)
  then obtain err w' where e: "execStatusUpdate demo_sender demo_uuids 9 12 ''1'' ''8'' ''T'' NotifyStatusRead inbox_world = (Some err, w')"
    by blast
  from status_change_authorised [OF pg_up_ok [OF demo_sender_ok(2)] _ e] demo_keys e show ?thesis
    by (simp add: inbox_world_def)
qed

lemma left_rows_sub: "row \<in> set (left_rows u d) \<Longrightarrow> fst row \<in> set (t_record d) \<and>
    (\<forall>s. snd row = Some s \<longrightarrow> s \<in> set (t_status d) \<and> s_NotifyID s = r_NotifyID (fst row) \<and> s_TargetUserID s = u)"
proof -
  assume "row \<in> set (left_rows u d)"
  then obtain r where r: "r \<in> set (t_record d)" and
    m: "row \<in> set (case filter (\<lambda>s. s_NotifyID s = r_NotifyID r \<and> s_TargetUserID s = u) (t_status d) of
       [] \<Rightarrow> [(r, None)] | ss \<Rightarrow> map (\<lambda>s. (r, Some s)) ss)" (is "_ \<in> set (case ?F of [] \<Rightarrow> _ | _ \<Rightarrow> _)")
    by (auto simp: left_rows_def)
  show ?thesis
  proof (cases ?F)
    case Nil
    with m r show ?thesis by simp
  next
    case (Cons a as)
    with m have "fst row = r \<and> (\<exists>s \<in> set ?F. snd row = Some s)" by auto
    with r show ?thesis by auto
  qed
qed

lemma no_rows: "(\<And>row. row \<in> set (left_rows u d) \<Longrightarrow> \<not> wh row) \<Longrightarrow> filter wh (left_rows u d) = []"
  by (simp add: filter_empty_conv)


lemma tenant_batch_demo:
  "\<exists>w1. TenantBatchMarkRead demo_sender 9 ''7'' ''T'' inbox_world = (None, w1)"
  "\<exists>w1. TenantBatchDelete demo_sender 9 ''7'' ''T'' inbox_world = (None, w1)"
  by (simp_all add: TenantBatchMarkRead_def TenantBatchDelete_def Transaction_def demo_sender_def demo_hub_def
      demo_pg_def WatermarkRepo_UpsertTenantReadAt_def WatermarkRepo_UpsertTenantClearAt_def set_status_where_def
      StatusRepo_BatchMarkTenantNonBroadcastReadByUser_def StatusRepo_BatchMarkDeleteUserNotifyByUser_def
      demo_select_def Let_def split: sum.splits)


text \<open>
  What the batch operations touch besides what their comments say. Marking all read writes the status of
  deleted notifications too, which the inbox then lists again; the tenant-side clear deletes the user's
  personal notifications as well.
\<close>
lemma read_all_revives_deleted:
  assumes "pg_ok (h_pg (sd_hub S))" and "UserBatchMarkRead S now u t w = (None, w')"
    and "r \<in> set (t_record (hw_db w))" and "r_TenantID r = t" and "s \<in> set (pair_rows u (r_NotifyID r) (hw_db w))"
  shows "s\<lparr>s_Status := NotifyStatusRead, s_UpdateTime := now\<rparr> \<in> set (pair_rows u (r_NotifyID r) (hw_db w'))"
proof -
  have "s_TargetUserID s = u" "s_NotifyID s = r_NotifyID r" "s \<in> set (t_status (hw_db w))"
    using assms(5) by (auto simp: pair_rows_def)
  moreover from assms(3,4) have "in_records (\<lambda>r. r_TenantID r = t) (hw_db w) (r_NotifyID r)" by (auto simp: in_records_def)
  moreover define f :: "notify_status \<Rightarrow> notify_status" where "f = (\<lambda>s. if s_TargetUserID s = u \<and> in_records (\<lambda>r. r_TenantID r = t) (hw_db w) (s_NotifyID s)
      then s\<lparr>s_Status := NotifyStatusRead, s_UpdateTime := now\<rparr> else s)"
  ultimately have "f s \<in> f ` set (t_status (hw_db w))" and "f s = s\<lparr>s_Status := NotifyStatusRead, s_UpdateTime := now\<rparr>"
    by simp_all
  moreover have "t_status (hw_db w') = map f (t_status (hw_db w))"
    by (simp add: user_batch_effect(1) [OF assms(1,2)] marked_def f_def)
  ultimately show ?thesis using assms(5) by (simp add: pair_rows_def)
qed

lemma tenant_clear_deletes_personal:
  assumes "pg_ok (h_pg (sd_hub S))" and "TenantBatchDelete S now u t w = (None, w')"
    and "r \<in> set (t_record (hw_db w'))" and "r_TenantID r = t" and "s \<in> set (pair_rows u (r_NotifyID r) (hw_db w'))"
  shows "s_Status s = NotifyStatusDeleted"
proof -
  obtain d1 where d: "hw_db w' = marked now u (\<lambda>r. r_TenantID r = t) NotifyStatusDeleted d1"
    using tenant_batch_effect(2) [OF assms(1,2)] by blast
  then have "in_records (\<lambda>r. r_TenantID r = t) d1 (r_NotifyID r)" using assms(3,4) by (simp add: in_records_def marked_def) blast
  moreover from assms(5) have "s \<in> set (t_status (marked now u (\<lambda>r. r_TenantID r = t) NotifyStatusDeleted d1))"
    and "s_TargetUserID s = u" "s_NotifyID s = r_NotifyID r" by (simp_all add: pair_rows_def d)
  moreover from this(1) have "s_Status s = NotifyStatusDeleted \<or>
      (s_TargetUserID s = u \<longrightarrow> \<not> in_records (\<lambda>r. r_TenantID r = t) d1 (s_NotifyID s))"
    by (simp add: marked_def) (elim disjE imageE; simp)
  ultimately show ?thesis by simp
qed

end
