(* ===== verification/Inbox.thy ===== *)
theory Inbox
  imports Repository
begin

text \<open>
  The inbox service: src/internal/service/inbox.go with the types of src/internal/dto/inbox.go. It reads
  the user's watermark where the tenant side needs it and turns repository pages into the HTTP
  interface's pages. The six reads change nothing. Shown: the HTTP page is the repository page with its
  items in order, the two interfaces and the statistics agree, and every database error becomes one
  error code.
\<close>

record inbox_page_req =
  iq_TenantID :: bytes
  iq_UserID :: bytes
  iq_PageIndex :: int
  iq_PageSize :: int

record inbox_item =
  it_NotifyID :: bytes
  it_Title :: bytes
  it_Content :: bytes
  it_SenderType :: int
  it_SenderID :: bytes
  it_EventType :: bytes
  it_ExpireAt :: "time option"
  it_CreatedAt :: time
  it_Status :: int

record inbox_page_res =
  ir_Total :: int
  ir_PageIndex :: int
  ir_PageSize :: int
  ir_PagesTotal :: int
  ir_Unread :: int
  ir_List :: "inbox_item list"

definition inbox_item_of :: "record_has_status \<Rightarrow> inbox_item" where
  "inbox_item_of item =
     \<lparr>it_NotifyID = rh_NotifyID item, it_Title = rh_Title item, it_Content = rh_Content item,
      it_SenderType = rh_SenderType item, it_SenderID = rh_SenderID item, it_EventType = rh_EventType item,
      it_ExpireAt = rh_ExpireAt item, it_CreatedAt = rh_CreatedAt item, it_Status = rh_Status item\<rparr>"

definition convertToPageRes :: "record_page \<Rightarrow> int \<Rightarrow> inbox_page_res" where
  "convertToPageRes page unread =
     \<lparr>ir_Total = pg_Total page, ir_PageIndex = pg_PageIndex page, ir_PageSize = pg_PageSize page,
      ir_PagesTotal = pg_PagesTotal page, ir_Unread = unread, ir_List = map inbox_item_of (pg_List page)\<rparr>"

definition query_failed :: code_error where
  "query_failed = NewCodeError DBError MsgQueryFailed"

definition GetPersonalPageRPC ::
  "pg \<Rightarrow> (uuid \<Rightarrow> bytes) \<Rightarrow> inbox_page_req \<Rightarrow> db \<Rightarrow> code_error + record_page \<times> int" where
  "GetPersonalPageRPC P str query d =
     (case RecordRepo_GetPersonalPage P str (iq_TenantID query) (iq_UserID query) (iq_PageIndex query) (iq_PageSize query) d of
        Inl _ \<Rightarrow> Inl query_failed
      | Inr (page, unread) \<Rightarrow> Inr (page, unread))"

definition GetTenantPageRPC ::
  "pg \<Rightarrow> (uuid \<Rightarrow> bytes) \<Rightarrow> inbox_page_req \<Rightarrow> db \<Rightarrow> code_error + record_page \<times> int" where
  "GetTenantPageRPC P str query d =
     (case WatermarkRepo_FindByTenantAndUser P (iq_TenantID query) (iq_UserID query) d of
        Inl _ \<Rightarrow> Inl query_failed
      | Inr watermark \<Rightarrow>
          (case RecordRepo_GetTenantPage P str (iq_TenantID query) (iq_UserID query) (iq_PageIndex query)
                  (iq_PageSize query) watermark d of
             Inl _ \<Rightarrow> Inl query_failed
           | Inr (page, unread) \<Rightarrow> Inr (page, unread)))"

definition GetPersonalPageHttp ::
  "pg \<Rightarrow> (uuid \<Rightarrow> bytes) \<Rightarrow> inbox_page_req \<Rightarrow> db \<Rightarrow> code_error + inbox_page_res" where
  "GetPersonalPageHttp P str query d =
     (case RecordRepo_GetPersonalPage P str (iq_TenantID query) (iq_UserID query) (iq_PageIndex query) (iq_PageSize query) d of
        Inl _ \<Rightarrow> Inl query_failed
      | Inr (page, unread) \<Rightarrow> Inr (convertToPageRes page unread))"

definition GetTenantPageHttp ::
  "pg \<Rightarrow> (uuid \<Rightarrow> bytes) \<Rightarrow> inbox_page_req \<Rightarrow> db \<Rightarrow> code_error + inbox_page_res" where
  "GetTenantPageHttp P str query d =
     (case WatermarkRepo_FindByTenantAndUser P (iq_TenantID query) (iq_UserID query) d of
        Inl _ \<Rightarrow> Inl query_failed
      | Inr watermark \<Rightarrow>
          (case RecordRepo_GetTenantPage P str (iq_TenantID query) (iq_UserID query) (iq_PageIndex query)
                  (iq_PageSize query) watermark d of
             Inl _ \<Rightarrow> Inl query_failed
           | Inr (page, unread) \<Rightarrow> Inr (convertToPageRes page unread)))"

definition GetPersonalStats :: "pg \<Rightarrow> bytes \<Rightarrow> bytes \<Rightarrow> db \<Rightarrow> code_error + int \<times> int" where
  "GetPersonalStats P tenantID userID d =
     (case RecordRepo_GetPersonalStats P tenantID userID d of
        Inl _ \<Rightarrow> Inl query_failed
      | Inr (cnt, unread) \<Rightarrow> Inr (cnt, unread))"

definition GetTenantStats :: "pg \<Rightarrow> bytes \<Rightarrow> bytes \<Rightarrow> db \<Rightarrow> code_error + int \<times> int" where
  "GetTenantStats P tenantID userID d =
     (case WatermarkRepo_FindByTenantAndUser P tenantID userID d of
        Inl _ \<Rightarrow> Inl query_failed
      | Inr watermark \<Rightarrow>
          (case RecordRepo_GetTenantStats P tenantID userID watermark d of
             Inl _ \<Rightarrow> Inl query_failed
           | Inr (cnt, unread) \<Rightarrow> Inr (cnt, unread)))"

lemma convert_keeps_items:
  "map it_NotifyID (ir_List (convertToPageRes page unread)) = map rh_NotifyID (pg_List page)"
  "length (ir_List (convertToPageRes page unread)) = length (pg_List page)"
  by (simp_all add: convertToPageRes_def inbox_item_of_def)

text \<open>The HTTP pages are the RPC pages, converted.\<close>
lemma http_page_is_rpc_page:
  "GetPersonalPageHttp P str query d = map_sum id (\<lambda>(page, unread). convertToPageRes page unread) (GetPersonalPageRPC P str query d)"
  "GetTenantPageHttp P str query d = map_sum id (\<lambda>(page, unread). convertToPageRes page unread) (GetTenantPageRPC P str query d)"
  by (auto simp: GetPersonalPageHttp_def GetPersonalPageRPC_def GetTenantPageHttp_def GetTenantPageRPC_def split: sum.splits)

text \<open>Every failure is the same error.\<close>
lemma inbox_errors:
  "GetPersonalPageHttp P str q d = Inl e \<Longrightarrow> e = query_failed" "GetTenantPageHttp P str q d = Inl e \<Longrightarrow> e = query_failed"
  "GetPersonalPageRPC P str q d = Inl e \<Longrightarrow> e = query_failed" "GetTenantPageRPC P str q d = Inl e \<Longrightarrow> e = query_failed"
  "GetPersonalStats P t u d = Inl e \<Longrightarrow> e = query_failed" "GetTenantStats P t u d = Inl e \<Longrightarrow> e = query_failed"
  by (auto simp: GetPersonalPageHttp_def GetPersonalPageRPC_def GetTenantPageHttp_def GetTenantPageRPC_def
      GetPersonalStats_def GetTenantStats_def split: sum.splits)

lemma inbox_up:
  assumes "pg_up P"
  shows "\<exists>page. GetPersonalPageHttp P str q d = Inr page" "\<exists>page. GetTenantPageHttp P str q d = Inr page"
    "\<exists>st. GetPersonalStats P t u d = Inr st" "\<exists>st. GetTenantStats P t u d = Inr st"
proof -
  have count: "\<exists>c n. count_query P u wh un d = Inr (c, n)" for u wh un
    using pg_up_select(4) [OF assms, of u wh "\<lambda>_. 0" 0 None d] by (auto simp: count_query_def)
  have page: "\<exists>page n. RecordRepo_GetPersonalPage P str t u i k d = Inr (page, n)"
    "\<exists>page n. RecordRepo_GetTenantPage P str t u i k wm d = Inr (page, n)" for t u i k wm
    using count [of u "personal_where t" personal_unread] count [of u "tenant_where t (clear_at wm)" "tenant_unread (read_at wm)"]
      pg_up_select(4) [OF assms, of u "personal_where t" newest_first "page_offset (norm_index i) (norm_size k)" "Some (norm_size k)" d]
      pg_up_select(4) [OF assms, of u "tenant_where t (clear_at wm)" newest_first "page_offset (norm_index i) (norm_size k)" "Some (norm_size k)" d]
    by (auto simp: RecordRepo_GetPersonalPage_def RecordRepo_GetTenantPage_def Let_def)
  have stats: "\<exists>c n. RecordRepo_GetPersonalStats P t u d = Inr (c, n)" "\<exists>c n. RecordRepo_GetTenantStats P t u wm d = Inr (c, n)" for t u wm
    by (simp_all add: RecordRepo_GetPersonalStats_def RecordRepo_GetTenantStats_def Let_def count)
  have wm: "\<exists>w. WatermarkRepo_FindByTenantAndUser P t u d = Inr w" for t u
    using pg_up_select(3) [OF assms, of "\<lambda>w. w_TenantID w = t \<and> w_UserID w = u" "\<lambda>_. 0" 0 "Some 1" d]
    by (auto simp: WatermarkRepo_FindByTenantAndUser_def gorm_First_def split: list.splits)
  show "\<exists>page. GetPersonalPageHttp P str q d = Inr page"
    using page(1) [of "iq_TenantID q" "iq_UserID q" "iq_PageIndex q" "iq_PageSize q"] by (auto simp: GetPersonalPageHttp_def)
  obtain w where w: "WatermarkRepo_FindByTenantAndUser P (iq_TenantID q) (iq_UserID q) d = Inr w" using wm by blast
  show "\<exists>page. GetTenantPageHttp P str q d = Inr page"
    using w page(2) [of "iq_TenantID q" "iq_UserID q" "iq_PageIndex q" "iq_PageSize q" w]
    by (auto simp: GetTenantPageHttp_def)
  show "\<exists>st. GetPersonalStats P t u d = Inr st" using stats(1) [of t u] by (auto simp: GetPersonalStats_def)
  show "\<exists>st. GetTenantStats P t u d = Inr st"
  proof -
    obtain w where "WatermarkRepo_FindByTenantAndUser P t u d = Inr w" using wm by blast
    with stats(2) [of t u w] show ?thesis by (auto simp: GetTenantStats_def)
  qed
qed

text \<open>The two interfaces and the statistics report the same counts.\<close>
lemma inbox_counts_agree:
  assumes "pg_ok P" and "GetPersonalPageHttp P str q d = Inr page"
    and "GetPersonalStats P (iq_TenantID q) (iq_UserID q) d = Inr (cnt, unread)"
  shows "ir_Total page = cnt \<and> ir_Unread page = unread \<and> 0 \<le> unread \<and> unread \<le> cnt"
proof -
  from assms(2) obtain rp n where g: "RecordRepo_GetPersonalPage P str (iq_TenantID q) (iq_UserID q) (iq_PageIndex q) (iq_PageSize q) d = Inr (rp, n)"
    and c: "page = convertToPageRes rp n"
    by (auto simp: GetPersonalPageHttp_def split: sum.splits)
  from g have p: "count_query P (iq_UserID q) (personal_where (iq_TenantID q)) personal_unread d = Inr (pg_Total rp, n)"
    by (auto simp: RecordRepo_GetPersonalPage_def Let_def split: sum.splits)
  from assms(3) have s: "count_query P (iq_UserID q) (personal_where (iq_TenantID q)) personal_unread d = Inr (cnt, unread)"
    by (auto simp: GetPersonalStats_def RecordRepo_GetPersonalStats_def split: sum.splits)
  from count_query_exact [OF assms(1) s] p s c show ?thesis by (simp add: convertToPageRes_def)
qed

end
