(* ===== verification/Ticket.thy ===== *)
theory Ticket
  imports Redis_Store Conf Go_Base64
begin

text \<open>
  One-time tickets: src/internal/service/ticket.go. A ticket is the tenant and user, encrypted with
  AES-GCM under the configured key and encoded in base64; Redis remembers it until it expires or is
  used. AES-GCM (crypto/aes, crypto/cipher) and the JSON text of \<open>TicketContent\<close> are parameters:
  \<open>aead\<close> with the law \<open>aead_ok\<close> (what is sealed opens to the same bytes) and \<open>ticket_json\<close>. Redis is the
  parameter of Redis_Store. The clock \<open>now\<close> is the hub's; expiry runs on the server's clock \<open>rs_now\<close>.

  Shown: a ticket is worth its tenant and user exactly once and only before it expires, and nothing else
  is ever accepted: without the mark in Redis no text is a ticket, whatever it decrypts to.
\<close>

record ticket_content =
  tc_Tenant :: bytes
  tc_UserID :: bytes

record ticket_json =
  tc_Marshal :: "ticket_content \<Rightarrow> bytes option"
  tc_Unmarshal :: "bytes \<Rightarrow> ticket_content option"

text \<open>\<open>gcm_Seal key nonce plaintext\<close> and \<open>gcm_Open key nonce ciphertext\<close>, without additional data.\<close>
record aead =
  gcm_Seal :: "bytes \<Rightarrow> bytes \<Rightarrow> bytes \<Rightarrow> bytes"
  gcm_Open :: "bytes \<Rightarrow> bytes \<Rightarrow> bytes \<Rightarrow> bytes option"

definition aead_ok :: "aead \<Rightarrow> bool" where
  "aead_ok A = (\<forall>k n p. gcm_Open A k n (gcm_Seal A k n p) = Some p)"

definition ticketKeyPrefix :: bytes where
  "ticketKeyPrefix = ''ticket''"

definition ticket_key :: "bytes \<Rightarrow> bytes" where
  "ticket_key ticket = WrapKey (ticketKeyPrefix @ '':'' @ ticket)"

section \<open>Encryption\<close>

text \<open>\<open>aes.NewCipher\<close> accepts the key sizes of AES; \<open>NonceSize\<close> of \<open>cipher.NewGCM\<close> is 12.\<close>
definition NewCipher_ok :: "bytes \<Rightarrow> bool" where
  "NewCipher_ok key = (length key \<in> {16, 24, 32})"

definition NonceSize :: nat where "NonceSize = 12"

text \<open>\<open>random\<close> is what \<open>io.ReadFull(rand.Reader, nonce)\<close> reads, \<open>None\<close> its failure.\<close>
definition encrypt :: "aead \<Rightarrow> bytes option \<Rightarrow> bytes \<Rightarrow> bytes \<Rightarrow> bytes option" where
  "encrypt A random plaintext key =
     (if \<not> NewCipher_ok key then None
      else (case random of
              None \<Rightarrow> None
            | Some nonce \<Rightarrow> Some (b64_encode b64_url (nonce @ gcm_Seal A key nonce plaintext))))"

definition decrypt :: "aead \<Rightarrow> bytes \<Rightarrow> bytes \<Rightarrow> bytes option" where
  "decrypt A ticket key =
     (case b64_decode b64_url ticket of
        None \<Rightarrow> None
      | Some data \<Rightarrow>
          if \<not> NewCipher_ok key then None
          else if length data < NonceSize then None
          else gcm_Open A key (take NonceSize data) (drop NonceSize data))"

section \<open>The service\<close>

text \<open>go-redis sends an expiry only for a positive duration.\<close>
definition set_ttl :: "int \<Rightarrow> int option" where
  "set_ttl d = (if d > 0 then Some d else None)"

definition ApplyTicket ::
  "redis \<Rightarrow> aead \<Rightarrow> ticket_json \<Rightarrow> ticket_config \<Rightarrow> time \<Rightarrow> bytes option \<Rightarrow> bytes \<Rightarrow> bytes \<Rightarrow> rstore
     \<Rightarrow> (code_error + bytes \<times> time \<times> time) \<times> rstore" where
  "ApplyTicket R A J cfg now random tenant userID s =
     (let expiry = go_int64 (TicketExpireSeconds cfg * time_Second);
          expireAt = now + expiry in
      case tc_Marshal J \<lparr>tc_Tenant = tenant, tc_UserID = userID\<rparr> of
        None \<Rightarrow> (Inl (NewCodeError InternalError MsgTicketMarshal), s)
      | Some contentJson \<Rightarrow>
          (case encrypt A random contentJson (AseKey cfg) of
             None \<Rightarrow> (Inl (NewCodeError InternalError MsgTicketEncrypt), s)
           | Some ticket \<Rightarrow>
               (case rd_exec R (SET (ticket_key ticket) ''1'' (set_ttl expiry)) s of
                  (Inl _, s1) \<Rightarrow> (Inl (NewCodeError InternalError MsgTicketSave), s1)
                | (Inr _, s1) \<Rightarrow> (Inr (ticket, expireAt, now), s1))))"

text \<open>\<open>Result\<close> turns a nil reply into an error.\<close>
definition VerifyTicket ::
  "redis \<Rightarrow> aead \<Rightarrow> ticket_json \<Rightarrow> ticket_config \<Rightarrow> bytes \<Rightarrow> rstore \<Rightarrow> (err_msg + ticket_content) \<times> rstore" where
  "VerifyTicket R A J cfg ticket s =
     (if ticket = [] then (Inl MsgTicketEmpty, s)
      else
        (case rd_exec R (GETDEL (ticket_key ticket)) s of
           (Inl _, s1) \<Rightarrow> (Inl MsgTicketUsed, s1)
         | (Inr RNil, s1) \<Rightarrow> (Inl MsgTicketUsed, s1)
         | (Inr _, s1) \<Rightarrow>
             (case decrypt A ticket (AseKey cfg) of
                None \<Rightarrow> (Inl MsgTicketDecrypt, s1)
              | Some content \<Rightarrow>
                  (case tc_Unmarshal J content of
                     None \<Rightarrow> (Inl MsgTicketUnmarshal, s1)
                   | Some ticketContent \<Rightarrow> (Inr ticketContent, s1)))))"

section \<open>One ticket\<close>

text \<open>The text \<open>ApplyTicket\<close> computes.\<close>
definition ticket_text :: "aead \<Rightarrow> ticket_json \<Rightarrow> ticket_config \<Rightarrow> bytes option \<Rightarrow> ticket_content \<Rightarrow> bytes option" where
  "ticket_text A J cfg random c =
     (case tc_Marshal J c of None \<Rightarrow> None | Some b \<Rightarrow> encrypt A random b (AseKey cfg))"

text \<open>The content survives JSON, and the nonce has its size.\<close>
definition ticket_wire :: "ticket_json \<Rightarrow> bytes option \<Rightarrow> ticket_content \<Rightarrow> bool" where
  "ticket_wire J random c =
     ((\<forall>b. tc_Marshal J c = Some b \<longrightarrow> tc_Unmarshal J b = Some c) \<and>
      (\<forall>nonce. random = Some nonce \<longrightarrow> length nonce = NonceSize))"

lemma ticket_key_inj [simp]: "ticket_key a = ticket_key b \<longleftrightarrow> a = b"
  by (simp add: ticket_key_def WrapKey_def)

lemma encode_nonempty: "xs \<noteq> [] \<Longrightarrow> b64_encode al xs \<noteq> []"
  by (induction al xs rule: b64_encode.induct) (simp_all add: b64_digits_def)

lemma decrypt_text:
  assumes "aead_ok A" and "ticket_text A J cfg random c = Some tk" and "ticket_wire J random c"
  shows "tk \<noteq> [] \<and> (\<exists>b. decrypt A tk (AseKey cfg) = Some b \<and> tc_Unmarshal J b = Some c)"
proof -
  from assms(2) obtain b nonce where b: "tc_Marshal J c = Some b" and n: "random = Some nonce" and
    k: "NewCipher_ok (AseKey cfg)" and tk: "tk = b64_encode b64_url (nonce @ gcm_Seal A (AseKey cfg) nonce b)"
    by (auto simp: ticket_text_def encrypt_def split: option.splits if_splits)
  from assms(3) b n have w: "tc_Unmarshal J b = Some c" "length nonce = NonceSize" by (simp_all add: ticket_wire_def)
  then have "nonce \<noteq> []" by (auto simp: NonceSize_def)
  with tk encode_nonempty have "tk \<noteq> []" by simp
  moreover have "decrypt A tk (AseKey cfg) = Some b"
    using assms(1) k w(2) by (simp add: decrypt_def tk aead_ok_def)
  ultimately show ?thesis using w(1) by blast
qed

lemma ApplyTicket_ok:
  assumes "ApplyTicket R A J cfg now random t u s = (Inr (tk, e, n), s1)"
  shows "ticket_text A J cfg random \<lparr>tc_Tenant = t, tc_UserID = u\<rparr> = Some tk \<and> n = now \<and>
     e = now + go_int64 (TicketExpireSeconds cfg * time_Second) \<and>
     (\<exists>r. rd_exec R (SET (ticket_key tk) ''1'' (set_ttl (go_int64 (TicketExpireSeconds cfg * time_Second)))) s = (Inr r, s1))"
  using assms by (auto simp: ApplyTicket_def ticket_text_def Let_def split: option.splits sum.splits prod.splits)

lemma VerifyTicket_accepts:
  assumes "redis_faithful R" and "VerifyTicket R A J cfg tk s = (Inr c, s')"
  shows "tk \<noteq> [] \<and> alive s (ticket_key tk) \<noteq> None \<and> s' = drop_key (ticket_key tk) s \<and>
     (\<exists>b. decrypt A tk (AseKey cfg) = Some b \<and> tc_Unmarshal J b = Some c)"
proof -
  from assms(2) obtain r where x: "rd_exec R (GETDEL (ticket_key tk)) s = (Inr r, s')" "r \<noteq> RNil" and tk: "tk \<noteq> []"
    and d: "\<exists>b. decrypt A tk (AseKey cfg) = Some b \<and> tc_Unmarshal J b = Some c"
    by (auto simp: VerifyTicket_def split: if_splits sum.splits prod.splits option.splits rreply.splits)
  from faithful_reply [OF assms(1) x(1)] x(2) tk d show ?thesis
    by (auto simp: redis_doc_def split: option.splits rval.splits)
qed

lemma VerifyTicket_gone:
  "redis_up R \<Longrightarrow> alive s (ticket_key tk) = None \<Longrightarrow> VerifyTicket R A J cfg tk s =
     (Inl (if tk = [] then MsgTicketEmpty else MsgTicketUsed), s)"
  by (simp add: VerifyTicket_def redis_doc_def)

lemma VerifyTicket_marked:
  assumes "redis_up R" and "alive s (ticket_key tk) = Some (RStr v, x)" and "tk \<noteq> []"
    and "decrypt A tk (AseKey cfg) = Some b" and "tc_Unmarshal J b = Some c"
  shows "VerifyTicket R A J cfg tk s = (Inr c, drop_key (ticket_key tk) s)"
  using assms by (simp add: VerifyTicket_def redis_doc_def)

section \<open>All tickets\<close>

text \<open>The service over time: applications, verifications, and the clock of the Redis server.\<close>
datatype ticket_event = TkApply time "bytes option" ticket_content | TkVerify bytes | TkClock time

fun ticket_step ::
  "redis \<Rightarrow> aead \<Rightarrow> ticket_json \<Rightarrow> ticket_config \<Rightarrow> ticket_event \<Rightarrow> rstore \<Rightarrow> (bytes \<times> ticket_content) list \<times> rstore" where
  "ticket_step R A J cfg (TkApply now random c) s =
     ([], snd (ApplyTicket R A J cfg now random (tc_Tenant c) (tc_UserID c) s))"
| "ticket_step R A J cfg (TkVerify tk) s =
     (case VerifyTicket R A J cfg tk s of
        (Inl _, s') \<Rightarrow> ([], s')
      | (Inr c, s') \<Rightarrow> ([(tk, c)], s'))"
| "ticket_step R A J cfg (TkClock t) s = ([], s\<lparr>rs_now := t\<rparr>)"

text \<open>The tickets accepted, with what they were worth.\<close>
fun accepted ::
  "redis \<Rightarrow> aead \<Rightarrow> ticket_json \<Rightarrow> ticket_config \<Rightarrow> ticket_event list \<Rightarrow> rstore \<Rightarrow> (bytes \<times> ticket_content) list" where
  "accepted R A J cfg [] s = []"
| "accepted R A J cfg (ev # evs) s =
     (case ticket_step R A J cfg ev s of (xs, s') \<Rightarrow> xs @ accepted R A J cfg evs s')"

definition issues :: "aead \<Rightarrow> ticket_json \<Rightarrow> ticket_config \<Rightarrow> bytes \<Rightarrow> ticket_event \<Rightarrow> bool" where
  "issues A J cfg tk ev =
     (case ev of TkApply _ random c \<Rightarrow> ticket_text A J cfg random c = Some tk | _ \<Rightarrow> False)"

lemma content_eta [simp]: "\<lparr>tc_Tenant = tc_Tenant c, tc_UserID = tc_UserID c\<rparr> = (c :: ticket_content)"
  by (cases c) simp

lemma apply_marks:
  assumes "redis_faithful R"
  shows "rs_kv (snd (ApplyTicket R A J cfg now random (tc_Tenant c) (tc_UserID c) s)) (ticket_key tk) =
      rs_kv s (ticket_key tk) \<or> ticket_text A J cfg random c = Some tk"
proof (cases "ticket_text A J cfg random c")
  case None
  then show ?thesis
    by (auto simp: ApplyTicket_def ticket_text_def Let_def split: option.splits)
next
  case (Some tk')
  let ?c = "SET (ticket_key tk') ''1'' (set_ttl (go_int64 (TicketExpireSeconds cfg * time_Second)))"
  have "snd (ApplyTicket R A J cfg now random (tc_Tenant c) (tc_UserID c) s) = snd (rd_exec R ?c s)"
    using Some by (auto simp: ApplyTicket_def ticket_text_def Let_def split: option.splits sum.splits prod.splits)
  moreover have "rs_kv (snd (redis_doc ?c s)) (ticket_key tk) = rs_kv s (ticket_key tk)" if "tk \<noteq> tk'"
    using that by (simp add: redis_doc_def put_def)
  ultimately show ?thesis using faithful_state [OF assms, of ?c s] Some by auto
qed

lemma verify_marks:
  assumes "redis_faithful R"
  shows "rs_kv (snd (VerifyTicket R A J cfg tk' s)) (ticket_key tk) \<in> {rs_kv s (ticket_key tk), None}"
proof -
  let ?c = "GETDEL (ticket_key tk')"
  have "snd (VerifyTicket R A J cfg tk' s) \<in> {s, snd (rd_exec R ?c s)}"
    by (auto simp: VerifyTicket_def split: sum.splits prod.splits option.splits rreply.splits)
  moreover have "rs_kv (snd (redis_doc ?c s)) (ticket_key tk) \<in> {rs_kv s (ticket_key tk), None}"
    by (auto simp: redis_doc_def drop_key_def split: option.splits rval.splits prod.splits)
  ultimately show ?thesis using faithful_state [OF assms, of ?c s] by auto
qed

lemma alive_kv: "alive s k \<noteq> None \<Longrightarrow> rs_kv s k \<noteq> None"
  by (auto simp: alive_def split: option.splits)

text \<open>Every acceptance uses up the mark of an earlier application.\<close>
lemma accepted_bound:
  assumes f: "redis_faithful R"
  shows "length (filter (\<lambda>a. fst a = tk) (accepted R A J cfg evs s)) \<le>
     length (filter (issues A J cfg tk) evs) + (if rs_kv s (ticket_key tk) = None then 0 else 1)"
proof (induction evs arbitrary: s)
  case (Cons ev evs)
  note IH = Cons.IH [of "snd (ticket_step R A J cfg ev s)"]
  show ?case
  proof (cases ev)
    case (TkApply now random c)
    from apply_marks [OF f, of A J cfg now random c s tk] IH show ?thesis
      by (auto simp: TkApply issues_def split: if_splits)
  next
    case (TkVerify tk')
    show ?thesis
    proof (cases "VerifyTicket R A J cfg tk' s")
      case (Pair r s')
      from verify_marks [OF f, of A J cfg tk' s tk] IH
        VerifyTicket_accepts [OF f, of A J cfg tk' s _ s'] alive_kv [of s "ticket_key tk'"]
      show ?thesis
        by (cases r) (auto simp: TkVerify Pair issues_def drop_key_def split: if_splits)
    qed
  next
    case (TkClock t)
    with IH show ?thesis by (simp add: issues_def)
  qed
qed simp

lemma accepted_issued:
  assumes f: "redis_faithful R"
  shows "(tk, c) \<in> set (accepted R A J cfg evs s) \<Longrightarrow>
     (rs_kv s (ticket_key tk) \<noteq> None \<or> (\<exists>ev \<in> set evs. issues A J cfg tk ev)) \<and>
     (\<exists>b. decrypt A tk (AseKey cfg) = Some b \<and> tc_Unmarshal J b = Some c)"
proof (induction evs arbitrary: s)
  case (Cons ev evs)
  show ?case
  proof (cases "(tk, c) \<in> set (accepted R A J cfg evs (snd (ticket_step R A J cfg ev s)))")
    case True
    have "rs_kv s (ticket_key tk) \<noteq> None \<or> issues A J cfg tk ev"
      if "rs_kv (snd (ticket_step R A J cfg ev s)) (ticket_key tk) \<noteq> None"
    proof (cases ev)
      case (TkApply now random c')
      with apply_marks [OF f, of A J cfg now random c' s tk] that show ?thesis by (auto simp: issues_def)
    next
      case (TkVerify tk')
      with verify_marks [OF f, of A J cfg tk' s tk] that show ?thesis
        by (auto split: prod.splits sum.splits)
    next
      case (TkClock t)
      with that show ?thesis by simp
    qed
    with Cons.IH [OF True] show ?thesis by auto
  next
    case False
    with Cons.prems obtain s' where "VerifyTicket R A J cfg tk s = (Inr c, s')"
      by (cases ev) (auto split: prod.splits sum.splits)
    from VerifyTicket_accepts [OF f this] alive_kv show ?thesis by blast
  qed
qed simp

section \<open>Properties\<close>

text \<open>
  C32: A ticket is good exactly once. With Redis answering, the ticket \<open>ApplyTicket\<close> returned is worth its
  tenant and user to the first verification before its lifetime \<open>d\<close> has passed on the Redis clock (at
  any time, if the configured lifetime is not positive: the mark then never expires); a second
  verification, and any verification after the lifetime, is refused as used or expired.
\<close>
theorem ticket_good_exactly_once:
  assumes "redis_up R" and "aead_ok A" and "ticket_wire J random \<lparr>tc_Tenant = t, tc_UserID = u\<rparr>"
    and "ApplyTicket R A J cfg now random t u s = (Inr (tk, expireAt, createdAt), s1)"
    and "d = go_int64 (TicketExpireSeconds cfg * time_Second)" and "s2 = s1\<lparr>rs_now := t2\<rparr>"
  shows "expireAt = createdAt + d \<and>
     (if d \<le> 0 \<or> t2 < rs_now s + d
      then \<exists>s3. VerifyTicket R A J cfg tk s2 = (Inr \<lparr>tc_Tenant = t, tc_UserID = u\<rparr>, s3) \<and>
        (\<forall>t3. fst (VerifyTicket R A J cfg tk (s3\<lparr>rs_now := t3\<rparr>)) = Inl MsgTicketUsed)
      else fst (VerifyTicket R A J cfg tk s2) = Inl MsgTicketUsed)"
proof -
  note ap = ApplyTicket_ok [OF assms(4), folded assms(5)]
  then have s1: "s1 = put (ticket_key tk) (RStr ''1'') (map_option (\<lambda>d. rs_now s + d) (set_ttl d)) s"
    using assms(1) by (auto simp: redis_doc_def)
  have al: "alive s2 (ticket_key tk) = (if d \<le> 0 \<or> t2 < rs_now s + d
      then Some (RStr ''1'', map_option (\<lambda>d. rs_now s + d) (set_ttl d)) else None)"
    by (auto simp: assms(6) s1 alive_def put_def set_ttl_def)
  from decrypt_text [OF assms(2) conjunct1 [OF ap] assms(3)] obtain b where tk: "tk \<noteq> []" and
    b: "decrypt A tk (AseKey cfg) = Some b" "tc_Unmarshal J b = Some \<lparr>tc_Tenant = t, tc_UserID = u\<rparr>" by blast
  have gone: "alive ((drop_key k s2)\<lparr>rs_now := t3\<rparr>) k = None" for k t3
    by (simp add: alive_def drop_key_def)
  show ?thesis
  proof (cases "d \<le> 0 \<or> t2 < rs_now s + d")
    case True
    with VerifyTicket_marked [OF assms(1) _ tk b] al
    have "VerifyTicket R A J cfg tk s2 = (Inr \<lparr>tc_Tenant = t, tc_UserID = u\<rparr>, drop_key (ticket_key tk) s2)" by simp
    moreover have "fst (VerifyTicket R A J cfg tk ((drop_key (ticket_key tk) s2)\<lparr>rs_now := t3\<rparr>)) = Inl MsgTicketUsed" for t3
      using VerifyTicket_gone [OF assms(1) gone] tk by simp
    ultimately show ?thesis using True ap by auto
  next
    case False
    with VerifyTicket_gone [OF assms(1), of s2 tk A J cfg] al tk ap show ?thesis by simp
  qed
qed

text \<open>A cipher and a JSON codec for the witnesses: the plaintext itself, and the parts with a separator.\<close>
definition demo_aead :: aead where
  "demo_aead = \<lparr>gcm_Seal = (\<lambda>k n p. p), gcm_Open = (\<lambda>k n c. Some c)\<rparr>"

definition demo_ticket_json :: ticket_json where
  "demo_ticket_json = \<lparr>tc_Marshal = (\<lambda>c. Some (tc_Tenant c @ CHR ''|'' # tc_UserID c)),
     tc_Unmarshal = (\<lambda>b. Some \<lparr>tc_Tenant = takeWhile (\<lambda>x. x \<noteq> CHR ''|'') b,
                              tc_UserID = tl (dropWhile (\<lambda>x. x \<noteq> CHR ''|'') b)\<rparr>)\<rparr>"

definition demo_ticket_config :: ticket_config where
  "demo_ticket_config = \<lparr>TicketExpireSeconds = 30, AseKey = ''0123456789abcdef''\<rparr>"

lemma demo_ticket_setting:
  "aead_ok demo_aead" "ticket_wire demo_ticket_json (Some ''nonce-nonce-'') \<lparr>tc_Tenant = ''T'', tc_UserID = ''7''\<rparr>"
  "\<exists>tk s1. ApplyTicket demo_redis demo_aead demo_ticket_json demo_ticket_config 5 (Some ''nonce-nonce-'') ''T'' ''7''
     (empty_store 0) = (Inr (tk, 30000000005, 5), s1)"
  by (simp_all add: aead_ok_def demo_aead_def ticket_wire_def demo_ticket_json_def NonceSize_def ApplyTicket_def
      encrypt_def NewCipher_ok_def demo_ticket_config_def demo_redis_def redis_doc_def time_Second_def go_int64_id)

theorem ticket_good_exactly_once_witness:
  "\<exists>tk s1 s3. ApplyTicket demo_redis demo_aead demo_ticket_json demo_ticket_config 5 (Some ''nonce-nonce-'') ''T'' ''7''
       (empty_store 0) = (Inr (tk, 30000000005, 5), s1) \<and>
     VerifyTicket demo_redis demo_aead demo_ticket_json demo_ticket_config tk (s1\<lparr>rs_now := 9\<rparr>) =
       (Inr \<lparr>tc_Tenant = ''T'', tc_UserID = ''7''\<rparr>, s3)"
proof -
  obtain tk s1 where a: "ApplyTicket demo_redis demo_aead demo_ticket_json demo_ticket_config 5 (Some ''nonce-nonce-'')
      ''T'' ''7'' (empty_store 0) = (Inr (tk, 30000000005, 5), s1)" using demo_ticket_setting(3) by blast
  have d: "30000000000 = go_int64 (TicketExpireSeconds demo_ticket_config * time_Second)"
    by (simp add: demo_ticket_config_def time_Second_def go_int64_id)
  from ticket_good_exactly_once [OF demo_redis_ok(1) demo_ticket_setting(1,2) a d refl, of 9] a
  show ?thesis by (auto simp: empty_store_def)
qed

text \<open>
  C33: Tickets cannot be forged or used twice. Over any history of applications, verifications and passing
  time, with Redis failing or losing replies at any point, and starting without tickets, every
  accepted text was issued in that history, for the tenant and user it was accepted for, and was
  accepted at most as often as it was issued. No property of the cipher beyond inverting itself is
  needed: a text without its mark in Redis is refused whatever it decrypts to.
\<close>
theorem tickets_single_use:
  assumes "redis_faithful R" and "aead_ok A" and "\<forall>tk. rs_kv s (ticket_key tk) = None"
    and "\<forall>now random c. TkApply now random c \<in> set evs \<longrightarrow> ticket_wire J random c"
  shows "length (filter (\<lambda>a. fst a = tk) (accepted R A J cfg evs s)) \<le> length (filter (issues A J cfg tk) evs) \<and>
     ((tk, c) \<in> set (accepted R A J cfg evs s) \<longrightarrow>
       (\<exists>now random. TkApply now random c \<in> set evs \<and> ticket_text A J cfg random c = Some tk))"
proof (intro conjI impI)
  show "length (filter (\<lambda>a. fst a = tk) (accepted R A J cfg evs s)) \<le> length (filter (issues A J cfg tk) evs)"
    using accepted_bound [OF assms(1), of tk A J cfg evs s] assms(3) by simp
  assume "(tk, c) \<in> set (accepted R A J cfg evs s)"
  from accepted_issued [OF assms(1) this] assms(3) obtain ev b where ev: "ev \<in> set evs" "issues A J cfg tk ev"
    and b: "decrypt A tk (AseKey cfg) = Some b" "tc_Unmarshal J b = Some c" by auto
  then obtain now random c' where c': "TkApply now random c' \<in> set evs" "ticket_text A J cfg random c' = Some tk"
    by (auto simp: issues_def split: ticket_event.splits)
  from decrypt_text [OF assms(2) c'(2)] assms(4) c'(1) b have "c' = c" by auto
  with c' show "\<exists>now random. TkApply now random c \<in> set evs \<and> ticket_text A J cfg random c = Some tk" by blast
qed

theorem tickets_single_use_witness:
  "\<forall>tk. length (filter (\<lambda>a. fst a = tk) (accepted demo_redis demo_aead demo_ticket_json demo_ticket_config
      [TkApply 5 (Some ''nonce-nonce-'') \<lparr>tc_Tenant = ''T'', tc_UserID = ''7''\<rparr>, TkVerify tk, TkVerify tk] (empty_store 0))) \<le> 1"
proof
  fix tk
  let ?evs = "[TkApply 5 (Some ''nonce-nonce-'') \<lparr>tc_Tenant = ''T'', tc_UserID = ''7''\<rparr>, TkVerify tk, TkVerify tk]"
  have "length (filter (issues demo_aead demo_ticket_json demo_ticket_config tk) ?evs) \<le> 1"
    by (simp add: issues_def)
  moreover have "\<forall>now random c. TkApply now random c \<in> set ?evs \<longrightarrow> ticket_wire demo_ticket_json random c"
    using demo_ticket_setting(2) by simp
  moreover have "\<forall>tk. rs_kv (empty_store 0) (ticket_key tk) = None" by (simp add: empty_store_def)
  ultimately show "length (filter (\<lambda>a. fst a = tk) (accepted demo_redis demo_aead demo_ticket_json demo_ticket_config ?evs (empty_store 0))) \<le> 1"
    using tickets_single_use [OF demo_redis_ok(2) demo_ticket_setting(1), of "empty_store 0" ?evs demo_ticket_json tk demo_ticket_config]
    by (meson le_trans)
qed

end
