(* ===== verification/Hub_Service.thy ===== *)
theory Hub_Service
  imports Dispatch Go_Strconv
begin

text \<open>
  Subscriptions: src/internal/service/hub.go. \<open>Hub_Register\<close> allocates a connection and joins the pool,
  \<open>Hub_Unregister\<close> leaves it, \<open>Subscribe\<close> is the loop between them, a \<open>select\<close> over the request's context,
  the connection's channel and a heartbeat. The loop is a recursion over the cases the \<open>select\<close> takes,
  interleaved with what other goroutines do to the pool (\<open>EvEnv\<close>: the dispatcher processes a message,
  other connections join or leave). What the client has received is the list of written events.
  \<open>data_Marshal\<close> is \<open>sonic.Marshal\<close> of a message's data; each event says whether its write succeeds.

  Shown: the client receives exactly the messages put into the connection's channel, in order, up to a
  suffix still queued and at most one lost in a failed write; and however the loop ends, the connection
  is closed and gone from the pool while no other registration is touched.
\<close>

definition Hub_Register :: "bytes \<Rightarrow> bytes \<Rightarrow> bytes \<Rightarrow> conn_ref \<Rightarrow> hub_pool \<Rightarrow> hub_pool" where
  "Hub_Register tenantID userID connID r p =
     Dispatcher_Join tenantID userID connID r (p\<lparr>conns := (conns p)(r := new_hub_conn)\<rparr>)"

definition Hub_Unregister :: "bytes \<Rightarrow> bytes \<Rightarrow> bytes \<Rightarrow> conn_ref \<Rightarrow> hub_pool \<Rightarrow> hub_pool" where
  "Hub_Unregister tenantID userID connID exactConn p = Dispatcher_Leave tenantID userID connID (Some exactConn) p"

datatype env_op =
    EnvDispatch message
  | EnvJoin bytes bytes bytes conn_ref
  | EnvLeave bytes bytes bytes "conn_ref option"

fun env_step :: "codec \<Rightarrow> env_op \<Rightarrow> hub_pool \<Rightarrow> hub_pool" where
  "env_step C (EnvDispatch msg) p = snd (Dispatcher_process C msg (False, p))"
| "env_step C (EnvJoin t u c r) p = Hub_Register t u c r p"
| "env_step C (EnvLeave t u c ex) p = Dispatcher_Leave t u c ex p"

text \<open>The cases of the \<open>select\<close>; the flag of the last two is whether \<open>WriteEvent\<close> succeeds.\<close>
datatype sub_event = EvCancel | EvReceive bool | EvHeartbeat int bool | EvEnv env_op

record sub_state =
  su_pool :: hub_pool
  su_out :: "(bytes \<times> bytes \<times> bytes) list"
  su_running :: bool

definition heartbeat_data :: "int \<Rightarrow> bytes" where
  "heartbeat_data t = ''{\"time\":'' @ go_itoa t @ ''}''"

text \<open>A \<open>return\<close> of the loop, with its deferred \<open>Unregister\<close>.\<close>
definition sub_return :: "subscribe_param \<Rightarrow> conn_ref \<Rightarrow> sub_state \<Rightarrow> sub_state" where
  "sub_return param r st =
     st\<lparr>su_running := False,
        su_pool := Hub_Unregister (SubTenantID param) (SubUserID param) (SubConnID param) r (su_pool st)\<rparr>"

definition WriteEvent :: "bool \<Rightarrow> bytes \<times> bytes \<times> bytes \<Rightarrow> subscribe_param \<Rightarrow> conn_ref \<Rightarrow> sub_state \<Rightarrow> sub_state" where
  "WriteEvent ok e param r st = (if ok then st\<lparr>su_out := su_out st @ [e]\<rparr> else sub_return param r st)"

fun sub_step ::
  "codec \<Rightarrow> (json \<Rightarrow> bytes option) \<Rightarrow> subscribe_param \<Rightarrow> conn_ref \<Rightarrow> sub_event \<Rightarrow> sub_state \<Rightarrow> sub_state" where
  "sub_step C M param r EvCancel st = sub_return param r st"
| "sub_step C M param r (EvReceive ok) st =
     (let cn = conns (su_pool st) r in
      case MessageChan cn of
        [] \<Rightarrow> if chan_closed cn then sub_return param r st else st
      | msg # rest \<Rightarrow>
          let st1 = st\<lparr>su_pool := (su_pool st)\<lparr>conns := (conns (su_pool st))(r := cn\<lparr>MessageChan := rest\<rparr>)\<rparr>\<rparr> in
          (case M (msg_Data msg) of
             None \<Rightarrow> st1
           | Some b \<Rightarrow> WriteEvent ok (SubConnID param, msg_Type msg, b) param r st1))"
| "sub_step C M param r (EvHeartbeat t ok) st =
     WriteEvent ok (SubConnID param, Heartbeat, heartbeat_data t) param r st"
| "sub_step C M param r (EvEnv op) st = st\<lparr>su_pool := env_step C op (su_pool st)\<rparr>"

fun sub_loop ::
  "codec \<Rightarrow> (json \<Rightarrow> bytes option) \<Rightarrow> subscribe_param \<Rightarrow> conn_ref \<Rightarrow> sub_event list \<Rightarrow> sub_state \<Rightarrow> sub_state" where
  "sub_loop C M param r [] st = st"
| "sub_loop C M param r (e # es) st =
     (if su_running st then sub_loop C M param r es (sub_step C M param r e st) else st)"

definition Subscribe ::
  "codec \<Rightarrow> (json \<Rightarrow> bytes option) \<Rightarrow> subscribe_param \<Rightarrow> conn_ref \<Rightarrow> sub_event list \<Rightarrow> hub_pool \<Rightarrow> sub_state" where
  "Subscribe C M param r es p =
     sub_loop C M param r es
       \<lparr>su_pool = Hub_Register (SubTenantID param) (SubUserID param) (SubConnID param) r p,
        su_out = [], su_running = True\<rparr>"

section \<open>The channel under the environment\<close>

text \<open>Other goroutines use other connections.\<close>
definition env_other :: "conn_ref \<Rightarrow> env_op \<Rightarrow> bool" where
  "env_other r op = (case op of EnvJoin t u c r' \<Rightarrow> r' \<noteq> r | _ \<Rightarrow> True)"

text \<open>What may happen to a connection: messages are appended to its channel, and it may be closed.\<close>
definition grows :: "hub_conn \<Rightarrow> hub_conn \<Rightarrow> bool" where
  "grows a b = ((\<exists>ms. MessageChan b = MessageChan a @ ms) \<and> (chan_closed a \<longrightarrow> chan_closed b))"

lemma grows_refl [simp]: "grows a a"
  by (simp add: grows_def)

lemma grows_trans: "grows a b \<Longrightarrow> grows b c \<Longrightarrow> grows a c"
  by (auto simp: grows_def)

lemma close_simps [simp]:
  "MessageChan (HubSSEConnection_Close c) = MessageChan c" "grows c (HubSSEConnection_Close c)"
  by (simp_all add: HubSSEConnection_Close_def grows_def)

text \<open>A once-closed connection is marked as such: \<open>Close\<close> is the only writer of both flags.\<close>
definition flags_ok :: "hub_conn \<Rightarrow> bool" where
  "flags_ok c = (chan_closed c = close_once c)"

lemma close_flags [simp]: "flags_ok c \<Longrightarrow> flags_ok (HubSSEConnection_Close c)" "flags_ok c \<Longrightarrow> chan_closed (HubSSEConnection_Close c)"
  by (simp_all add: HubSSEConnection_Close_def flags_ok_def)

lemma write_grows:
  "grows c (snd (HubSSEConnection_Write C c d))" "flags_ok c \<Longrightarrow> flags_ok (snd (HubSSEConnection_Write C c d))"
  by (auto simp: HubSSEConnection_Write_def grows_def flags_ok_def split: go_any.split option.split)

lemma fold_write_grows:
  "grows (conns (snd st) r) (conns (snd (fold (write_conn C data) rs st)) r) \<and>
   (flags_ok (conns (snd st) r) \<longrightarrow> flags_ok (conns (snd (fold (write_conn C data) rs st)) r))"
proof (induction rs arbitrary: st)
  case (Cons r' rs)
  have "grows (conns (snd st) r) (conns (snd (write_conn C data r' st)) r) \<and>
      (flags_ok (conns (snd st) r) \<longrightarrow> flags_ok (conns (snd (write_conn C data r' st)) r))"
    using write_grows [of "conns (snd st) r'" C "RawMessage data"]
    by (auto simp: write_conn_def split: prod.split)
  with Cons.IH [of "write_conn C data r' st"] show ?case by (auto intro: grows_trans)
qed simp

lemma join_grows:
  assumes "pool_inv p"
  shows "grows (conns p r) (conns (Dispatcher_Join t u c r' p) r) \<and>
     (flags_ok (conns p r) \<longrightarrow> flags_ok (conns (Dispatcher_Join t u c r' p) r))"
  by (auto simp: Dispatcher_Join_def conns_Register [OF assms] split: option.split)

lemma leave_grows:
  assumes "pool_inv p"
  shows "grows (conns p r) (conns (Dispatcher_Leave t u c ex p) r) \<and>
     (flags_ok (conns p r) \<longrightarrow> flags_ok (conns (Dispatcher_Leave t u c ex p) r))"
  by (auto simp: Dispatcher_Leave_def conns_Unregister [OF assms] split: option.split)

lemma fold_write_pool:
  "\<exists>h. snd (fold (write_conn C data) rs st) = (snd st)\<lparr>conns := h\<rparr>"
proof (induction rs arbitrary: st)
  case Nil
  show ?case by (auto intro: exI [of _ "conns (snd st)"])
next
  case (Cons r rs)
  have "\<exists>h. snd (write_conn C data r st) = (snd st)\<lparr>conns := h\<rparr>"
    by (cases st) (auto simp: write_conn_def case_prod_beta)
  then obtain h where "snd (write_conn C data r st) = (snd st)\<lparr>conns := h\<rparr>" by blast
  with Cons [of "write_conn C data r st"] show ?case by auto
qed

lemma env_grows:
  assumes inv: "pool_inv p" and o: "env_other r op"
  shows "grows (conns p r) (conns (env_step C op p) r) \<and> (flags_ok (conns p r) \<longrightarrow> flags_ok (conns (env_step C op p) r)) \<and>
     pool_inv (env_step C op p)"
proof (cases op)
  case (EnvDispatch msg)
  obtain h where "snd (Dispatcher_process C msg (False, p)) = p\<lparr>conns := h\<rparr>"
    using fold_write_pool [of C "m_Payload msg" "recipients p msg" "(False, p)"] by (auto simp: process_is_fold)
  with fold_write_grows [of "(False, p)" r C "m_Payload msg" "recipients p msg"] inv show ?thesis
    by (simp add: EnvDispatch process_is_fold)
next
  case (EnvJoin t u c r')
  have "pool_inv (p\<lparr>conns := (conns p)(r' := new_hub_conn)\<rparr>)" using inv by simp
  with join_grows [OF this, of r t u c r'] pool_inv_Register [OF this] o show ?thesis
    by (simp add: EnvJoin env_other_def Hub_Register_def Dispatcher_Join_def)
next
  case (EnvLeave t u c ex)
  with leave_grows [OF inv, of r t u c ex] pool_inv_Unregister [OF inv] show ?thesis
    by (simp add: Dispatcher_Leave_def)
qed

text \<open>Our key holds our connection, or someone has closed it.\<close>
definition kept_or_closed :: "subscribe_param \<Rightarrow> conn_ref \<Rightarrow> hub_pool \<Rightarrow> bool" where
  "kept_or_closed param r p =
     (pool_lookup p (SubTenantID param) (SubUserID param) (SubConnID param) = Some r \<or> chan_closed (conns p r))"

lemma env_kept:
  assumes inv: "pool_inv p" and o: "env_other r op" and k: "kept_or_closed param r p" and f: "flags_ok (conns p r)"
  shows "kept_or_closed param r (env_step C op p)"
proof (cases op)
  case (EnvDispatch msg)
  obtain h where "snd (Dispatcher_process C msg (False, p)) = p\<lparr>conns := h\<rparr>"
    using fold_write_pool [of C "m_Payload msg" "recipients p msg" "(False, p)"] by (auto simp: process_is_fold)
  with env_grows [OF inv o, of C] k show ?thesis
    by (auto simp: EnvDispatch kept_or_closed_def grows_def)
next
  case (EnvJoin t u c r')
  let ?p = "p\<lparr>conns := (conns p)(r' := new_hub_conn)\<rparr>"
  have i: "pool_inv ?p" using inv by simp
  have "r' \<noteq> r" using o by (simp add: EnvJoin env_other_def)
  with k f show ?thesis
    by (auto simp: EnvJoin kept_or_closed_def Hub_Register_def Dispatcher_Join_def pool_lookup_Register [OF i]
        conns_Register [OF i] HubSSEConnection_Close_def flags_ok_def split: option.split)
next
  case (EnvLeave t u c ex)
  with k f show ?thesis
    by (auto simp: kept_or_closed_def Dispatcher_Leave_def pool_lookup_Unregister [OF inv]
        conns_Unregister [OF inv] HubSSEConnection_Close_def flags_ok_def split: option.split)
qed

section \<open>The stream\<close>

definition event_of :: "(json \<Rightarrow> bytes option) \<Rightarrow> subscribe_param \<Rightarrow> internal_msg \<Rightarrow> (bytes \<times> bytes \<times> bytes) list" where
  "event_of M param msg = (case M (msg_Data msg) of None \<Rightarrow> [] | Some b \<Rightarrow> [(SubConnID param, msg_Type msg, b)])"

definition payload :: "(bytes \<times> bytes \<times> bytes) list \<Rightarrow> (bytes \<times> bytes \<times> bytes) list" where
  "payload out = filter (\<lambda>e. fst (snd e) \<noteq> Heartbeat) out"

text \<open>What other goroutines put into the channel in one step.\<close>
definition arrived :: "codec \<Rightarrow> conn_ref \<Rightarrow> sub_event \<Rightarrow> sub_state \<Rightarrow> internal_msg list" where
  "arrived C r e st =
     (case e of
        EvEnv op \<Rightarrow> drop (length (MessageChan (conns (su_pool st) r))) (MessageChan (conns (env_step C op (su_pool st)) r))
      | _ \<Rightarrow> [])"

text \<open>The messages the environment puts into the connection's channel while the loop runs.\<close>
fun arrivals ::
  "codec \<Rightarrow> (json \<Rightarrow> bytes option) \<Rightarrow> subscribe_param \<Rightarrow> conn_ref \<Rightarrow> sub_event list \<Rightarrow> sub_state \<Rightarrow> internal_msg list" where
  "arrivals C M param r [] st = []"
| "arrivals C M param r (e # es) st =
     (if su_running st then arrived C r e st @ arrivals C M param r es (sub_step C M param r e st) else [])"

definition sub_inv :: "subscribe_param \<Rightarrow> conn_ref \<Rightarrow> sub_state \<Rightarrow> bool" where
  "sub_inv param r st =
     (pool_inv (su_pool st) \<and> flags_ok (conns (su_pool st) r) \<and>
      (if su_running st then kept_or_closed param r (su_pool st)
       else chan_closed (conns (su_pool st) r) \<and>
         pool_lookup (su_pool st) (SubTenantID param) (SubUserID param) (SubConnID param) \<noteq> Some r))"

lemma return_inv:
  assumes "sub_inv param r st" and "su_running st"
  shows "sub_inv param r (sub_return param r st) \<and>
     MessageChan (conns (su_pool (sub_return param r st)) r) = MessageChan (conns (su_pool st) r)"
proof -
  from assms have inv: "pool_inv (su_pool st)" and f: "flags_ok (conns (su_pool st) r)" and
    k: "kept_or_closed param r (su_pool st)" by (simp_all add: sub_inv_def)
  from k f show ?thesis
    by (auto simp: sub_inv_def sub_return_def Hub_Unregister_def Dispatcher_Leave_def kept_or_closed_def
        pool_inv_Unregister [OF inv] pool_lookup_Unregister [OF inv] conns_Unregister [OF inv]
        HubSSEConnection_Close_def flags_ok_def split: option.split)
qed

text \<open>
  One step takes messages from the front of the channel and writes their events, or loses the one whose
  write fails, and then ends the loop.
\<close>
definition consumes :: "codec \<Rightarrow> (json \<Rightarrow> bytes option) \<Rightarrow> subscribe_param \<Rightarrow> conn_ref \<Rightarrow> sub_event \<Rightarrow> sub_state \<Rightarrow> internal_msg list
    \<Rightarrow> (bytes \<times> bytes \<times> bytes) list \<Rightarrow> bool" where
  "consumes C M param r e st taken written =
     (let st' = sub_step C M param r e st in
      MessageChan (conns (su_pool st) r) @ arrived C r e st = taken @ MessageChan (conns (su_pool st') r) \<and>
      su_out st' = su_out st @ written \<and>
      (payload written = payload (concat (map (event_of M param) taken)) \<or>
       e = EvReceive False \<and> payload written = [] \<and> \<not> su_running st'))"

lemma receive_stream:
  assumes inv: "sub_inv param r st" and run: "su_running st"
  shows "sub_inv param r (sub_step C M param r (EvReceive ok) st) \<and>
     (\<exists>taken written. consumes C M param r (EvReceive ok) st taken written)"
proof (cases "MessageChan (conns (su_pool st) r)")
  case Nil
  with return_inv [OF inv run] inv run show ?thesis
    by (auto simp: consumes_def arrived_def Let_def payload_def sub_return_def intro!: exI [of _ "[]"])
next
  case (Cons msg rest)
  let ?p = "(su_pool st)\<lparr>conns := (conns (su_pool st))(r := (conns (su_pool st) r)\<lparr>MessageChan := rest\<rparr>)\<rparr>"
  have inv1: "sub_inv param r (st\<lparr>su_pool := ?p\<rparr>)" using inv run by (auto simp: sub_inv_def flags_ok_def kept_or_closed_def)
  have run1: "su_running (st\<lparr>su_pool := ?p\<rparr>)" using run by simp
  note ret = return_inv [OF inv1 run1]
  show ?thesis
  proof (cases "M (msg_Data msg)")
    case None
    with inv1 show ?thesis
      by (auto simp: Cons consumes_def arrived_def Let_def payload_def event_of_def intro!: exI [of _ "[msg]"])
  next
    case (Some b)
    with inv1 ret show ?thesis
      by (auto simp: Cons consumes_def arrived_def Let_def WriteEvent_def payload_def event_of_def sub_return_def sub_inv_def
          intro!: exI [of _ "[msg]"])
  qed
qed

lemma sub_step_stream:
  assumes inv: "sub_inv param r st" and run: "su_running st" and o: "\<And>op. e = EvEnv op \<Longrightarrow> env_other r op"
  shows "sub_inv param r (sub_step C M param r e st) \<and> (\<exists>taken written. consumes C M param r e st taken written)"
proof (cases e)
  case EvCancel
  with return_inv [OF inv run] show ?thesis
    by (auto simp: consumes_def arrived_def sub_return_def intro!: exI [of _ "[]"])
next
  case (EvHeartbeat t ok)
  with return_inv [OF inv run] inv run show ?thesis
    by (auto simp: consumes_def arrived_def WriteEvent_def sub_return_def payload_def sub_inv_def intro!: exI [of _ "[]"])
next
  case (EvEnv op)
  from inv run have i: "pool_inv (su_pool st)" "flags_ok (conns (su_pool st) r)" "kept_or_closed param r (su_pool st)"
    by (simp_all add: sub_inv_def)
  note g = env_grows [OF i(1) o [OF EvEnv], of C] env_kept [OF i(1) o [OF EvEnv] i(3,2), of C]
  then have "sub_inv param r (sub_step C M param r e st)" using i run by (simp add: EvEnv sub_inv_def)
  moreover from g obtain ms where "MessageChan (conns (env_step C op (su_pool st)) r) = MessageChan (conns (su_pool st) r) @ ms"
    by (auto simp: grows_def)
  ultimately show ?thesis by (auto simp: consumes_def arrived_def EvEnv payload_def intro!: exI [of _ "[]"])
next
  case (EvReceive ok)
  then show ?thesis using receive_stream [OF inv run] by simp
qed

lemma payload_append [simp]: "payload (a @ b) = payload a @ payload b"
  by (simp add: payload_def)

lemma sub_loop_stream:
  assumes "sub_inv param r st" and "\<And>op. EvEnv op \<in> set es \<Longrightarrow> env_other r op"
  shows "sub_inv param r (sub_loop C M param r es st) \<and>
     (\<exists>taken.
       MessageChan (conns (su_pool st) r) @ arrivals C M param r es st =
         taken @ MessageChan (conns (su_pool (sub_loop C M param r es st)) r) \<and>
       (\<exists>lost. payload (su_out (sub_loop C M param r es st)) @ lost =
           payload (su_out st) @ payload (concat (map (event_of M param) taken)) \<and>
         (EvReceive False \<notin> set es \<longrightarrow> lost = [])))"
  using assms
proof (induction es arbitrary: st)
  case (Cons e es)
  show ?case
  proof (cases "su_running st")
    case True
    let ?st = "sub_step C M param r e st"
    have o: "\<And>op. e = EvEnv op \<Longrightarrow> env_other r op" using Cons.prems(2) by simp
    from sub_step_stream [where C = C and M = M, OF Cons.prems(1) True o] obtain taken written where inv: "sub_inv param r ?st"
      and one: "consumes C M param r e st taken written" by blast
    from one have c: "MessageChan (conns (su_pool st) r) @ arrived C r e st = taken @ MessageChan (conns (su_pool ?st) r)"
      and out: "su_out ?st = su_out st @ written"
      and w: "payload written = payload (concat (map (event_of M param) taken)) \<or>
        e = EvReceive False \<and> payload written = [] \<and> \<not> su_running ?st" by (simp_all add: consumes_def Let_def)
    from Cons.IH [OF inv] Cons.prems(2) obtain taken' lost where inv': "sub_inv param r (sub_loop C M param r es ?st)"
      and c': "MessageChan (conns (su_pool ?st) r) @ arrivals C M param r es ?st =
         taken' @ MessageChan (conns (su_pool (sub_loop C M param r es ?st)) r)"
      and o': "payload (su_out (sub_loop C M param r es ?st)) @ lost =
           payload (su_out ?st) @ payload (concat (map (event_of M param) taken'))"
      and l: "EvReceive False \<notin> set es \<longrightarrow> lost = []" by auto
    have all: "MessageChan (conns (su_pool st) r) @ arrivals C M param r (e # es) st =
        (taken @ taken') @ MessageChan (conns (su_pool (sub_loop C M param r (e # es) st)) r)"
      using c c' True by (simp flip: append_assoc) (metis append.assoc)
    show ?thesis
    proof (cases "payload written = payload (concat (map (event_of M param) taken))")
      case True
      then have "payload (su_out (sub_loop C M param r (e # es) st)) @ lost =
           payload (su_out st) @ payload (concat (map (event_of M param) (taken @ taken')))"
        using o' out \<open>su_running st\<close> by simp
      with inv' all l \<open>su_running st\<close> show ?thesis
        by (intro conjI exI [of _ "taken @ taken'"] exI [of _ lost]) auto
    next
      case False
      with w have e: "e = EvReceive False" "payload written = []" "\<not> su_running ?st" by metis+
      then have end': "sub_loop C M param r es ?st = ?st" "arrivals C M param r es ?st = []" by (cases es; simp del: sub_step.simps)+
      then have "payload (su_out (sub_loop C M param r (e # es) st)) @ payload (concat (map (event_of M param) (taken @ taken'))) =
          payload (su_out st) @ payload (concat (map (event_of M param) (taken @ taken')))"
        using e(2) out \<open>su_running st\<close> by simp
      moreover have "EvReceive False \<in> set (e # es)" using e(1) by simp
      moreover have "sub_inv param r (sub_loop C M param r (e # es) st)" using inv' \<open>su_running st\<close> by simp
      ultimately show ?thesis using all by blast
    qed
  qed (use Cons.prems in \<open>simp add: payload_def\<close>)
qed (simp add: payload_def)

lemma register_inv:
  assumes "pool_inv p"
  shows "sub_inv param r \<lparr>su_pool = Hub_Register (SubTenantID param) (SubUserID param) (SubConnID param) r p,
      su_out = [], su_running = True\<rparr>"
    and "MessageChan (conns (Hub_Register t u c r p) r) = []"
proof -
  let ?p = "p\<lparr>conns := (conns p)(r := new_hub_conn)\<rparr>"
  have i: "pool_inv ?p" using assms by simp
  have n: "flags_ok new_hub_conn" "MessageChan new_hub_conn = []" by (simp_all add: flags_ok_def new_hub_conn_def)
  show "sub_inv param r \<lparr>su_pool = Hub_Register (SubTenantID param) (SubUserID param) (SubConnID param) r p,
      su_out = [], su_running = True\<rparr>"
    using pool_inv_Register [OF i] n
    by (auto simp: sub_inv_def kept_or_closed_def Hub_Register_def Dispatcher_Join_def conns_Register [OF i]
        pool_lookup_Register [OF i] split: option.split)
  show "MessageChan (conns (Hub_Register t u c r p) r) = []"
    using n by (auto simp: Hub_Register_def Dispatcher_Join_def conns_Register [OF i] split: option.split)
qed

section \<open>Properties\<close>

text \<open>
  C37: A subscriber receives its messages in order. Whatever other goroutines do to the pool meanwhile, the
  messages put into the connection's channel since the registration are those the loop has taken,
  followed by those still queued; the events written to the client, heartbeats aside, are those of the
  taken messages in order (a message whose data cannot be encoded is skipped), all of them if no write
  failed and otherwise a prefix. Once the loop has ended the connection is closed and the pool no longer
  holds it.
\<close>
theorem subscriber_stream_in_order:
  assumes "pool_inv p" and "\<And>op. EvEnv op \<in> set es \<Longrightarrow> env_other r op"
    and "st0 = \<lparr>su_pool = Hub_Register (SubTenantID param) (SubUserID param) (SubConnID param) r p, su_out = [], su_running = True\<rparr>"
    and "st = Subscribe C M param r es p"
  shows "(\<exists>taken lost. arrivals C M param r es st0 = taken @ MessageChan (conns (su_pool st) r) \<and>
       payload (su_out st) @ lost = payload (concat (map (event_of M param) taken)) \<and>
       (EvReceive False \<notin> set es \<longrightarrow> lost = [])) \<and>
     (\<not> su_running st \<longrightarrow> chan_closed (conns (su_pool st) r) \<and>
       pool_lookup (su_pool st) (SubTenantID param) (SubUserID param) (SubConnID param) \<noteq> Some r)"
proof -
  have st: "st = sub_loop C M param r es st0" by (simp add: assms(3,4) Subscribe_def)
  have "payload [] = []" "su_out st0 = []" by (simp_all add: payload_def assms(3))
  moreover have inv: "sub_inv param r st0" unfolding assms(3) by (rule register_inv(1) [OF assms(1)])
  moreover have "MessageChan (conns (su_pool st0) r) = []" using register_inv(2) [OF assms(1)] by (simp add: assms(3))
  moreover have "sub_inv param r st \<and>
     (\<exists>taken. MessageChan (conns (su_pool st0) r) @ arrivals C M param r es st0 = taken @ MessageChan (conns (su_pool st) r) \<and>
       (\<exists>lost. payload (su_out st) @ lost = payload (su_out st0) @ payload (concat (map (event_of M param) taken)) \<and>
         (EvReceive False \<notin> set es \<longrightarrow> lost = [])))"
    unfolding st by (rule sub_loop_stream [OF inv]) (rule assms(2))
  ultimately show ?thesis by (auto simp: sub_inv_def)
qed

theorem subscriber_stream_in_order_witness:
  "\<exists>st. st = Subscribe demo_codec (\<lambda>_. Some ''{}'') \<lparr>SubUserID = ''u'', SubTenantID = ''t'', SubConnID = ''c''\<rparr> 7
       [EvHeartbeat 5 True, EvCancel] (NewManager (\<lambda>_. new_hub_conn)) \<and>
     pool_lookup (su_pool st) ''t'' ''u'' ''c'' \<noteq> Some 7"
proof -
  let ?param = "\<lparr>SubUserID = ''u'', SubTenantID = ''t'', SubConnID = ''c''\<rparr>" and ?es = "[EvHeartbeat 5 True, EvCancel]"
  have r: "\<not> su_running (Subscribe demo_codec (\<lambda>_. Some ''{}'') ?param 7 ?es (NewManager (\<lambda>_. new_hub_conn)))"
    by (simp add: Subscribe_def WriteEvent_def sub_return_def)
  have o: "\<And>op. EvEnv op \<in> set ?es \<Longrightarrow> env_other 7 op" by simp
  have inv: "pool_inv (NewManager (\<lambda>_::nat. new_hub_conn))" by (rule pool_inv_New)
  show ?thesis
    using subscriber_stream_in_order [where C = demo_codec and M = "\<lambda>_. Some ''{}''" and param = ?param and es = ?es and r = 7,
        OF inv _ refl refl] o r by simp
qed

end
