(* ===== verification/Dashboard.thy ===== *)
theory Dashboard
  imports Repository Dispatch Session
begin

text \<open>
  The dashboard: src/internal/service/internal.go. What the Go runtime, the two pings and the clock
  report are the fields of \<open>probe\<close>; the rest is computed from the database (\<open>pg\<close>) and from the
  connection pool of the global dispatcher (\<open>None\<close> before it is set). Memory is a float64 rounded to
  hundredths; \<open>roundMB\<close> is that number of hundredths, which is exact below 90 terabytes. The uptime
  text is that of whole seconds.

  Shown: the figures are the numbers of distinct tenants and users in the database, of tenants, users
  and connections online, and the ten newest notifications, newest first.
\<close>

record probe =
  pr_now :: time
  pr_GoVersion :: bytes
  pr_Goroutines :: int
  pr_Sys :: nat
  pr_DBConn :: bool
  pr_DBPing :: bool
  pr_RedisPing :: bool

record group_stat =
  gs_UserCount :: nat
  gs_ConnCount :: nat

record recent_msg =
  rm_NotifyID :: bytes
  rm_Title :: bytes
  rm_TenantID :: bytes
  rm_SenderType :: int
  rm_TargetType :: int
  rm_CreatedAt :: time

record dashboard_stats =
  ds_Uptime :: bytes
  ds_GoVersion :: bytes
  ds_Goroutines :: int
  ds_MemoryHundredths :: nat
  ds_DbHealthy :: bool
  ds_RedisHealthy :: bool
  ds_TenantCount :: nat
  ds_UserCount :: nat
  ds_OnlineTenants :: nat
  ds_OnlineUsers :: nat
  ds_Connections :: nat
  ds_GroupStats :: "bytes \<rightharpoonup> group_stat"
  ds_RecentMsgs :: "recent_msg list"

section \<open>Durations\<close>

text \<open>\<open>Duration.Round(time.Second)\<close>: halves away from zero.\<close>
definition Round_Second :: "int \<Rightarrow> int" where
  "Round_Second d =
     (let r = \<bar>d\<bar> mod time_Second; low = \<bar>d\<bar> - r;
          a = (if 2 * r < time_Second then low else low + time_Second)
      in if d < 0 then - a else a)"

text \<open>\<open>Duration.String\<close> of a whole number of seconds.\<close>
definition Duration_String :: "int \<Rightarrow> bytes" where
  "Duration_String d =
     (let secs = \<bar>d\<bar> div time_Second; h = secs div 3600; m = secs div 60 mod 60; s = secs mod 60 in
      (if d < 0 then ''-'' else []) @
      (if secs \<ge> 3600 then go_itoa h @ ''h'' else []) @
      (if secs \<ge> 60 then go_itoa m @ ''m'' else []) @
      go_itoa s @ ''s'')"

section \<open>The service\<close>

definition pingDB :: "probe \<Rightarrow> bool" where
  "pingDB pr = (if \<not> pr_DBConn pr then False else if \<not> pr_DBPing pr then False else True)"

definition pingRedis :: "probe \<Rightarrow> bool" where
  "pingRedis pr = (if \<not> pr_RedisPing pr then False else True)"

text \<open>A failed count is logged and leaves zero.\<close>
definition countTenantsAndUsers :: "pg \<Rightarrow> db \<Rightarrow> nat \<times> nat" where
  "countTenantsAndUsers P d =
     (case sel_record P (\<lambda>_. True) (\<lambda>_. 0) 0 None d of Inl _ \<Rightarrow> 0 | Inr rows \<Rightarrow> length (remdups (map r_TenantID rows)),
      case sel_status P (\<lambda>_. True) (\<lambda>_. 0) 0 None d of Inl _ \<Rightarrow> 0 | Inr rows \<Rightarrow> length (remdups (map s_TargetUserID rows)))"

definition onlineStats :: "hub_pool option \<Rightarrow> nat \<times> nat \<times> nat \<times> (bytes \<rightharpoonup> group_stat)" where
  "onlineStats dispatcher =
     (case dispatcher of
        None \<Rightarrow> (0, 0, 0, Map.empty)
      | Some p \<Rightarrow>
          (Dispatcher_OnlineGroupCount (Some p), Dispatcher_OnlineUserCount (Some p),
           Dispatcher_ConnectionCount (Some p),
           map_of (map (\<lambda>(tenantID, u, c). (tenantID, \<lparr>gs_UserCount = u, gs_ConnCount = c\<rparr>))
             (Dispatcher_GroupStats (Some p)))))"

definition recent_msg_of :: "(uuid \<Rightarrow> bytes) \<Rightarrow> notify_record \<Rightarrow> recent_msg" where
  "recent_msg_of str r =
     \<lparr>rm_NotifyID = str (r_NotifyID r), rm_Title = r_Title r, rm_TenantID = r_TenantID r,
      rm_SenderType = r_SenderType r, rm_TargetType = r_TargetType r, rm_CreatedAt = r_CreatedAt r\<rparr>"

definition recentMessages :: "pg \<Rightarrow> (uuid \<Rightarrow> bytes) \<Rightarrow> db \<Rightarrow> recent_msg list" where
  "recentMessages P str d =
     (case sel_record P (\<lambda>_. True) (\<lambda>r. - r_CreatedAt r) 0 (Some 10) d of
        Inl _ \<Rightarrow> []
      | Inr records \<Rightarrow> map (recent_msg_of str) records)"

text \<open>The argument is \<open>memStats.Sys\<close>, the result hundredths of a mebibyte.\<close>
definition roundMB :: "nat \<Rightarrow> nat" where
  "roundMB b = b * 100 div (1024 * 1024)"

definition Internal_Dashboard ::
  "pg \<Rightarrow> (uuid \<Rightarrow> bytes) \<Rightarrow> time \<Rightarrow> probe \<Rightarrow> hub_pool option \<Rightarrow> db \<Rightarrow> dashboard_stats" where
  "Internal_Dashboard P str startTime pr dispatcher d =
     (let (tenantCount, userCount) = countTenantsAndUsers P d;
          (onlineTenants, onlineUsers, connections, groupStats) = onlineStats dispatcher
      in \<lparr>ds_Uptime = Duration_String (Round_Second (time_Sub (pr_now pr) startTime)),
          ds_GoVersion = pr_GoVersion pr, ds_Goroutines = pr_Goroutines pr,
          ds_MemoryHundredths = roundMB (pr_Sys pr), ds_DbHealthy = pingDB pr, ds_RedisHealthy = pingRedis pr,
          ds_TenantCount = tenantCount, ds_UserCount = userCount, ds_OnlineTenants = onlineTenants,
          ds_OnlineUsers = onlineUsers, ds_Connections = connections, ds_GroupStats = groupStats,
          ds_RecentMsgs = recentMessages P str d\<rparr>)"

section \<open>The pool's figures\<close>

abbreviation connections_of :: "hub_pool \<Rightarrow> bytes \<Rightarrow> (bytes \<times> bytes \<times> conn_ref) set" where
  "connections_of p t \<equiv> {(u, c, r). pool_lookup p t u c = Some r}"

lemma RangeGroup_card: "pool_inv p \<Longrightarrow> length (Manager_RangeGroup p t) = card (connections_of p t)"
  by (simp only: distinct_card [OF distinct_RangeGroup, symmetric] set_RangeGroup)

lemma group_conn_count:
  assumes "map_of (groups p) t = Some r"
  shows "sum_list (map (\<lambda>(_, cl). length cl) (users (group_heap p r))) = length (Manager_RangeGroup p t)"
  using assms by (simp add: Manager_RangeGroup_def getGroup_def length_concat comp_def case_prod_unfold)

lemma pool_group_of:
  assumes "pool_inv p" and "(t, r) \<in> set (groups p)"
  shows "map_of (groups p) t = Some r"
  using assms by (simp add: pool_inv_def keys_ok_def)

lemma online_group:
  assumes "pool_inv p"
  shows "map_of (groups p) t \<noteq> None \<longleftrightarrow> connections_of p t \<noteq> {}"
proof -
  have "(\<exists>u c r. pool_lookup p t u c = Some r) \<longleftrightarrow> map_of (groups p) t \<noteq> None"
    using users_empty_iff [OF pool_inv_group [OF assms]] pool_inv_nonempty [OF assms, of t]
    by (cases "map_of (groups p) t") (auto simp: pool_lookup_def)
  then show ?thesis by auto
qed

lemma online_names: "pool_inv p \<Longrightarrow> fst ` set (groups p) = {t. connections_of p t \<noteq> {}}"
  by (simp only: online_group [symmetric] map_of_eq_None_iff) auto

lemma Count_card:
  fixes p :: hub_pool
  assumes "pool_inv p"
  shows "Manager_Count p = card {(t, u, c, r). pool_lookup p t u c = Some r}"
proof -
  have "Manager_Count p = sum_list (map (\<lambda>(t, _). card (connections_of p t)) (groups p))"
    unfolding Manager_Count_def
    by (intro arg_cong [where f = sum_list] map_cong refl)
      (auto simp: group_conn_count [OF pool_group_of [OF assms]] RangeGroup_card [OF assms] simp del: length_greater_0_conv)
  also have "\<dots> = sum_list (map (\<lambda>t. card (connections_of p t)) (map fst (groups p)))"
    by (simp add: comp_def case_prod_unfold)
  also have "\<dots> = (\<Sum>t \<in> fst ` set (groups p). card (connections_of p t))"
    using assms by (subst sum_list_distinct_conv_sum_set) (simp_all add: pool_inv_def keys_ok_def)
  also have "\<dots> = card (SIGMA t : fst ` set (groups p). connections_of p t)"
    by (subst card_SigmaI) (simp_all flip: set_RangeGroup [OF assms])
  also have "(SIGMA t : fst ` set (groups p). connections_of p t) = {(t, u, c, r). pool_lookup p t u c = Some r}"
    by (auto simp: online_names [OF assms])
  finally show ?thesis .
qed

lemma GroupStats_exact:
  assumes "pool_inv p"
  shows "snd (snd (snd (onlineStats (Some p)))) t =
     (if connections_of p t = {} then None
      else Some \<lparr>gs_UserCount = card {u. \<exists>c r. pool_lookup p t u c = Some r}, gs_ConnCount = card (connections_of p t)\<rparr>)"
proof -
  let ?stat = "\<lambda>r. \<lparr>gs_UserCount = length (users (group_heap p r)),
      gs_ConnCount = sum_list (map (\<lambda>(_, cl). length cl) (users (group_heap p r)))\<rparr>"
  have "map (\<lambda>(tenantID, u, c). (tenantID, \<lparr>gs_UserCount = u, gs_ConnCount = c\<rparr>)) (Manager_GroupStats p) =
      map (\<lambda>(t, r). (t, ?stat r)) (groups p)"
    by (simp add: Manager_GroupStats_def case_prod_unfold)
  then have m: "snd (snd (snd (onlineStats (Some p)))) t = map_option ?stat (map_of (groups p) t)"
    by (simp only: onlineStats_def Dispatcher_GroupStats_def option.case snd_conv map_of_map comp_def)
  show ?thesis
  proof (cases "map_of (groups p) t")
    case None
    then have "connections_of p t = {}" by (simp add: pool_lookup_def)
    with m None show ?thesis by simp
  next
    case (Some r)
    then have "connections_of p t \<noteq> {}" using online_group [OF assms, of t] by simp
    moreover have "length (users (group_heap p r)) = length (Manager_GetOnlineUserIDs p t)"
      using Some by (simp add: Manager_GetOnlineUserIDs_def getGroup_def)
    then have "length (users (group_heap p r)) = card {u. \<exists>c r. pool_lookup p t u c = Some r}"
      by (simp only: distinct_card [OF distinct_OnlineUserIDs [OF assms], symmetric] set_OnlineUserIDs [OF assms])
    ultimately show ?thesis using m Some by (simp add: group_conn_count [OF Some] RangeGroup_card [OF assms])
  qed
qed

section \<open>Properties\<close>

text \<open>
  C38: The dashboard's figures. With the database answering, the dashboard reports the numbers of distinct
  tenants and of distinct users in the stored rows; the numbers of tenants, users and connections in
  the pool, and the same per tenant that is online; and the ten newest notifications, newest first.
  Without a dispatcher all online figures are zero.
\<close>
theorem dashboard_figures_exact:
  assumes "pg_up P" and "pool_inv p" and "st = Internal_Dashboard P str t0 pr (Some p) d"
  shows "ds_TenantCount st = card (r_TenantID ` set (t_record d)) \<and>
     ds_UserCount st = card (s_TargetUserID ` set (t_status d)) \<and>
     ds_OnlineTenants st = card {t. \<exists>u c r. pool_lookup p t u c = Some r} \<and>
     ds_OnlineUsers st = card {u. \<exists>t c r. pool_lookup p t u c = Some r} \<and>
     ds_Connections st = card {(t, u, c, r). pool_lookup p t u c = Some r} \<and>
     ds_GroupStats st = (\<lambda>t. if connections_of p t = {} then None
       else Some \<lparr>gs_UserCount = card {u. \<exists>c r. pool_lookup p t u c = Some r}, gs_ConnCount = card (connections_of p t)\<rparr>) \<and>
     (\<exists>rs. mset rs = mset (t_record d) \<and> sorted (map (\<lambda>r. - r_CreatedAt r) rs) \<and>
       ds_RecentMsgs st = map (recent_msg_of str) (take 10 rs)) \<and>
     ds_Connections (Internal_Dashboard P str t0 pr None d) = 0"
proof -
  note ok = pg_up_ok [OF assms(1)]
  obtain rows where rows: "sel_record P (\<lambda>_. True) (\<lambda>_. 0) 0 None d = Inr rows"
    using pg_up_select(1) [OF assms(1)] by blast
  obtain srows where srows: "sel_status P (\<lambda>_. True) (\<lambda>_. 0) 0 None d = Inr srows"
    using pg_up_select(2) [OF assms(1)] by blast
  obtain recent where recent: "sel_record P (\<lambda>_. True) (\<lambda>r. - r_CreatedAt r) 0 (Some 10) d = Inr recent"
    using pg_up_select(1) [OF assms(1)] by blast
  have "set rows = set (t_record d)" "set srows = set (t_status d)"
    using selected_all [OF sel_ok(1) [OF ok rows]] selected_all [OF sel_ok(2) [OF ok srows]]
    by (auto dest: mset_eq_setD)
  then have counts: "countTenantsAndUsers P d = (card (r_TenantID ` set (t_record d)), card (s_TargetUserID ` set (t_status d)))"
    by (simp add: countTenantsAndUsers_def rows srows length_remdups_card_conv)
  have msgs: "\<exists>rs. mset rs = mset (t_record d) \<and> sorted (map (\<lambda>r. - r_CreatedAt r) rs) \<and>
      recentMessages P str d = map (recent_msg_of str) (take 10 rs)"
    using sel_ok(1) [OF ok recent] by (auto simp: recentMessages_def recent selected_def slice_def)
  let ?stats = "\<lambda>t. if connections_of p t = {} then None
       else Some \<lparr>gs_UserCount = card {u. \<exists>c r. pool_lookup p t u c = Some r}, gs_ConnCount = card (connections_of p t)\<rparr>"
  have "snd (snd (snd (onlineStats (Some p)))) = ?stats"
    by (rule ext) (rule GroupStats_exact [OF assms(2)])
  then have os: "onlineStats (Some p) = (Manager_GroupCount p, Manager_UserCount p, Manager_Count p, ?stats)"
    by (simp only: onlineStats_def Dispatcher_OnlineGroupCount_def Dispatcher_OnlineUserCount_def
        Dispatcher_ConnectionCount_def option.case snd_conv)
  note pool = GroupCount_card [OF assms(2)] UserCount_card [OF assms(2)] Count_card [OF assms(2)]
  show ?thesis
    using msgs unfolding assms(3) Internal_Dashboard_def counts os pool
    by (simp add: onlineStats_def case_prod_unfold)
qed

theorem dashboard_figures_exact_witness:
  "ds_Connections (Internal_Dashboard demo_pg (\<lambda>_. []) 0 (\<lparr>pr_now = 5, pr_GoVersion = ''go'', pr_Goroutines = 1, pr_Sys = 9,
     pr_DBConn = True, pr_DBPing = True, pr_RedisPing = True\<rparr>) (Some demo_pool) empty_db) =
     card {(t, u, c, r). pool_lookup demo_pool t u c = Some r}"
  using dashboard_figures_exact [OF demo_pg_ok(2) demo_pool_ok(1) refl] by blast

text \<open>The uptime of a server is printed in hours, minutes and seconds.\<close>
lemma uptime_text: "Duration_String (Round_Second 3723400000000) = ''1h2m3s''"
  by code_simp

end
