(* ===== verification/Handlers.thy ===== *)
theory Handlers
  imports Middleware Status_Service Inbox Ticket Hub_Service Dashboard
begin

text \<open>
  The HTTP handlers: src/internal/handler, with the request bodies of src/internal/dto. Binding and
  validating a body is the framework's (\<open>BindAndValidate\<close>): the parameter \<open>binders\<close>; what the code
  relies on is \<open>binders_ok\<close>, that a bound body satisfies its \<open>vd\<close> tags.

  \<open>deps\<close> holds what the handlers reach through singletons and libraries, \<open>inputs\<close> what one request
  draws from outside (clock, randomness, the events of an event stream), \<open>app_state\<close> the state: the
  hub's world, the sessions, and the cookies set on the response being written.
\<close>

section \<open>Requests and responses\<close>

record base_send_req =
  q_Title :: bytes
  q_Content :: bytes
  q_TenantID :: bytes
  q_SenderID :: bytes
  q_SenderType :: int
  q_EventType :: bytes
  q_TTLSeconds :: "int option"

record send_to_user_req = base_send_req + q_UserID :: bytes
record send_to_users_req = base_send_req + q_UserIDs :: "bytes list"
type_synonym send_to_all_req = base_send_req

record notify_res =
  nr_NotifyID :: bytes
  nr_ExpireTime :: "time option"
  nr_TTLSeconds :: int

record operate_req =
  o_NotifyID :: bytes
  o_UserID :: bytes
  o_TenantID :: bytes

record batch_operate_req =
  bo_UserID :: bytes
  bo_TenantID :: bytes
  bo_Type :: int

record apply_ticket_req =
  at_Tenant :: bytes
  at_UserID :: bytes

record apply_ticket_res =
  tr_Ticket :: bytes
  tr_ExpireTime :: time
  tr_CreateTime :: time

record login_body =
  lb_Username :: bytes
  lb_Password :: bytes

datatype reply_data =
    DataSend notify_res
  | DataPage inbox_page_res
  | DataTicket apply_ticket_res
  | DataDashboard dashboard_stats

record binders =
  bd_Login :: "request \<Rightarrow> login_body option"
  bd_SendToUser :: "request \<Rightarrow> send_to_user_req option"
  bd_SendToUsers :: "request \<Rightarrow> send_to_users_req option"
  bd_SendToAll :: "request \<Rightarrow> send_to_all_req option"
  bd_Page :: "request \<Rightarrow> inbox_page_req option"
  bd_Operate :: "request \<Rightarrow> operate_req option"
  bd_BatchOperate :: "request \<Rightarrow> batch_operate_req option"
  bd_ApplyTicket :: "request \<Rightarrow> apply_ticket_req option"

text \<open>
  The \<open>vd\<close> tags. That of the sender type compares a number with a text and is not relied on.
\<close>
definition base_send_valid :: "'a base_send_req_scheme \<Rightarrow> bool" where
  "base_send_valid q =
     (q_Title q \<noteq> [] \<and> q_Content q \<noteq> [] \<and> q_TenantID q \<noteq> [] \<and> q_SenderID q \<noteq> [] \<and> q_EventType q \<noteq> [])"

definition page_valid :: "inbox_page_req \<Rightarrow> bool" where
  "page_valid q =
     (iq_TenantID q \<noteq> [] \<and> iq_UserID q \<noteq> [] \<and> iq_PageIndex q > 0 \<and> iq_PageSize q > 0 \<and> iq_PageSize q \<le> 100)"

definition operate_valid :: "operate_req \<Rightarrow> bool" where
  "operate_valid q = (o_NotifyID q \<noteq> [] \<and> o_UserID q \<noteq> [] \<and> o_TenantID q \<noteq> [])"

definition batch_operate_valid :: "batch_operate_req \<Rightarrow> bool" where
  "batch_operate_valid q = (bo_UserID q \<noteq> [] \<and> bo_TenantID q \<noteq> [] \<and> (bo_Type q = 0 \<or> bo_Type q = 1))"

definition apply_ticket_valid :: "apply_ticket_req \<Rightarrow> bool" where
  "apply_ticket_valid q = (at_Tenant q \<noteq> [] \<and> at_UserID q \<noteq> [])"

definition binders_ok :: "binders \<Rightarrow> bool" where
  "binders_ok B =
     ((\<forall>rq q. bd_SendToUser B rq = Some q \<longrightarrow> base_send_valid q \<and> q_UserID q \<noteq> []) \<and>
      (\<forall>rq q. bd_SendToUsers B rq = Some q \<longrightarrow> base_send_valid q \<and> length (q_UserIDs q) > 0) \<and>
      (\<forall>rq q. bd_SendToAll B rq = Some q \<longrightarrow> base_send_valid q) \<and>
      (\<forall>rq q. bd_Page B rq = Some q \<longrightarrow> page_valid q) \<and>
      (\<forall>rq q. bd_Operate B rq = Some q \<longrightarrow> operate_valid q) \<and>
      (\<forall>rq q. bd_BatchOperate B rq = Some q \<longrightarrow> batch_operate_valid q) \<and>
      (\<forall>rq q. bd_ApplyTicket B rq = Some q \<longrightarrow> apply_ticket_valid q))"

section \<open>Dependencies and state\<close>

record ('k, 'b) deps =
  dp_config :: "'k config"
  dp_jwt :: "'k jwt_lib"
  dp_sender :: "'b sender"
  dp_uuids :: uuid_lib
  dp_aead :: aead
  dp_tickets :: ticket_json
  dp_binders :: binders
  dp_Marshal :: "json \<Rightarrow> bytes option"
  dp_start :: time

record inputs =
  in_now :: time
  in_fresh :: uuid
  in_freshs :: "uuid list"
  in_random :: "bytes option"
  in_session :: bytes
  in_trace :: bytes
  in_conn_id :: bytes
  in_conn :: conn_ref
  in_events :: "sub_event list"
  in_probe :: probe

record 'b app_state =
  as_world :: "'b world"
  as_sessions :: session_store
  as_cookies :: "set_cookie list"

type_synonym 'b app_handler = "(reply_data, 'b app_state) handler"

definition SetCookie_on :: "set_cookie \<Rightarrow> 'b app_state \<Rightarrow> 'b app_state" where
  "SetCookie_on ck st = st\<lparr>as_cookies := as_cookies st @ [ck]\<rparr>"

definition bad_params :: code_error where
  "bad_params = NewCodeError BadRequest MsgBadParams"

definition StatusBadRequest :: int where "StatusBadRequest = 400"

section \<open>auth.go\<close>

definition LoginPage :: "inputs \<Rightarrow> request \<Rightarrow> 'b app_handler \<Rightarrow> 'b app_handler" where
  "LoginPage inp rq next c tenant st =
     (if Store_Valid (in_now inp) (rq_Cookie rq sessionCookieName) (as_sessions st)
      then (Redirect StatusFound ''/web'', st)
      else next c tenant st)"

definition Login :: "('k, 'b) deps \<Rightarrow> inputs \<Rightarrow> request \<Rightarrow> 'b app_handler" where
  "Login D inp rq c tenant st =
     (case bd_Login (dp_binders D) rq of
        None \<Rightarrow>
          (Json StatusBadRequest \<lparr>b_Code = BadRequest, b_Msg = MsgLoginParams, b_Data = None, b_TraceID = GetTraceID c\<rparr>, st)
      | Some body \<Rightarrow>
          let admin = Admin (Auth (dp_config D)) in
          if lb_Username body \<noteq> AdminUsername admin \<or> lb_Password body \<noteq> AdminPassword admin then
            (Json StatusUnauthorized
               \<lparr>b_Code = Unauthorized, b_Msg = MsgWrongPassword, b_Data = None, b_TraceID = GetTraceID c\<rparr>, st)
          else
            let (sessionID, sessions) = Store_Create (in_now inp) (in_session inp) [] (as_sessions st);
                st1 = SetCookie_on (SetCookie sessionCookieName sessionID (TTLSeconds sessions)) (st\<lparr>as_sessions := sessions\<rparr>)
            in (OkResp c MsgLoginOk None, st1))"

definition Logout :: "request \<Rightarrow> 'b app_handler" where
  "Logout rq c tenant st =
     (let sessionID = rq_Cookie rq sessionCookieName;
          st1 = (if sessionID \<noteq> [] then st\<lparr>as_sessions := Store_Delete sessionID (as_sessions st)\<rparr> else st)
      in (OkResp c MsgLogoutOk None, SetCookie_on (SetCookie sessionCookieName [] (-1)) st1))"

section \<open>sender.go\<close>

definition base_prop :: "bytes option \<Rightarrow> 'a base_send_req_scheme \<Rightarrow> bytes list \<Rightarrow> send_prop" where
  "base_prop tenant req targets =
     \<lparr>p_Title = q_Title req, p_Content = q_Content req, p_TenantID = ResolveTenantID tenant (q_TenantID req),
      p_SenderID = q_SenderID req, p_SenderType = q_SenderType req, p_EventType = q_EventType req,
      p_TTLSeconds = q_TTLSeconds req, p_TargetType = 0, p_TargetIDs = targets\<rparr>"

definition notify_res_of :: "send_result \<Rightarrow> notify_res" where
  "notify_res_of result =
     \<lparr>nr_NotifyID = res_NotifyID result, nr_ExpireTime = res_ExpireTime result, nr_TTLSeconds = res_TTLSeconds result\<rparr>"

definition send_response ::
  "ctx \<Rightarrow> web_msg \<Rightarrow> 'b app_state \<Rightarrow> (code_error + send_result) \<times> 'b world \<Rightarrow> reply_data response \<times> 'b app_state" where
  "send_response c msg st out =
     (case out of
        (Inl err, w) \<Rightarrow> (ErrResp c err, st\<lparr>as_world := w\<rparr>)
      | (Inr result, w) \<Rightarrow> (OkResp c msg (Some (DataSend (notify_res_of result))), st\<lparr>as_world := w\<rparr>))"

definition Handler_SendToUser :: "('k, 'b) deps \<Rightarrow> inputs \<Rightarrow> request \<Rightarrow> 'b app_handler" where
  "Handler_SendToUser D inp rq c tenant st =
     (case bd_SendToUser (dp_binders D) rq of
        None \<Rightarrow> (ErrResp c bad_params, st)
      | Some req \<Rightarrow>
          send_response c MsgSendOk st
            (SendToUser (dp_sender D) (System (dp_config D)) (in_now inp) (in_fresh inp) (in_freshs inp)
               (base_prop tenant req [q_UserID req]) (as_world st)))"

definition Handler_SendToUsers :: "('k, 'b) deps \<Rightarrow> inputs \<Rightarrow> request \<Rightarrow> 'b app_handler" where
  "Handler_SendToUsers D inp rq c tenant st =
     (case bd_SendToUsers (dp_binders D) rq of
        None \<Rightarrow> (ErrResp c bad_params, st)
      | Some req \<Rightarrow>
          send_response c MsgSendOk st
            (SendToUsers (dp_sender D) (System (dp_config D)) (in_now inp) (in_fresh inp) (in_freshs inp)
               (base_prop tenant req (q_UserIDs req)) (as_world st)))"

definition Handler_Broadcast :: "('k, 'b) deps \<Rightarrow> inputs \<Rightarrow> request \<Rightarrow> 'b app_handler" where
  "Handler_Broadcast D inp rq c tenant st =
     (case bd_SendToAll (dp_binders D) rq of
        None \<Rightarrow> (ErrResp c bad_params, st)
      | Some req \<Rightarrow>
          send_response c MsgBroadcastOk st
            (SendToAll (dp_sender D) (System (dp_config D)) (in_now inp) (in_fresh inp) (in_freshs inp)
               (base_prop tenant req []) (as_world st)))"

section \<open>inbox.go\<close>

definition page_response :: "ctx \<Rightarrow> 'b app_state \<Rightarrow> code_error + inbox_page_res \<Rightarrow> reply_data response \<times> 'b app_state" where
  "page_response c st res =
     (case res of
        Inl err \<Rightarrow> (ErrResp c err, st)
      | Inr pageRes \<Rightarrow> (OkResp c MsgQueryOk (Some (DataPage pageRes)), st))"

definition Handler_GetPersonalPage :: "('k, 'b) deps \<Rightarrow> request \<Rightarrow> 'b app_handler" where
  "Handler_GetPersonalPage D rq c tenant st =
     (case bd_Page (dp_binders D) rq of
        None \<Rightarrow> (ErrResp c bad_params, st)
      | Some req \<Rightarrow>
          page_response c st
            (GetPersonalPageHttp (h_pg (sd_hub (dp_sender D))) (h_str (sd_hub (dp_sender D)))
               (req\<lparr>iq_TenantID := ResolveTenantID tenant (iq_TenantID req)\<rparr>) (hw_db (as_world st))))"

definition Handler_GetTenantPage :: "('k, 'b) deps \<Rightarrow> request \<Rightarrow> 'b app_handler" where
  "Handler_GetTenantPage D rq c tenant st =
     (case bd_Page (dp_binders D) rq of
        None \<Rightarrow> (ErrResp c bad_params, st)
      | Some req \<Rightarrow>
          page_response c st
            (GetTenantPageHttp (h_pg (sd_hub (dp_sender D))) (h_str (sd_hub (dp_sender D)))
               (req\<lparr>iq_TenantID := ResolveTenantID tenant (iq_TenantID req)\<rparr>) (hw_db (as_world st))))"

section \<open>status.go\<close>

definition status_response ::
  "ctx \<Rightarrow> web_msg \<Rightarrow> 'b app_state \<Rightarrow> code_error option \<times> 'b world \<Rightarrow> reply_data response \<times> 'b app_state" where
  "status_response c msg st out =
     (case out of
        (Some err, w) \<Rightarrow> (ErrResp c err, st\<lparr>as_world := w\<rparr>)
      | (None, w) \<Rightarrow> (OkResp c msg None, st\<lparr>as_world := w\<rparr>))"

definition Handler_MarkRead :: "('k, 'b) deps \<Rightarrow> inputs \<Rightarrow> request \<Rightarrow> 'b app_handler" where
  "Handler_MarkRead D inp rq c tenant st =
     (case bd_Operate (dp_binders D) rq of
        None \<Rightarrow> (ErrResp c bad_params, st)
      | Some req \<Rightarrow>
          status_response c MsgReadOk st
            (MarkRead (dp_sender D) (dp_uuids D) (in_now inp) (in_fresh inp) (o_NotifyID req) (o_UserID req)
               (ResolveTenantID tenant (o_TenantID req)) (as_world st)))"

definition Handler_BatchMarkRead :: "('k, 'b) deps \<Rightarrow> inputs \<Rightarrow> request \<Rightarrow> 'b app_handler" where
  "Handler_BatchMarkRead D inp rq c tenant st =
     (case bd_BatchOperate (dp_binders D) rq of
        None \<Rightarrow> (ErrResp c bad_params, st)
      | Some req \<Rightarrow>
          let tenantID = ResolveTenantID tenant (bo_TenantID req) in
          status_response c MsgReadAllOk st
            (if bo_Type req = NotifyCategoryTenant
             then TenantBatchMarkRead (dp_sender D) (in_now inp) (bo_UserID req) tenantID (as_world st)
             else UserBatchMarkRead (dp_sender D) (in_now inp) (bo_UserID req) tenantID (as_world st)))"

definition Handler_DeleteNotify :: "('k, 'b) deps \<Rightarrow> inputs \<Rightarrow> request \<Rightarrow> 'b app_handler" where
  "Handler_DeleteNotify D inp rq c tenant st =
     (case bd_Operate (dp_binders D) rq of
        None \<Rightarrow> (ErrResp c bad_params, st)
      | Some req \<Rightarrow>
          status_response c MsgDeleteOk st
            (DeleteNotify (dp_sender D) (dp_uuids D) (in_now inp) (in_fresh inp) (o_NotifyID req) (o_UserID req)
               (ResolveTenantID tenant (o_TenantID req)) (as_world st)))"

definition Handler_BatchDeleteNotify :: "('k, 'b) deps \<Rightarrow> inputs \<Rightarrow> request \<Rightarrow> 'b app_handler" where
  "Handler_BatchDeleteNotify D inp rq c tenant st =
     (case bd_BatchOperate (dp_binders D) rq of
        None \<Rightarrow> (ErrResp c bad_params, st)
      | Some req \<Rightarrow>
          let tenantID = ResolveTenantID tenant (bo_TenantID req) in
          status_response c MsgClearOk st
            (if bo_Type req = NotifyCategoryTenant
             then TenantBatchDelete (dp_sender D) (in_now inp) (bo_UserID req) tenantID (as_world st)
             else UserBatchDelete (dp_sender D) (in_now inp) (bo_UserID req) tenantID (as_world st)))"

section \<open>hub.go\<close>

text \<open>
  The ticket's state is in Redis, beside the unread cache. The stream's events interleave what other
  goroutines do to the pool; the response is what has been written.
\<close>
definition Handler_Subscribe :: "('k, 'b) deps \<Rightarrow> inputs \<Rightarrow> request \<Rightarrow> 'b app_handler" where
  "Handler_Subscribe D inp rq c tenant st =
     (let w = as_world st; S = dp_sender D in
      case VerifyTicket (h_redis (sd_hub S)) (dp_aead D) (dp_tickets D) (Ticket (dp_config D)) (rq_Query rq ''Ticket'')
             (hw_cache w) of
        (Inl e, s) \<Rightarrow> (ErrResp c (NewCodeError Unauthorized e), st\<lparr>as_world := w\<lparr>hw_cache := s\<rparr>\<rparr>)
      | (Inr ticketContent, s) \<Rightarrow>
          let param = \<lparr>SubUserID = tc_UserID ticketContent, SubTenantID = tc_Tenant ticketContent, SubConnID = in_conn_id inp\<rparr>;
              sub = Subscribe (sd_codec S) (dp_Marshal D) param (in_conn inp) (in_events inp) (hw_pool w)
          in (Stream (su_out sub), st\<lparr>as_world := w\<lparr>hw_cache := s, hw_pool := su_pool sub\<rparr>\<rparr>))"

text \<open>A body that cannot be bound is answered with nothing.\<close>
definition Handler_ApplyTicket :: "('k, 'b) deps \<Rightarrow> inputs \<Rightarrow> request \<Rightarrow> 'b app_handler" where
  "Handler_ApplyTicket D inp rq c tenant st =
     (case bd_ApplyTicket (dp_binders D) rq of
        None \<Rightarrow> (Nothing, st)
      | Some req \<Rightarrow>
          let w = as_world st in
          (case ApplyTicket (h_redis (sd_hub (dp_sender D))) (dp_aead D) (dp_tickets D) (Ticket (dp_config D)) (in_now inp)
                  (in_random inp) (ResolveTenantID tenant (at_Tenant req)) (at_UserID req) (hw_cache w) of
             (Inl err, s) \<Rightarrow> (ErrResp c err, st\<lparr>as_world := w\<lparr>hw_cache := s\<rparr>\<rparr>)
           | (Inr (tkt, exp, cre), s) \<Rightarrow>
               (OkResp c MsgTicketOk (Some (DataTicket \<lparr>tr_Ticket = tkt, tr_ExpireTime = exp, tr_CreateTime = cre\<rparr>)),
                st\<lparr>as_world := w\<lparr>hw_cache := s\<rparr>\<rparr>)))"

section \<open>internal.go\<close>

definition Handler_Dashboard :: "('k, 'b) deps \<Rightarrow> inputs \<Rightarrow> 'b app_handler" where
  "Handler_Dashboard D inp c tenant st =
     (let w = as_world st; H = sd_hub (dp_sender D) in
      (OkResp c MsgDashboardOk
         (Some (DataDashboard (Internal_Dashboard (h_pg H) (h_str H) (dp_start D) (in_probe inp) (Some (hw_pool w)) (hw_db w)))),
       st))"

end
