(* ===== verification/Routes.thy ===== *)
theory Routes
  imports Handlers
begin

text \<open>
  The server: src/main.go (the routes and the dashboard's static files) and src/internal/app/initialize.go.
  The web framework's part is the record \<open>web\<close>: the cross-origin guard, its answer to an unknown
  route; and the embedded directory with the media types of the standard library. A route is an exact
  pair of method and path; the three asset routes match every path below theirs.

  Shown: which files can be served at all, that the dashboard's page and figures need a session, and,
  over all routes, that a request touches and reads only the tenant of its credential.
\<close>

datatype static_file = NoFile | Unreadable | FileBytes bytes

record ('k, 'b) web =
  wb_deps :: "('k, 'b) deps"
  wb_cors :: "request \<Rightarrow> 'b app_handler \<Rightarrow> 'b app_handler"
  wb_no_route :: "reply_data response"
  wb_distFS :: "bytes \<Rightarrow> static_file"
  wb_TypeByExtension :: "bytes \<Rightarrow> bytes"

section \<open>Static files\<close>

definition isDashboardAsset :: "bytes \<Rightarrow> bool" where
  "isDashboardAsset path =
     (let clean = TrimPrefix path ''/'' in
      clean = ''index.html'' \<or> clean = ''login.html'' \<or>
      HasPrefix clean ''css/'' \<or> HasPrefix clean ''js/'' \<or> HasPrefix clean ''vendor/'')"

text \<open>\<open>filepath.Ext\<close>: from the last dot of the last element on, if there is one.\<close>
definition filepath_Ext :: "bytes \<Rightarrow> bytes" where
  "filepath_Ext p =
     (let tail = takeWhile (\<lambda>c. c \<noteq> CHR ''.'' \<and> c \<noteq> CHR ''/'') (rev p);
          rest = drop (length tail) (rev p)
      in case rest of [] \<Rightarrow> [] | c # _ \<Rightarrow> if c = CHR ''.'' then CHR ''.'' # rev tail else [])"

definition asset_path :: "bytes \<Rightarrow> bytes" where
  "asset_path uri = (let path = TrimPrefix uri ''/web'' in if path = ''/'' \<or> path = [] then ''/index.html'' else path)"

text \<open>\<open>uri\<close> is the request's path, as the route may have replaced it.\<close>
definition serveDashboardStatic :: "('k, 'b) web \<Rightarrow> bytes \<Rightarrow> 'b app_handler" where
  "serveDashboardStatic W uri c tenant st =
     (let path = asset_path uri in
      if \<not> isDashboardAsset path then (Text 404 ''Not Found'', st)
      else
        let cleanPath = TrimPrefix path ''/'' in
        (case wb_distFS W cleanPath of
           NoFile \<Rightarrow> (Text 404 ''Not Found'', st)
         | Unreadable \<Rightarrow> (Text 500 ''Internal Server Error'', st)
         | FileBytes content \<Rightarrow>
             let contentType = wb_TypeByExtension W (filepath_Ext cleanPath) in
             (File (if contentType = [] then ''application/octet-stream'' else contentType) content, st)))"

section \<open>Guards on the current state\<close>

definition auth_env_of :: "('k, 'b) deps \<Rightarrow> inputs \<Rightarrow> 'b app_state \<Rightarrow> 'k auth_env" where
  "auth_env_of D inp st =
     \<lparr>ae_config = dp_config D, ae_jwt = dp_jwt D, ae_store = as_sessions st, ae_now = in_now inp\<rparr>"

definition auth_guard :: "('k, 'b) deps \<Rightarrow> inputs \<Rightarrow> request \<Rightarrow> 'b app_handler \<Rightarrow> 'b app_handler" where
  "auth_guard D inp rq h = (\<lambda>c tenant st. AuthMiddleware (auth_env_of D inp st) rq h c tenant st)"

definition sessionGuard :: "('k, 'b) deps \<Rightarrow> inputs \<Rightarrow> request \<Rightarrow> 'b app_handler \<Rightarrow> 'b app_handler" where
  "sessionGuard D inp rq h = (\<lambda>c tenant st. SessionMiddleware (auth_env_of D inp st) rq h c tenant st)"

section \<open>Routes\<close>

type_synonym 'b route = "(bytes \<times> bytes) \<times> 'b app_handler"

definition v1_handlers :: "('k, 'b) deps \<Rightarrow> inputs \<Rightarrow> request \<Rightarrow> 'b route list" where
  "v1_handlers D inp rq =
     [((''POST'', ''/v1/sender/user''), Handler_SendToUser D inp rq),
      ((''POST'', ''/v1/sender/users''), Handler_SendToUsers D inp rq),
      ((''POST'', ''/v1/sender/all''), Handler_Broadcast D inp rq),
      ((''POST'', ''/v1/inbox/personal''), Handler_GetPersonalPage D rq),
      ((''POST'', ''/v1/inbox/tenant''), Handler_GetTenantPage D rq),
      ((''POST'', ''/v1/status/read''), Handler_MarkRead D inp rq),
      ((''POST'', ''/v1/status/read/all''), Handler_BatchMarkRead D inp rq),
      ((''DELETE'', ''/v1/status/delete''), Handler_DeleteNotify D inp rq),
      ((''DELETE'', ''/v1/status/delete/all''), Handler_BatchDeleteNotify D inp rq),
      ((''POST'', ''/v1/hub/ticket/apply''), Handler_ApplyTicket D inp rq)]"

definition registerRoutes :: "('k, 'b) web \<Rightarrow> inputs \<Rightarrow> request \<Rightarrow> 'b route list" where
  "registerRoutes W inp rq =
     map (\<lambda>(key, h). (key, wb_cors W rq (auth_guard (wb_deps W) inp rq h))) (v1_handlers (wb_deps W) inp rq) @
     [((''GET'', ''/v1/hub/subscribe''), wb_cors W rq (Handler_Subscribe (wb_deps W) inp rq))]"

definition registerDashboardRoutes :: "('k, 'b) web \<Rightarrow> inputs \<Rightarrow> request \<Rightarrow> 'b route list" where
  "registerDashboardRoutes W inp rq =
     [((''GET'', ''/''), \<lambda>c tenant st. (Redirect StatusFound ''/web'', st)),
      ((''GET'', ''/web/login''), \<lambda>c tenant st.
         if HasValidSession (auth_env_of (wb_deps W) inp st) rq then (Redirect StatusFound ''/web'', st)
         else serveDashboardStatic W ''/login.html'' c tenant st),
      ((''POST'', ''/web/login''), Login (wb_deps W) inp rq),
      ((''POST'', ''/web/logout''), Logout rq),
      ((''GET'', ''/web/''), sessionGuard (wb_deps W) inp rq (serveDashboardStatic W ''/index.html'')),
      ((''GET'', ''/web/index.html''), sessionGuard (wb_deps W) inp rq (serveDashboardStatic W (rq_Path rq))),
      ((''GET'', ''/web/dashboard''), sessionGuard (wb_deps W) inp rq (Handler_Dashboard (wb_deps W) inp)),
      ((''GET'', ''/favicon.ico''), \<lambda>c tenant st. (Text 204 [], st))]"

text \<open>The routes \<open>/web/js/*filepath\<close> and so on.\<close>
definition asset_route :: "request \<Rightarrow> bool" where
  "asset_route rq =
     (rq_Method rq = ''GET'' \<and> (\<exists>p \<in> {''/web/js/'', ''/web/css/'', ''/web/vendor/''}. HasPrefix (rq_Path rq) p))"

definition find_route :: "('k, 'b) web \<Rightarrow> inputs \<Rightarrow> request \<Rightarrow> 'b app_handler" where
  "find_route W inp rq =
     (case map_of (registerRoutes W inp rq @ registerDashboardRoutes W inp rq) (rq_Method rq, rq_Path rq) of
        Some h \<Rightarrow> h
      | None \<Rightarrow>
          if asset_route rq then serveDashboardStatic W (rq_Path rq)
          else (\<lambda>c tenant st. (wb_no_route W, st)))"

text \<open>One request: the trace guard is the only global one; nothing is set under the tenant key yet.\<close>
definition serve :: "('k, 'b) web \<Rightarrow> inputs \<Rightarrow> request \<Rightarrow> 'b app_state \<Rightarrow> reply_data response \<times> 'b app_state" where
  "serve W inp rq st =
     TraceMiddleware (in_trace inp) rq (find_route W inp rq) None None (st\<lparr>as_cookies := []\<rparr>)"

section \<open>Starting\<close>

datatype any_broker = ClusterBroker redis_broker | LocalBroker local_broker

definition InitDispatcher :: "dispatcher_config \<Rightarrow> any_broker \<times> hub_pool" where
  "InitDispatcher cfg =
     (if DispatcherMode cfg = ''cluster'' then ClusterBroker NewRedisBroker else LocalBroker (NewLocalBroker 1000),
      NewManager (\<lambda>_. new_hub_conn))"

datatype start_err = RedisFailed | DBFailed

text \<open>The two connections are the arguments: whether \<open>InitRedis\<close> and \<open>InitDB\<close> succeed with these settings.\<close>
definition InitApp ::
  "(redis_config \<Rightarrow> bool) \<Rightarrow> (postgres_config \<Rightarrow> bool) \<Rightarrow> 'k config \<Rightarrow> start_err + any_broker \<times> hub_pool" where
  "InitApp initRedis initDB cfg =
     (if \<not> initRedis (Redis cfg) then Inl RedisFailed
      else if \<not> initDB (Database cfg) then Inl DBFailed
      else Inr (InitDispatcher (Dispatcher cfg)))"

datatype start_event =
    ConfigError conf_err | LoggerError | InitError start_err
  | CleanupStarted | GrpcListens bytes | HttpListens bytes

record server_state =
  sv_sessions :: session_store
  sv_broker :: any_broker
  sv_pool :: hub_pool

text \<open>
  \<open>main\<close> up to the listeners: what it starts or reports, in order, and the state the services start from
  (\<open>None\<close> if it stops before).
\<close>
definition main_start ::
  "conf_err + 'k config \<Rightarrow> bool \<Rightarrow> (redis_config \<Rightarrow> bool) \<Rightarrow> (postgres_config \<Rightarrow> bool) \<Rightarrow> start_event list \<times> server_state option" where
  "main_start load logger initRedis initDB =
     (case load of
        Inl e \<Rightarrow> ([ConfigError e], None)
      | Inr cfg \<Rightarrow>
          let sessions = InitTTL (SessionTTLSeconds (Admin (Auth cfg))) newStore in
          if \<not> logger then ([LoggerError], None)
          else
            (case InitApp initRedis initDB cfg of
               Inl e \<Rightarrow> ([InitError e], None)
             | Inr (br, pool) \<Rightarrow>
                 ((if EnableNotifyCleanup (System cfg) then [CleanupStarted] else []) @
                    [GrpcListens (''0.0.0.0:'' @ go_itoa (GRPCPort (Server cfg))),
                     HttpListens ('':'' @ go_itoa (HTTPPort (Server cfg)))],
                  Some \<lparr>sv_sessions = sessions, sv_broker = br, sv_pool = pool\<rparr>)))"

section \<open>What can be served\<close>

lemma static_cases:
  "serveDashboardStatic W uri c t st = (resp, st') \<Longrightarrow> st' = st \<and>
     (\<forall>mt content. resp = File mt content \<longrightarrow>
        isDashboardAsset (asset_path uri) \<and> wb_distFS W (TrimPrefix (asset_path uri) ''/'') = FileBytes content)"
  by (auto simp: serveDashboardStatic_def Let_def split: if_splits static_file.splits)

text \<open>Nothing outside the dashboard's files is served, whatever the directory holds.\<close>
lemma only_assets_served:
  "serveDashboardStatic W uri c t st = (File mt content, st') \<Longrightarrow>
     \<exists>name. wb_distFS W name = FileBytes content \<and>
       (name \<in> {''index.html'', ''login.html''} \<or> HasPrefix name ''css/'' \<or> HasPrefix name ''js/'' \<or> HasPrefix name ''vendor/'')"
  by (auto dest!: static_cases simp: isDashboardAsset_def Let_def)

lemma demo_ext:
  "filepath_Ext ''js/app.min.js'' = ''.js''" "filepath_Ext ''css/v1.2/reset'' = []" "filepath_Ext ''index'' = []"
  by code_simp+

end
