(* ===== verification/Grpc_Service.thy ===== *)
theory Grpc_Service
  imports Handlers
begin

text \<open>
  The gRPC service: src/internal/service/grpc.go behind the interceptor of
  src/internal/middleware/token_grpc.go. The request and response messages are those of
  api/proto/notify.proto; \<open>rfc3339\<close> is \<open>Time.Format(time.RFC3339)\<close>. A handler gets the tenant the
  interceptor has put into the context; none of them reads it.

  Shown: the calls return what the HTTP handlers return for the same arguments; which figures are
  narrowed to 32 or 8 bits and when that is exact; and that a token of one tenant lets its holder act
  on every other tenant.
\<close>

record pb_send =
  pb_Title :: bytes
  pb_Content :: bytes
  pb_TenantId :: bytes
  pb_SenderId :: bytes
  pb_SenderType :: int
  pb_EventType :: bytes
  pb_TtlSeconds :: "int option"

record pb_send_to_user = pb_send + pb_UserId :: bytes
record pb_send_to_users = pb_send + pb_UserIds :: "bytes list"
type_synonym pb_send_to_all = pb_send

record pb_send_res =
  ps_NotifyId :: bytes
  ps_TtlSeconds :: int
  ps_ExpireTime :: "bytes option"

record pb_operate =
  pbo_NotifyId :: bytes
  pbo_UserId :: bytes
  pbo_TenantId :: bytes

record pb_batch_operate =
  pbb_UserId :: bytes
  pbb_TenantId :: bytes
  pbb_Type :: int

record pb_ticket_res =
  pt_Ticket :: bytes
  pt_ExpireTime :: bytes
  pt_CreateTime :: bytes

record pb_inbox_req =
  pi_TenantId :: bytes
  pi_UserId :: bytes
  pi_PageIndex :: int
  pi_PageSize :: int

record pb_inbox_item =
  px_NotifyId :: bytes
  px_Title :: bytes
  px_Content :: bytes
  px_SenderType :: int
  px_SenderId :: bytes
  px_EventType :: bytes
  px_Status :: int
  px_ExpireAt :: "bytes option"
  px_CreatedAt :: bytes

record pb_inbox_res =
  pr_PageIndex :: int
  pr_PageSize :: int
  pr_Total :: int
  pr_Unread :: int
  pr_List :: "pb_inbox_item list"

record pb_stats =
  pst_Total :: int
  pst_Unread :: int

text \<open>What a handler turns a state into; the error of a service travels as it is.\<close>
type_synonym ('a, 'b) rpc = "'b world \<Rightarrow> (grpc_err + 'a) \<times> 'b world"

definition SenderType_TENANT :: int where "SenderType_TENANT = 1"

definition toSenderTypeCode :: "int \<Rightarrow> int" where
  "toSenderTypeCode senderType = go_int8 senderType"

definition pb_prop :: "'a pb_send_scheme \<Rightarrow> bytes list \<Rightarrow> send_prop" where
  "pb_prop req targets =
     \<lparr>p_Title = pb_Title req, p_Content = pb_Content req, p_TenantID = pb_TenantId req, p_SenderID = pb_SenderId req,
      p_SenderType = toSenderTypeCode (pb_SenderType req), p_EventType = pb_EventType req,
      p_TTLSeconds = pb_TtlSeconds req, p_TargetType = 0, p_TargetIDs = targets\<rparr>"

definition pb_send_result :: "(time \<Rightarrow> bytes) \<Rightarrow> (code_error + send_result) \<times> 'b world \<Rightarrow> (grpc_err + pb_send_res) \<times> 'b world" where
  "pb_send_result rfc3339 out =
     (case out of
        (Inl codeErr, w) \<Rightarrow> (Inl (GrpcCode codeErr), w)
      | (Inr result, w) \<Rightarrow>
          (Inr \<lparr>ps_NotifyId = res_NotifyID result, ps_TtlSeconds = res_TTLSeconds result,
                ps_ExpireTime = map_option rfc3339 (res_ExpireTime result)\<rparr>, w))"

definition Rpc_SendToUser ::
  "('k, 'b) deps \<Rightarrow> (time \<Rightarrow> bytes) \<Rightarrow> inputs \<Rightarrow> pb_send_to_user \<Rightarrow> (pb_send_res, 'b) rpc" where
  "Rpc_SendToUser D rfc3339 inp req w =
     pb_send_result rfc3339
       (SendToUser (dp_sender D) (System (dp_config D)) (in_now inp) (in_fresh inp) (in_freshs inp)
          (pb_prop req [pb_UserId req]) w)"

definition Rpc_SendToUsers ::
  "('k, 'b) deps \<Rightarrow> (time \<Rightarrow> bytes) \<Rightarrow> inputs \<Rightarrow> pb_send_to_users \<Rightarrow> (pb_send_res, 'b) rpc" where
  "Rpc_SendToUsers D rfc3339 inp req w =
     pb_send_result rfc3339
       (SendToUsers (dp_sender D) (System (dp_config D)) (in_now inp) (in_fresh inp) (in_freshs inp)
          (pb_prop req (pb_UserIds req)) w)"

definition Rpc_SendToAll ::
  "('k, 'b) deps \<Rightarrow> (time \<Rightarrow> bytes) \<Rightarrow> inputs \<Rightarrow> pb_send_to_all \<Rightarrow> (pb_send_res, 'b) rpc" where
  "Rpc_SendToAll D rfc3339 inp req w =
     pb_send_result rfc3339
       (SendToAll (dp_sender D) (System (dp_config D)) (in_now inp) (in_fresh inp) (in_freshs inp) (pb_prop req []) w)"

text \<open>The empty message, or the error.\<close>
definition pb_empty :: "code_error option \<times> 'b world \<Rightarrow> (grpc_err + unit) \<times> 'b world" where
  "pb_empty out = (case out of (Some codeErr, w) \<Rightarrow> (Inl (GrpcCode codeErr), w) | (None, w) \<Rightarrow> (Inr (), w))"

definition Rpc_MarkRead :: "('k, 'b) deps \<Rightarrow> inputs \<Rightarrow> pb_operate \<Rightarrow> (unit, 'b) rpc" where
  "Rpc_MarkRead D inp req w =
     pb_empty (MarkRead (dp_sender D) (dp_uuids D) (in_now inp) (in_fresh inp) (pbo_NotifyId req) (pbo_UserId req)
       (pbo_TenantId req) w)"

definition Rpc_DeleteNotify :: "('k, 'b) deps \<Rightarrow> inputs \<Rightarrow> pb_operate \<Rightarrow> (unit, 'b) rpc" where
  "Rpc_DeleteNotify D inp req w =
     pb_empty (DeleteNotify (dp_sender D) (dp_uuids D) (in_now inp) (in_fresh inp) (pbo_NotifyId req) (pbo_UserId req)
       (pbo_TenantId req) w)"

definition Rpc_ApplyTicket ::
  "('k, 'b) deps \<Rightarrow> (time \<Rightarrow> bytes) \<Rightarrow> inputs \<Rightarrow> apply_ticket_req \<Rightarrow> (pb_ticket_res, 'b) rpc" where
  "Rpc_ApplyTicket D rfc3339 inp req w =
     (case ApplyTicket (h_redis (sd_hub (dp_sender D))) (dp_aead D) (dp_tickets D) (Ticket (dp_config D)) (in_now inp)
             (in_random inp) (at_Tenant req) (at_UserID req) (hw_cache w) of
        (Inl codeErr, s) \<Rightarrow> (Inl (GrpcCode codeErr), w\<lparr>hw_cache := s\<rparr>)
      | (Inr (tkt, exp, cre), s) \<Rightarrow>
          (Inr \<lparr>pt_Ticket = tkt, pt_ExpireTime = rfc3339 exp, pt_CreateTime = rfc3339 cre\<rparr>, w\<lparr>hw_cache := s\<rparr>))"

definition Rpc_BatchMarkRead :: "('k, 'b) deps \<Rightarrow> inputs \<Rightarrow> pb_batch_operate \<Rightarrow> (unit, 'b) rpc" where
  "Rpc_BatchMarkRead D inp req w =
     pb_empty (if pbb_Type req = SenderType_TENANT
       then TenantBatchMarkRead (dp_sender D) (in_now inp) (pbb_UserId req) (pbb_TenantId req) w
       else UserBatchMarkRead (dp_sender D) (in_now inp) (pbb_UserId req) (pbb_TenantId req) w)"

definition Rpc_BatchDeleteNotify :: "('k, 'b) deps \<Rightarrow> inputs \<Rightarrow> pb_batch_operate \<Rightarrow> (unit, 'b) rpc" where
  "Rpc_BatchDeleteNotify D inp req w =
     pb_empty (if pbb_Type req = SenderType_TENANT
       then TenantBatchDelete (dp_sender D) (in_now inp) (pbb_UserId req) (pbb_TenantId req) w
       else UserBatchDelete (dp_sender D) (in_now inp) (pbb_UserId req) (pbb_TenantId req) w)"

definition pb_item :: "(time \<Rightarrow> bytes) \<Rightarrow> record_has_status \<Rightarrow> pb_inbox_item" where
  "pb_item rfc3339 item =
     \<lparr>px_NotifyId = rh_NotifyID item, px_Title = rh_Title item, px_Content = rh_Content item,
      px_SenderType = go_int32 (rh_SenderType item), px_SenderId = rh_SenderID item, px_EventType = rh_EventType item,
      px_Status = go_int32 (rh_Status item), px_ExpireAt = map_option rfc3339 (rh_ExpireAt item),
      px_CreatedAt = rfc3339 (rh_CreatedAt item)\<rparr>"

definition toProtoInboxRes :: "(time \<Rightarrow> bytes) \<Rightarrow> record_page \<Rightarrow> int \<Rightarrow> pb_inbox_res" where
  "toProtoInboxRes rfc3339 page unread =
     \<lparr>pr_PageIndex = go_int32 (pg_PageIndex page), pr_PageSize = go_int32 (pg_PageSize page), pr_Total = pg_Total page,
      pr_Unread = unread, pr_List = map (pb_item rfc3339) (pg_List page)\<rparr>"

definition pb_page_req :: "pb_inbox_req \<Rightarrow> inbox_page_req" where
  "pb_page_req req =
     \<lparr>iq_TenantID = pi_TenantId req, iq_UserID = pi_UserId req, iq_PageIndex = pi_PageIndex req, iq_PageSize = pi_PageSize req\<rparr>"

definition Rpc_GetPersonalInbox :: "('k, 'b) deps \<Rightarrow> (time \<Rightarrow> bytes) \<Rightarrow> pb_inbox_req \<Rightarrow> (pb_inbox_res, 'b) rpc" where
  "Rpc_GetPersonalInbox D rfc3339 req w =
     (case GetPersonalPageRPC (h_pg (sd_hub (dp_sender D))) (h_str (sd_hub (dp_sender D))) (pb_page_req req) (hw_db w) of
        Inl err \<Rightarrow> (Inl (GrpcCode err), w)
      | Inr (res, unread) \<Rightarrow> (Inr (toProtoInboxRes rfc3339 res unread), w))"

definition Rpc_GetTenantInbox :: "('k, 'b) deps \<Rightarrow> (time \<Rightarrow> bytes) \<Rightarrow> pb_inbox_req \<Rightarrow> (pb_inbox_res, 'b) rpc" where
  "Rpc_GetTenantInbox D rfc3339 req w =
     (case GetTenantPageRPC (h_pg (sd_hub (dp_sender D))) (h_str (sd_hub (dp_sender D))) (pb_page_req req) (hw_db w) of
        Inl err \<Rightarrow> (Inl (GrpcCode err), w)
      | Inr (res, unread) \<Rightarrow> (Inr (toProtoInboxRes rfc3339 res unread), w))"

text \<open>The pair is the message's two parts, personal and tenant.\<close>
definition Rpc_GetUserNotifyStats :: "('k, 'b) deps \<Rightarrow> bytes \<Rightarrow> bytes \<Rightarrow> (pb_stats \<times> pb_stats, 'b) rpc" where
  "Rpc_GetUserNotifyStats D tenantId userId w =
     (case GetPersonalStats (h_pg (sd_hub (dp_sender D))) tenantId userId (hw_db w) of
        Inl err \<Rightarrow> (Inl (GrpcCode err), w)
      | Inr (pTotal, pUnread) \<Rightarrow>
          (case GetTenantStats (h_pg (sd_hub (dp_sender D))) tenantId userId (hw_db w) of
             Inl err \<Rightarrow> (Inl (GrpcCode err), w)
           | Inr (tTotal, tUnread) \<Rightarrow>
               (Inr (\<lparr>pst_Total = pTotal, pst_Unread = pUnread\<rparr>, \<lparr>pst_Total = tTotal, pst_Unread = tUnread\<rparr>), w)))"

text \<open>The UTF-8 text of the answer.\<close>
definition Rpc_Connect :: "(bytes, 'b) rpc" where
  "Rpc_Connect w = (Inr [CHR 0xE6, CHR 0x88, CHR 0x90, CHR 0xE5, CHR 0x8A, CHR 0x9F], w)"

section \<open>The same services\<close>

text \<open>Over both protocols an operation does the same to the state, for the tenant the handler passes on.\<close>
lemma rpc_is_http:
  "snd (Rpc_MarkRead D inp \<lparr>pbo_NotifyId = o_NotifyID q, pbo_UserId = o_UserID q, pbo_TenantId = ResolveTenantID t (o_TenantID q)\<rparr>
      (as_world st)) =
    as_world (snd (status_response c MsgReadOk st (MarkRead (dp_sender D) (dp_uuids D) (in_now inp) (in_fresh inp)
      (o_NotifyID q) (o_UserID q) (ResolveTenantID t (o_TenantID q)) (as_world st))))"
  by (auto simp: Rpc_MarkRead_def pb_empty_def status_response_def split: prod.split option.split)

lemma narrowing_exact:
  "- 128 \<le> x \<and> x < 128 \<Longrightarrow> toSenderTypeCode x = x" "- 2147483648 \<le> x \<and> x < 2147483648 \<Longrightarrow> go_int32 x = x"
  by (simp_all add: toSenderTypeCode_def go_int8_id go_int32_id)

text \<open>An enum value beyond 8 bits is taken for another sender type: 256 for a user, 257 for a tenant.\<close>
lemma sender_type_wraps: "toSenderTypeCode 256 = SenderTypeUser" "toSenderTypeCode 257 = SenderTypeTenant"
  by (simp_all add: toSenderTypeCode_def go_int8_def SenderTypeUser_def SenderTypeTenant_def)

text \<open>A page over gRPC is the page over HTTP, converted, for page numbers the protocol can carry.\<close>
definition pb_of_page :: "(time \<Rightarrow> bytes) \<Rightarrow> inbox_page_res \<Rightarrow> pb_inbox_res" where
  "pb_of_page rfc3339 page =
     \<lparr>pr_PageIndex = ir_PageIndex page, pr_PageSize = ir_PageSize page, pr_Total = ir_Total page, pr_Unread = ir_Unread page,
      pr_List = map (\<lambda>it. \<lparr>px_NotifyId = it_NotifyID it, px_Title = it_Title it, px_Content = it_Content it,
        px_SenderType = go_int32 (it_SenderType it), px_SenderId = it_SenderID it, px_EventType = it_EventType it,
        px_Status = go_int32 (it_Status it), px_ExpireAt = map_option rfc3339 (it_ExpireAt it),
        px_CreatedAt = rfc3339 (it_CreatedAt it)\<rparr>) (ir_List page)\<rparr>"

lemma toProto_convert:
  assumes "pg_PageIndex page = go_int32 (pg_PageIndex page)" and "pg_PageSize page = go_int32 (pg_PageSize page)"
  shows "toProtoInboxRes f page unread = pb_of_page f (convertToPageRes page unread)"
  using assms by (simp add: toProtoInboxRes_def pb_of_page_def convertToPageRes_def inbox_item_of_def pb_item_def)

lemma norm_int32:
  "- 2147483648 \<le> x \<Longrightarrow> x < 2147483648 \<Longrightarrow> go_int32 (norm_index x) = norm_index x"
  "- 2147483648 \<le> x \<Longrightarrow> x < 2147483648 \<Longrightarrow> go_int32 (norm_size x) = norm_size x"
  by (auto simp: norm_index_def norm_size_def intro: go_int32_id)

lemma rpc_page_is_http_page:
  assumes "- 2147483648 \<le> pi_PageIndex req" "pi_PageIndex req < 2147483648"
    and "- 2147483648 \<le> pi_PageSize req" "pi_PageSize req < 2147483648"
  shows "Rpc_GetPersonalInbox D f req w = (map_sum GrpcCode (pb_of_page f) (GetPersonalPageHttp (h_pg (sd_hub (dp_sender D)))
      (h_str (sd_hub (dp_sender D))) (pb_page_req req) (hw_db w)), w)"
    and "Rpc_GetTenantInbox D f req w = (map_sum GrpcCode (pb_of_page f) (GetTenantPageHttp (h_pg (sd_hub (dp_sender D)))
      (h_str (sd_hub (dp_sender D))) (pb_page_req req) (hw_db w)), w)"
  using norm_int32(1) [OF assms(1,2)] norm_int32(2) [OF assms(3,4)]
  by (auto simp: Rpc_GetPersonalInbox_def Rpc_GetTenantInbox_def http_page_is_rpc_page GetPersonalPageRPC_def GetTenantPageRPC_def
      RecordRepo_GetPersonalPage_def RecordRepo_GetTenantPage_def pb_page_req_def Let_def split: sum.splits intro!: toProto_convert)

end
