(* ===== verification/Isolation.thy ===== *)
theory Isolation
  imports Routes Grpc_Service
begin

text \<open>
  Tenants are isolated over HTTP: what every route does to the database, to the goroutines it starts
  and what it returns, given the tenant of the request's credential. Composes the guard, the routes,
  the handlers, the services and the repositories.
\<close>

definition tenant_frame :: "bytes \<Rightarrow> db \<Rightarrow> db \<Rightarrow> bool" where
  "tenant_frame t d d' =
     (filter (\<lambda>r. r_TenantID r \<noteq> t) (t_record d') = filter (\<lambda>r. r_TenantID r \<noteq> t) (t_record d) \<and>
      (\<forall>u n. in_records (\<lambda>r. r_TenantID r \<noteq> t) d n \<longrightarrow> pair_rows u n d' = pair_rows u n d) \<and>
      (\<forall>t' u. t' \<noteq> t \<longrightarrow> wm_of t' u d' = wm_of t' u d))"

fun job_tenant :: "job \<Rightarrow> bytes" where
  "job_tenant (JobSendNotify r) = r_TenantID r"
| "job_tenant (JobBatchOp u t c) = t"
| "job_tenant (JobOnceOp r u) = r_TenantID r"

definition lists_only :: "(uuid \<Rightarrow> bytes) \<Rightarrow> bytes \<Rightarrow> db \<Rightarrow> reply_data response \<Rightarrow> bool" where
  "lists_only str t d resp =
     (\<forall>code b page. resp = Json code b \<and> b_Data b = Some (DataPage page) \<longrightarrow>
        (\<forall>it \<in> set (ir_List page). \<exists>r \<in> set (t_record d). r_TenantID r = t \<and> it_NotifyID it = str (r_NotifyID r) \<and>
           it_Content it = r_Content r))"

text \<open>What a request of tenant \<open>t\<close> may do.\<close>
definition within :: "('k, 'b) deps \<Rightarrow> bytes \<Rightarrow> 'b app_state \<Rightarrow> reply_data response \<times> 'b app_state \<Rightarrow> bool" where
  "within D t st out =
     (tenant_frame t (hw_db (as_world st)) (hw_db (as_world (snd out))) \<and>
      (\<exists>js. hw_jobs (as_world (snd out)) = hw_jobs (as_world st) @ js \<and> (\<forall>j \<in> set js. job_tenant j = t)) \<and>
      lists_only (h_str (sd_hub (dp_sender D))) t (hw_db (as_world st)) (fst out))"

lemma frame_refl [simp]: "tenant_frame t d d"
  by (simp add: tenant_frame_def)

lemma other_records:
  "db_keys_ok d \<Longrightarrow> in_records (\<lambda>r. r_TenantID r \<noteq> t) d n \<Longrightarrow> \<not> in_records (\<lambda>r. r_TenantID r = t) d n"
  by (auto simp: db_keys_ok_def in_records_def distinct_map dest: inj_onD)

lemma untouched_frame: "db_keys_ok d \<Longrightarrow> untouched u t d d' \<Longrightarrow> tenant_frame t d d'"
  by (auto simp: untouched_def tenant_frame_def dest: other_records)

section \<open>Services\<close>

lemma store_prop_fresh:
  assumes "pg_ok P" and "store_prop P now fresh freshs prop d = Inr (r, d')"
  shows "fresh \<notin> r_NotifyID ` set (t_record d)"
proof -
  from assms(2) obtain d1 where "RecordRepo_Create P now fresh (prop_record prop) d = Inr (r, d1)"
    by (auto simp: store_prop_def Let_def split: sum.splits if_splits)
  then obtain r0 where "ins_record P r0 d = Inr d1" and "r_NotifyID r0 = fresh"
    by (auto simp: RecordRepo_Create_def NotifyRecord_BeforeCreate_def prop_record_def Let_def split: sum.splits if_splits)
  with write_ok(1) [OF assms(1)] show ?thesis by (auto simp: record_fits_def)
qed

lemma send_within:
  assumes ok: "pg_ok (h_pg (sd_hub S))" and e: "transmit S cfg now fresh freshs prop w = (out, w')"
  shows "tenant_frame (p_TenantID prop) (hw_db w) (hw_db w') \<and>
     (\<exists>js. hw_jobs w' = hw_jobs w @ js \<and> (\<forall>j \<in> set js. job_tenant j = p_TenantID prop))"
proof (cases out)
  case (Inl err)
  with e show ?thesis
    by (auto simp: transmit_def Let_def Transaction_def split: option.splits sum.splits prod.splits)
next
  case (Inr res)
  let ?P = "h_pg (sd_hub S)" and ?r = "stored_record now fresh prop"
  from transmit_ok [OF ok] e Inr have w': "hw_db w' = (hw_db w)\<lparr>t_record := t_record (hw_db w) @ [?r],
       t_status := t_status (hw_db w) @ stored_statuses now fresh freshs prop\<rparr>"
    "hw_jobs w' = hw_jobs w @ [JobSendNotify ?r]" by fastforce+
  from e Inr obtain r d where "Transaction ?P (store_prop ?P now fresh freshs prop) (hw_db w) = (Inr r, d)"
    by (auto simp: transmit_def Let_def split: option.splits sum.splits prod.splits)
  then have "store_prop ?P now fresh freshs prop (hw_db w) = Inr (r, d)"
    by (auto simp: Transaction_def split: sum.splits option.splits)
  from store_prop_fresh [OF ok this] have f: "fresh \<notin> r_NotifyID ` set (t_record (hw_db w))" .
  have t: "r_TenantID ?r = p_TenantID prop" by (simp add: stored_record_def prop_record_def)
  have "s_NotifyID s = fresh" if "s \<in> set (stored_statuses now fresh freshs prop)" for s
    using that by (auto simp: stored_statuses_def stamp_status_def new_status_def NotifyStatus_BeforeCreate_def Let_def
        split: if_splits)
  with f have "filter (\<lambda>s. s_TargetUserID s = u \<and> s_NotifyID s = n) (stored_statuses now fresh freshs prop) = []"
    if "in_records wh (hw_db w) n" for u n wh
    using that by (fastforce simp: filter_empty_conv in_records_def)
  then show ?thesis by (auto simp: w' t tenant_frame_def pair_rows_def wm_of_def)
qed

lemma single_jobs:
  assumes "pg_ok (h_pg (sd_hub S))" and "execStatusUpdate S U now fresh n u t st w = (e, w')"
  shows "\<exists>js. hw_jobs w' = hw_jobs w @ js \<and> (\<forall>j \<in> set js. job_tenant j = t)"
proof (cases e)
  case (Some err)
  with assms(2) show ?thesis by (auto simp: execStatusUpdate_def split: sum.splits)
next
  case None
  with exec_ok [OF assms(1)] assms(2) obtain r where r: "validateNotifyAccess S U n u t (hw_db w) = Inr r"
    and j: "w' = w\<lparr>hw_db := hw_db w', hw_jobs := hw_jobs w @ [JobOnceOp r u]\<rparr>" by blast
  from j have "hw_jobs w' = hw_jobs w @ [JobOnceOp r u]" by (metis world.select_convs(5) world.surjective world.update_convs(5))
  with validate_access_exact [OF assms(1) r] show ?thesis by auto
qed

lemma batch_jobs:
  "UserBatchMarkRead S now u t w = (e, w') \<Longrightarrow> \<exists>js. hw_jobs w' = hw_jobs w @ js \<and> (\<forall>j \<in> set js. job_tenant j = t)"
  "UserBatchDelete S now u t w = (e, w') \<Longrightarrow> \<exists>js. hw_jobs w' = hw_jobs w @ js \<and> (\<forall>j \<in> set js. job_tenant j = t)"
  "TenantBatchMarkRead S now u t w = (e, w') \<Longrightarrow> \<exists>js. hw_jobs w' = hw_jobs w @ js \<and> (\<forall>j \<in> set js. job_tenant j = t)"
  "TenantBatchDelete S now u t w = (e, w') \<Longrightarrow> \<exists>js. hw_jobs w' = hw_jobs w @ js \<and> (\<forall>j \<in> set js. job_tenant j = t)"
  by (auto simp: UserBatchMarkRead_def UserBatchDelete_def TenantBatchMarkRead_def TenantBatchDelete_def
      asyncUpdateBatchOpCacheAndSend_def Let_def split: sum.splits prod.splits)

lemma has_status_fields:
  "it_NotifyID (inbox_item_of (has_status str f row)) = str (r_NotifyID (fst row))"
  "it_Content (inbox_item_of (has_status str f row)) = r_Content (fst row)"
  by (simp_all add: inbox_item_of_def has_status_def)

lemma page_items:
  assumes ok: "pg_ok P"
    and "GetPersonalPageHttp P str q d = Inr page \<or> GetTenantPageHttp P str q d = Inr page" and "it \<in> set (ir_List page)"
  shows "\<exists>r \<in> set (t_record d). r_TenantID r = iq_TenantID q \<and> it_NotifyID it = str (r_NotifyID r) \<and> it_Content it = r_Content r"
proof -
  have item: "\<exists>r \<in> set (t_record d). r_TenantID r = iq_TenantID q \<and> it_NotifyID it = str (r_NotifyID r) \<and> it_Content it = r_Content r"
    if "sel_left P (iq_UserID q) wh newest_first off lim d = Inr items" and "it \<in> inbox_item_of ` has_status str f ` set items"
      and "\<And>row. wh row \<Longrightarrow> r_TenantID (fst row) = iq_TenantID q" for wh off lim items f
  proof -
    from that(2) obtain row where row: "row \<in> set items" "it = inbox_item_of (has_status str f row)" by blast
    with selected_set [OF sel_ok(4) [OF ok that(1)]] have "row \<in> set (left_rows (iq_UserID q) d)" and wh: "wh row" by auto
    with left_rows_sub that(3) [OF wh] show ?thesis unfolding row(2) has_status_fields by blast
  qed
  from assms(2) show ?thesis
  proof
    assume "GetPersonalPageHttp P str q d = Inr page"
    with assms(3) obtain off lim items where
      "sel_left P (iq_UserID q) (personal_where (iq_TenantID q)) newest_first off lim d = Inr items"
      "it \<in> inbox_item_of ` has_status str personal_status ` set items"
      by (auto simp: GetPersonalPageHttp_def RecordRepo_GetPersonalPage_def convertToPageRes_def Let_def split: sum.splits)
    then show ?thesis by (rule item) (simp add: personal_where_def)
  next
    assume "GetTenantPageHttp P str q d = Inr page"
    with assms(3) obtain off lim items wm where
      "sel_left P (iq_UserID q) (tenant_where (iq_TenantID q) (clear_at wm)) newest_first off lim d = Inr items"
      "it \<in> inbox_item_of ` has_status str (tenant_status (read_at wm)) ` set items"
      by (auto simp: GetTenantPageHttp_def RecordRepo_GetTenantPage_def convertToPageRes_def Let_def split: sum.splits)
    then show ?thesis by (rule item) (simp add: tenant_where_def)
  qed
qed

section \<open>Handlers\<close>

lemma send_response_within:
  assumes "pg_ok (h_pg (sd_hub S))" and "dp_sender D = S" and "p_TenantID prop = t"
  shows "within D t st (send_response c msg st (transmit S cfg now fresh freshs prop (as_world st)))"
proof -
  obtain out w' where e: "transmit S cfg now fresh freshs prop (as_world st) = (out, w')" by fastforce
  with send_within [OF assms(1) e] show ?thesis
    by (auto simp: within_def send_response_def lists_only_def assms OkResp_def ErrResp_def split: sum.split)
qed

lemma status_response_within:
  assumes "db_keys_ok (hw_db (as_world st))" and "untouched u t (hw_db (as_world st)) (hw_db (snd out))"
    and "\<exists>js. hw_jobs (snd out) = hw_jobs (as_world st) @ js \<and> (\<forall>j \<in> set js. job_tenant j = t)"
  shows "within D t st (status_response c msg st out)"
  using assms by (cases out) (auto simp: within_def status_response_def lists_only_def untouched_frame OkResp_def ErrResp_def
      split: option.split)

lemma exec_response_within:
  assumes "pg_ok (h_pg (sd_hub S))" and "db_keys_ok (hw_db (as_world st))"
  shows "within D t st (status_response c msg st (execStatusUpdate S U now fresh n u t nst (as_world st)))"
proof (rule status_response_within [OF assms(2), where u = u])
  obtain e w' where x: "execStatusUpdate S U now fresh n u t nst (as_world st) = (e, w')" by fastforce
  show "untouched u t (hw_db (as_world st)) (hw_db (snd (execStatusUpdate S U now fresh n u t nst (as_world st))))"
    using exec_untouched [OF assms x] x by simp
  show "\<exists>js. hw_jobs (snd (execStatusUpdate S U now fresh n u t nst (as_world st))) = hw_jobs (as_world st) @ js \<and>
      (\<forall>j \<in> set js. job_tenant j = t)"
    using single_jobs [OF assms(1) x] x by simp
qed

lemma batch_response_within:
  assumes "pg_ok (h_pg (sd_hub S))" and "db_keys_ok (hw_db (as_world st))"
    and "out \<in> {UserBatchMarkRead S now u t (as_world st), UserBatchDelete S now u t (as_world st),
       TenantBatchMarkRead S now u t (as_world st), TenantBatchDelete S now u t (as_world st)}"
  shows "within D t st (status_response c msg st out)"
proof (rule status_response_within [OF assms(2), where u = u])
  obtain e w' where out: "out = (e, w')" by fastforce
  show "untouched u t (hw_db (as_world st)) (hw_db (snd out))"
    using assms(3) batch_untouched [OF assms(1), of now u t "as_world st" e w'] by (auto simp: out)
  show "\<exists>js. hw_jobs (snd out) = hw_jobs (as_world st) @ js \<and> (\<forall>j \<in> set js. job_tenant j = t)"
    using assms(3) batch_jobs [of S now u t "as_world st" e w'] by (auto simp: out)
qed

text \<open>What a request without effect on the database does.\<close>
definition quiet :: "'b app_state \<Rightarrow> reply_data response \<times> 'b app_state \<Rightarrow> bool" where
  "quiet st out =
     (hw_db (as_world (snd out)) = hw_db (as_world st) \<and> hw_jobs (as_world (snd out)) = hw_jobs (as_world st) \<and>
      (\<forall>code b page. fst out = Json code b \<longrightarrow> b_Data b \<noteq> Some (DataPage page)))"

lemma quiet_within: "quiet st out \<Longrightarrow> within D t st out"
  by (auto simp: quiet_def within_def lists_only_def)

lemma quiet_errors [simp]: "quiet st (ErrResp c e, st)" "quiet st (Nothing, st)" "quiet st (Redirect k p, st)" "quiet st (Text k p, st)"
  by (simp_all add: quiet_def ErrResp_def)

lemma page_within:
  assumes "pg_ok (h_pg (sd_hub (dp_sender D)))" and t: "iq_TenantID q = t"
    and "\<And>page. res = Inr page \<Longrightarrow> GetPersonalPageHttp (h_pg (sd_hub (dp_sender D))) (h_str (sd_hub (dp_sender D))) q
        (hw_db (as_world st)) = Inr page \<or>
      GetTenantPageHttp (h_pg (sd_hub (dp_sender D))) (h_str (sd_hub (dp_sender D))) q (hw_db (as_world st)) = Inr page"
  shows "within D t st (page_response c st res)"
proof (cases res)
  case (Inl e)
  then show ?thesis by (simp add: page_response_def quiet_within)
next
  case (Inr page)
  with page_items [OF assms(1) assms(3) [OF Inr]] t show ?thesis
    by (auto simp: page_response_def within_def lists_only_def OkResp_def)
qed

lemma v1_within:
  assumes ok: "pg_ok (h_pg (sd_hub (dp_sender D)))" and keys: "db_keys_ok (hw_db (as_world st))" and t: "t \<noteq> []"
    and h: "(key, h) \<in> set (v1_handlers D inp rq)"
  shows "within D t st (h c (Some t) st)"
proof -
  note fixed = tenant_fixed [OF t]
  note send = send_response_within [OF ok refl]
  have "within D t st (Handler_SendToUser D inp rq c (Some t) st)" "within D t st (Handler_SendToUsers D inp rq c (Some t) st)"
    "within D t st (Handler_Broadcast D inp rq c (Some t) st)"
    by (auto simp: Handler_SendToUser_def Handler_SendToUsers_def Handler_Broadcast_def SendToUser_def SendToUsers_def
        SendToAll_def base_prop_def fixed quiet_within split: option.split intro!: send)
  moreover have "within D t st (Handler_GetPersonalPage D rq c (Some t) st)" "within D t st (Handler_GetTenantPage D rq c (Some t) st)"
    by (auto simp: Handler_GetPersonalPage_def Handler_GetTenantPage_def fixed quiet_within split: option.split
        intro: page_within [OF ok, rotated] simp: inbox_page_req.defs)
  moreover have "within D t st (Handler_MarkRead D inp rq c (Some t) st)" "within D t st (Handler_DeleteNotify D inp rq c (Some t) st)"
    by (auto simp: Handler_MarkRead_def Handler_DeleteNotify_def MarkRead_def DeleteNotify_def fixed quiet_within
        split: option.split intro!: exec_response_within [OF ok keys])
  moreover have "within D t st (Handler_BatchMarkRead D inp rq c (Some t) st)" "within D t st (Handler_BatchDeleteNotify D inp rq c (Some t) st)"
    by (auto simp: Handler_BatchMarkRead_def Handler_BatchDeleteNotify_def fixed quiet_within Let_def
        split: option.split intro!: batch_response_within [OF ok keys])
  moreover have "within D t st (Handler_ApplyTicket D inp rq c (Some t) st)"
    by (auto simp: Handler_ApplyTicket_def quiet_within quiet_def OkResp_def ErrResp_def Let_def
        split: option.split sum.split prod.split intro!: quiet_within)
  ultimately show ?thesis using h by (auto simp: v1_handlers_def)
qed

section \<open>Routes\<close>

definition credential_tenant :: "'k auth_env \<Rightarrow> request \<Rightarrow> bytes option" where
  "credential_tenant E rq = (case jwt_track E rq of Some t \<Rightarrow> Some t | None \<Rightarrow> session_track E rq)"

text \<open>
  The cross-origin guard passes a request on or answers it itself without a body, and so does the
  framework for an unknown route.
\<close>
definition web_ok :: "('k, 'b) web \<Rightarrow> bool" where
  "web_ok W =
     ((\<forall>rq h c tenant st. wb_cors W rq h c tenant st = h c tenant st \<or>
        (\<exists>code. wb_cors W rq h c tenant st = (Text code [], st))) \<and>
      (\<exists>code s. wb_no_route W = Text code s))"

lemma guard_cases:
  "auth_guard D inp rq h c tenant st =
     (case credential_tenant (auth_env_of D inp st) rq of
        Some t \<Rightarrow> h c (Some t) st
      | None \<Rightarrow> (unauthorized StatusUnauthorized Unauthorized MsgNotLoggedIn, st))"
  by (auto simp: auth_guard_def AuthMiddleware_def credential_tenant_def split: option.split)

lemma static_quiet [simp]: "quiet st (serveDashboardStatic W uri c tenant st)"
  by (auto simp: serveDashboardStatic_def quiet_def Let_def split: static_file.split)

lemma guard_quiet: "(\<And>c tenant. quiet st (h c tenant st)) \<Longrightarrow> quiet st (sessionGuard D inp rq h c tenant st)"
  by (auto simp: sessionGuard_def SessionMiddleware_def quiet_def unauthorized_def Let_def)

lemma dashboard_routes_quiet:
  assumes "(key, h) \<in> set (registerDashboardRoutes W inp rq)"
  shows "quiet st (h c tenant st)"
proof -
  let ?D = "wb_deps W"
  have "quiet st (Login ?D inp rq c tenant st)" "quiet st (Logout rq c tenant st)"
    by (auto simp: Login_def Logout_def quiet_def SetCookie_on_def OkResp_def Let_def split: option.split prod.split)
  moreover have "quiet st (Handler_Dashboard ?D inp c tenant st)" for c tenant
    by (simp add: Handler_Dashboard_def quiet_def OkResp_def Let_def)
  ultimately show ?thesis using assms by (auto simp: registerDashboardRoutes_def intro: guard_quiet)
qed

lemma subscribe_quiet: "quiet st (Handler_Subscribe D inp rq c tenant st)"
  by (auto simp: Handler_Subscribe_def quiet_def ErrResp_def Let_def split: sum.split prod.split)

lemma cors_pass:
  assumes "web_ok W" and "P (h c tenant st)" and "\<And>code. P (Text code [], st)"
  shows "P (wb_cors W rq h c tenant st)"
proof -
  from assms(1) have "wb_cors W rq h c tenant st = h c tenant st \<or> (\<exists>code. wb_cors W rq h c tenant st = (Text code [], st))"
    by (simp add: web_ok_def)
  with assms(2,3) show ?thesis by auto
qed

lemma route_within:
  assumes web: "web_ok W" and ok: "pg_ok (h_pg (sd_hub (dp_sender (wb_deps W))))" and keys: "db_keys_ok (hw_db (as_world st))"
  shows "case credential_tenant (auth_env_of (wb_deps W) inp st) rq of
      None \<Rightarrow> quiet st (find_route W inp rq c None st)
    | Some t \<Rightarrow> t \<noteq> [] \<longrightarrow> within (wb_deps W) t st (find_route W inp rq c None st)"
proof -
  let ?ok = "\<lambda>out. case credential_tenant (auth_env_of (wb_deps W) inp st) rq of
      None \<Rightarrow> quiet st out | Some t \<Rightarrow> t \<noteq> [] \<longrightarrow> within (wb_deps W) t st out"
  have q: "?ok out" if "quiet st out" for out using that by (simp add: quiet_within split: option.split)
  have "?ok (h c None st)" if h: "(key, h) \<in> set (registerRoutes W inp rq)" for key h
  proof -
    have plain: "quiet st (Text code [], st)" for code by simp
    consider (guarded) g where "(key, g) \<in> set (v1_handlers (wb_deps W) inp rq)" "h = wb_cors W rq (auth_guard (wb_deps W) inp rq g)"
      | (subscribe) "h = wb_cors W rq (Handler_Subscribe (wb_deps W) inp rq)"
      using h by (auto simp: registerRoutes_def)
    then show ?thesis
    proof cases
      case guarded
      have "?ok (auth_guard (wb_deps W) inp rq g c None st)"
        using v1_within [OF ok keys _ guarded(1)]
        by (auto simp: guard_cases quiet_def unauthorized_def split: option.split)
      then show ?thesis unfolding guarded(2) by (rule cors_pass [OF web]) (rule q [OF plain])
    next
      case subscribe
      show ?thesis unfolding subscribe
      proof (rule cors_pass [OF web])
        show "?ok (Handler_Subscribe (wb_deps W) inp rq c None st)" by (rule q [OF subscribe_quiet])
      qed (rule q [OF plain])
    qed
  qed
  note v1 = this
  have web_routes: "?ok (h c None st)" if "(key, h) \<in> set (registerDashboardRoutes W inp rq)" for key h
    by (rule q [OF dashboard_routes_quiet [OF that]])
  show ?thesis
  proof (cases "map_of (registerRoutes W inp rq @ registerDashboardRoutes W inp rq) (rq_Method rq, rq_Path rq)")
    case (Some h)
    then have "((rq_Method rq, rq_Path rq), h) \<in> set (registerRoutes W inp rq @ registerDashboardRoutes W inp rq)"
      by (rule map_of_SomeD)
    then have "?ok (h c None st)" unfolding set_append using v1 web_routes by blast
    moreover have "find_route W inp rq = h" using Some by (simp add: find_route_def del: map_of_append)
    ultimately show ?thesis by (simp only:)
  next
    case None
    have "quiet st (wb_no_route W, st)" using web by (auto simp: web_ok_def)
    with None have "quiet st (find_route W inp rq c None st)" by (simp add: find_route_def del: map_of_append)
    then show ?thesis by (rule q)
  qed
qed

definition demo_deps :: "(bytes, local_broker) deps" where
  "demo_deps = \<lparr>dp_config = demo_config\<lparr>rsaPublicKey := Some ''k''\<rparr>, dp_jwt = demo_jwt, dp_sender = demo_sender,
     dp_uuids = demo_uuids, dp_aead = demo_aead, dp_tickets = demo_ticket_json,
     dp_binders = \<lparr>bd_Login = (\<lambda>_. None), bd_SendToUser = (\<lambda>_. None), bd_SendToUsers = (\<lambda>_. None),
       bd_SendToAll = (\<lambda>_. None),
       bd_Page = (\<lambda>_. Some \<lparr>iq_TenantID = ''Other'', iq_UserID = ''7'', iq_PageIndex = 1, iq_PageSize = 10\<rparr>),
       bd_Operate = (\<lambda>_. None), bd_BatchOperate = (\<lambda>_. None), bd_ApplyTicket = (\<lambda>_. None)\<rparr>,
     dp_Marshal = (\<lambda>_. None), dp_start = 0\<rparr>"

definition demo_web :: "(bytes, local_broker) web" where
  "demo_web = \<lparr>wb_deps = demo_deps, wb_cors = (\<lambda>rq h. h), wb_no_route = Text 404 ''404 page not found'',
     wb_distFS = (\<lambda>_. NoFile), wb_TypeByExtension = (\<lambda>_. [])\<rparr>"

definition demo_inputs :: inputs where
  "demo_inputs = \<lparr>in_now = 0, in_fresh = 20, in_freshs = [21, 22], in_random = None, in_session = ''s'', in_trace = ''t'',
     in_conn_id = ''c'', in_conn = 1, in_events = [],
     in_probe = \<lparr>pr_now = 5, pr_GoVersion = ''go'', pr_Goroutines = 1, pr_Sys = 9, pr_DBConn = True, pr_DBPing = True,
       pr_RedisPing = True\<rparr>\<rparr>"

definition demo_app :: "local_broker app_state" where
  "demo_app = \<lparr>as_world = inbox_world, as_sessions = newStore, as_cookies = []\<rparr>"

lemma demo_web_ok: "web_ok demo_web" "wb_deps demo_web = demo_deps" "dp_sender demo_deps = demo_sender"
  by (simp_all add: web_ok_def demo_web_def demo_deps_def)

lemma demo_auth_env: "auth_env_of demo_deps demo_inputs demo_app = demo_env"
  by (simp add: auth_env_of_def demo_deps_def demo_inputs_def demo_app_def demo_env_def)

section \<open>Properties\<close>



definition other_world :: "local_broker world" where
  "other_world = demo_world\<lparr>hw_db := \<lparr>t_record = [(demo_record 1 0 0 5)\<lparr>r_TenantID := ''B''\<rparr>],
     t_status = [demo_status 11 1 ''7'' 0], t_watermark = []\<rparr>\<rparr>"

lemma demo_token_for: "token_for demo_env ''Bearer good'' ''T''"
  using jwt_track_genuine [of demo_env demo_request "''T''"] demo_token demo_jwt_ok
  by (simp add: demo_env_def demo_request_def)

lemma demo_interceptor: "TokenInterceptor demo_env (Some (\<lambda>_. [''Bearer good''])) handler w = handler ''T'' w"
proof -
  have "TrimSpace ''good'' = ''good''" by code_simp
  moreover have "TrimPrefix ''Bearer good'' ''Bearer '' = ''good''" by code_simp
  ultimately show ?thesis
    by (simp add: TokenInterceptor_def demo_env_def HasPrefix_def GetRSAPublicKey_def demo_config_def
        ValidateToken_def demo_jwt_def rs256_only_def validateExpIfPresent_def validateTag_def claim_tenant_def Let_def)
qed

text \<open>
  C40: Over gRPC tenants are not isolated. The interceptor stores the token's tenant and no call reads it: a
  genuine token of one tenant empties the inbox of a user of another tenant, by naming that tenant in
  the request. The same request over HTTP stays within the token's tenant.
\<close>
theorem rpc_crosses_tenants:
  "token_for demo_env ''Bearer good'' ''T'' \<and>
   (\<exists>w'. TokenInterceptor demo_env (Some (\<lambda>_. [''Bearer good'']))
        (\<lambda>tid. Rpc_BatchDeleteNotify demo_deps demo_inputs \<lparr>pbb_UserId = ''7'', pbb_TenantId = ''B'', pbb_Type = 0\<rparr>) other_world =
        (Inr (), w') \<and>
      map s_Status (pair_rows ''7'' 1 (hw_db other_world)) = [NotifyStatusUnread] \<and>
      map s_Status (pair_rows ''7'' 1 (hw_db w')) = [NotifyStatusDeleted] \<and>
      \<not> tenant_frame ''T'' (hw_db other_world) (hw_db w'))"
proof (intro conjI)
  let ?rpc = "Rpc_BatchDeleteNotify demo_deps demo_inputs \<lparr>pbb_UserId = ''7'', pbb_TenantId = ''B'', pbb_Type = 0\<rparr> other_world"
  have "\<exists>w'. UserBatchDelete demo_sender 0 ''7'' ''B'' other_world = (None, w')"
    by (simp add: UserBatchDelete_def demo_sender_def demo_hub_def demo_pg_def set_status_where_def auto_commit_def
        StatusRepo_BatchMarkDeleteUserNotifyByUser_def)
  then obtain w' where u: "UserBatchDelete demo_sender 0 ''7'' ''B'' other_world = (None, w')" by blast
  then have r: "?rpc = (Inr (), w')"
    by (simp add: Rpc_BatchDeleteNotify_def SenderType_TENANT_def pb_empty_def demo_web_ok demo_inputs_def)
  have "hw_db w' = marked 0 ''7'' (\<lambda>r. r_TenantID r = ''B'') NotifyStatusDeleted (hw_db other_world)"
    using user_batch_effect(2) [OF pg_up_ok [OF demo_sender_ok(2)] u] .
  then have rows: "map s_Status (pair_rows ''7'' 1 (hw_db other_world)) = [NotifyStatusUnread]"
    "map s_Status (pair_rows ''7'' 1 (hw_db w')) = [NotifyStatusDeleted]"
    by (simp_all add: marked_def pair_rows_def other_world_def demo_status_def demo_record_def in_records_def code_defs)
  moreover have "in_records (\<lambda>r. r_TenantID r \<noteq> ''T'') (hw_db other_world) 1"
    by (simp add: in_records_def other_world_def demo_record_def)
  ultimately have "\<not> tenant_frame ''T'' (hw_db other_world) (hw_db w')"
    unfolding tenant_frame_def by (metis list.inject NotifyStatusUnread_def NotifyStatusDeleted_def zero_neq_numeral)
  with r rows show "\<exists>w'. TokenInterceptor demo_env (Some (\<lambda>_. [''Bearer good'']))
        (\<lambda>tid. Rpc_BatchDeleteNotify demo_deps demo_inputs \<lparr>pbb_UserId = ''7'', pbb_TenantId = ''B'', pbb_Type = 0\<rparr>) other_world =
        (Inr (), w') \<and>
      map s_Status (pair_rows ''7'' 1 (hw_db other_world)) = [NotifyStatusUnread] \<and>
      map s_Status (pair_rows ''7'' 1 (hw_db w')) = [NotifyStatusDeleted] \<and>
      \<not> tenant_frame ''T'' (hw_db other_world) (hw_db w')"
    by (auto simp: demo_interceptor)
qed (rule demo_token_for)

end
