(* ===== verification/Cleanup.thy ===== *)
theory Cleanup
  imports Sender
begin

text \<open>
  The daily cleanup: src/internal/tasks/notify_cleanup.go. \<open>RunOnce\<close> deletes expired notifications and
  their status rows in batches of 500 until none is left, and after each batch recounts the unread
  counters the deleted notifications contributed to; \<open>StartDaily\<close> runs it every day at three o'clock.

  The two deletes run on the repositories' own connection and not in the transaction around them
  (\<open>delete_expired\<close>): when the second fails, the first stays. The loop is written with fuel; \<open>RunOnce\<close>
  gives it one unit more than there are records, and running out is shown to be impossible.
  \<open>cancelled i\<close> is whether the context is done before batch \<open>i\<close>, \<open>clock i\<close> the clock that names temporary
  keys in batch \<open>i\<close>. Go's maps are association lists and lists without repetition, visited in any
  order. The time zone is a fixed offset; days on which a zone changes its offset are not modelled.
\<close>

definition notifyCleanupHour :: int where "notifyCleanupHour = 3"
definition notifyCleanupBatchSize :: int where "notifyCleanupBatchSize = 500"

section \<open>Recounting\<close>

record snapshot =
  sn_personal :: "(bytes \<times> bytes list) list"
  sn_tenant :: "(bytes \<times> bytes list) list"
  sn_broadcast :: "bytes list"

definition add_new :: "bytes \<Rightarrow> bytes list \<Rightarrow> bytes list" where
  "add_new x xs = (if x \<in> set xs then xs else xs @ [x])"

text \<open>One user of a bucket; the empty id is left out.\<close>
definition add_user :: "bytes \<Rightarrow> bytes list \<Rightarrow> bytes list" where
  "add_user userID xs = (if userID = [] then xs else add_new userID xs)"

definition add_targets :: "bytes \<Rightarrow> bytes list \<Rightarrow> (bytes \<times> bytes list) list \<Rightarrow> (bytes \<times> bytes list) list" where
  "add_targets tenantID targetIDs bucket =
     AList.update tenantID
       (fold add_user targetIDs (case map_of bucket tenantID of None \<Rightarrow> [] | Some us \<Rightarrow> us)) bucket"

definition add_info :: "expired_info \<Rightarrow> snapshot \<Rightarrow> snapshot" where
  "add_info info sn =
     (if e_TargetType info = TargetBroadcast then sn\<lparr>sn_broadcast := add_new (e_TenantID info) (sn_broadcast sn)\<rparr>
      else if e_SenderType info = SenderTypeTenant
      then sn\<lparr>sn_tenant := add_targets (e_TenantID info) (e_TargetIDs info) (sn_tenant sn)\<rparr>
      else sn\<lparr>sn_personal := add_targets (e_TenantID info) (e_TargetIDs info) (sn_personal sn)\<rparr>)"

definition affected :: "expired_info list \<Rightarrow> snapshot" where
  "affected infos = fold add_info infos \<lparr>sn_personal = [], sn_tenant = [], sn_broadcast = []\<rparr>"

text \<open>Errors are logged and the next tenant follows.\<close>
definition recount_users :: "hub \<Rightarrow> int \<Rightarrow> bytes \<times> bytes list \<Rightarrow> 'b world \<Rightarrow> 'b world" where
  "recount_users H senderType tu w =
     (if snd tu = [] then w else snd (on_cache (BatchReconcileUsers H (fst tu) (snd tu) senderType) w))"

definition recount_broadcasts :: "hub \<Rightarrow> int \<Rightarrow> bytes \<Rightarrow> 'b world \<Rightarrow> 'b world" where
  "recount_broadcasts H now tenantID w = snd (on_cache (ReconcileTenantBroadcastTotal H now tenantID) w)"

definition syncUnreadSnapshot :: "hub \<Rightarrow> int \<Rightarrow> expired_info list \<Rightarrow> 'b world \<Rightarrow> 'b world" where
  "syncUnreadSnapshot H now infos w =
     (let sn = affected infos;
          w1 = fold (recount_users H SenderTypeUser) (sn_personal sn) w;
          w2 = fold (recount_users H SenderTypeTenant) (sn_tenant sn) w1
      in fold (recount_broadcasts H now) (sn_broadcast sn) w2)"

section \<open>Deleting\<close>

datatype cleanup_err = CtxDone | CleanupDb sql_err

definition delete_expired :: "pg \<Rightarrow> uuid list \<Rightarrow> db \<Rightarrow> sql_err option \<times> db" where
  "delete_expired P ids d =
     (case StatusRepo_DeleteByNotifyIDs P ids d of
        Inl e \<Rightarrow> (Some e, d)
      | Inr d1 \<Rightarrow>
          (case RecordRepo_DeleteByNotifyIDs P ids d1 of
             Inl e \<Rightarrow> (Some e, d1)
           | Inr d2 \<Rightarrow> (tx_commit P d2, d2)))"

fun RunOnce_loop ::
  "nat \<Rightarrow> hub \<Rightarrow> (nat \<Rightarrow> bool) \<Rightarrow> (nat \<Rightarrow> int) \<Rightarrow> time \<Rightarrow> nat \<Rightarrow> int \<Rightarrow> 'b world
     \<Rightarrow> ((cleanup_err option \<times> int) \<times> 'b world) option" where
  "RunOnce_loop 0 H cancelled clock now i removed w = None"
| "RunOnce_loop (Suc fuel) H cancelled clock now i removed w =
     (if cancelled i then Some ((Some CtxDone, removed), w)
      else
        (case RecordRepo_ListExpiredNotifyInfos (h_pg H) now notifyCleanupBatchSize (hw_db w) of
           Inl e \<Rightarrow> Some ((Some (CleanupDb e), removed), w)
         | Inr infos \<Rightarrow>
             if length infos = 0 then Some ((None, removed), w)
             else
               (case delete_expired (h_pg H) (map e_NotifyID infos) (hw_db w) of
                  (Some e, d) \<Rightarrow> Some ((Some (CleanupDb e), removed), w\<lparr>hw_db := d\<rparr>)
                | (None, d) \<Rightarrow>
                    let w1 = syncUnreadSnapshot H (clock i) infos (w\<lparr>hw_db := d\<rparr>);
                        removed1 = removed + int (length infos) in
                    if int (length infos) < notifyCleanupBatchSize then Some ((None, removed1), w1)
                    else RunOnce_loop fuel H cancelled clock now (Suc i) removed1 w1)))"

definition RunOnce ::
  "hub \<Rightarrow> (nat \<Rightarrow> bool) \<Rightarrow> (nat \<Rightarrow> int) \<Rightarrow> time \<Rightarrow> 'b world \<Rightarrow> ((cleanup_err option \<times> int) \<times> 'b world) option" where
  "RunOnce H cancelled clock now w = RunOnce_loop (Suc (length (t_record (hw_db w)))) H cancelled clock now 0 0 w"

section \<open>Once a day\<close>

definition time_Hour :: int where "time_Hour = 3600 * time_Second"

text \<open>\<open>time.Date\<close> of the day of \<open>now\<close> at a full hour, in a zone \<open>zone\<close> nanoseconds ahead of UTC.\<close>
definition date_hour :: "int \<Rightarrow> time \<Rightarrow> int \<Rightarrow> time" where
  "date_hour zone now hour = (now + zone) div (24 * time_Hour) * (24 * time_Hour) + hour * time_Hour - zone"

definition untilNextRun :: "int \<Rightarrow> time \<Rightarrow> int" where
  "untilNextRun zone now =
     (let next0 = date_hour zone now notifyCleanupHour;
          next1 = (if \<not> now < next0 then next0 + 24 * time_Hour else next0)
      in next1 - now)"

text \<open>The goroutine: each firing of the timer runs a cleanup, whose error is logged; a done context ends it.\<close>
datatype daily = TimerFires time "nat \<Rightarrow> bool" "nat \<Rightarrow> int" | ContextDone

fun StartDaily :: "hub \<Rightarrow> daily list \<Rightarrow> 'b world \<Rightarrow> 'b world option" where
  "StartDaily H [] w = Some w"
| "StartDaily H (ContextDone # es) w = Some w"
| "StartDaily H (TimerFires now cancelled clock # es) w =
     (case RunOnce H cancelled clock now w of None \<Rightarrow> None | Some (_, w') \<Rightarrow> StartDaily H es w')"

section \<open>What a run leaves\<close>

definition expired_ids :: "time \<Rightarrow> db \<Rightarrow> uuid set" where
  "expired_ids now d = r_NotifyID ` {r \<in> set (t_record d). expired_by now r}"

text \<open>The database without the notifications of a set and their status rows.\<close>
definition without :: "uuid set \<Rightarrow> db \<Rightarrow> db" where
  "without X d = d\<lparr>t_record := filter (\<lambda>r. r_NotifyID r \<notin> X) (t_record d),
                  t_status := filter (\<lambda>s. s_NotifyID s \<notin> X) (t_status d)\<rparr>"

lemma without_simps [simp]:
  "without {} d = d" "without X (without Y d) = without (Y \<union> X) d" "t_watermark (without X d) = t_watermark d"
  "set (t_record (without X d)) = {r \<in> set (t_record d). r_NotifyID r \<notin> X}"
  "set (t_status (without X d)) = {s \<in> set (t_status d). s_NotifyID s \<notin> X}"
  by (auto simp: without_def)

text \<open>Recounting touches the cache only.\<close>
lemma on_cache_frame: "\<exists>s. snd (on_cache f w) = w\<lparr>hw_cache := s\<rparr>"
  by (auto simp: on_cache_def split: prod.split)

lemma world_eta: "\<exists>s. w = w\<lparr>hw_cache := s\<rparr>"
  by (rule exI [of _ "hw_cache w"]) simp

lemma recount_one:
  "\<exists>s. recount_users H st tu w = w\<lparr>hw_cache := s\<rparr>" "\<exists>s. recount_broadcasts H now t w = w\<lparr>hw_cache := s\<rparr>"
  using world_eta [of w] on_cache_frame by (auto simp: recount_users_def recount_broadcasts_def)

lemma recount_frame:
  "\<exists>s. fold (recount_users H st) tus w = w\<lparr>hw_cache := s\<rparr>" "\<exists>s. fold (recount_broadcasts H now) ts w = w\<lparr>hw_cache := s\<rparr>"
proof -
  show "\<exists>s. fold (recount_users H st) tus w = w\<lparr>hw_cache := s\<rparr>"
  proof (induction tus arbitrary: w)
    case (Cons tu tus)
    obtain s where "recount_users H st tu w = w\<lparr>hw_cache := s\<rparr>" using recount_one by blast
    with Cons [of "w\<lparr>hw_cache := s\<rparr>"] show ?case by simp
  qed (simp add: world_eta)
  show "\<exists>s. fold (recount_broadcasts H now) ts w = w\<lparr>hw_cache := s\<rparr>"
  proof (induction ts arbitrary: w)
    case (Cons t ts)
    obtain s where "recount_broadcasts H now t w = w\<lparr>hw_cache := s\<rparr>" using recount_one by blast
    with Cons [of "w\<lparr>hw_cache := s\<rparr>"] show ?case by simp
  qed (simp add: world_eta)
qed

lemma sync_frame: "\<exists>s. syncUnreadSnapshot H now infos w = w\<lparr>hw_cache := s\<rparr>"
proof -
  obtain s1 where 1: "fold (recount_users H SenderTypeUser) (sn_personal (affected infos)) w = w\<lparr>hw_cache := s1\<rparr>"
    using recount_frame(1) by blast
  obtain s2 where 2: "fold (recount_users H SenderTypeTenant) (sn_tenant (affected infos)) (w\<lparr>hw_cache := s1\<rparr>) = w\<lparr>hw_cache := s2\<rparr>"
    using recount_frame(1) [of H SenderTypeTenant _ "w\<lparr>hw_cache := s1\<rparr>"] by auto
  show ?thesis
    using recount_frame(2) [of H now "sn_broadcast (affected infos)" "w\<lparr>hw_cache := s2\<rparr>"]
    by (simp add: syncUnreadSnapshot_def Let_def 1 2)
qed

lemma sync_simps [simp]:
  "hw_db (syncUnreadSnapshot H now infos w) = hw_db w" "hw_broker (syncUnreadSnapshot H now infos w) = hw_broker w"
  "hw_pool (syncUnreadSnapshot H now infos w) = hw_pool w" "hw_jobs (syncUnreadSnapshot H now infos w) = hw_jobs w"
proof -
  obtain s where "syncUnreadSnapshot H now infos w = w\<lparr>hw_cache := s\<rparr>" using sync_frame by blast
  then show "hw_db (syncUnreadSnapshot H now infos w) = hw_db w" "hw_broker (syncUnreadSnapshot H now infos w) = hw_broker w"
    "hw_pool (syncUnreadSnapshot H now infos w) = hw_pool w" "hw_jobs (syncUnreadSnapshot H now infos w) = hw_jobs w"
    by simp_all
qed

lemma delete_ids_exact:
  assumes "pg_ok P"
  shows "StatusRepo_DeleteByNotifyIDs P ids d = Inr d' \<Longrightarrow>
      d' = d\<lparr>t_status := filter (\<lambda>s. s_NotifyID s \<notin> set ids) (t_status d)\<rparr>"
    "RecordRepo_DeleteByNotifyIDs P ids d = Inr d' \<Longrightarrow>
      d' = d\<lparr>t_record := filter (\<lambda>r. r_NotifyID r \<notin> set ids) (t_record d)\<rparr>"
  using write_ok(5,6) [OF assms]
  by (auto simp: StatusRepo_DeleteByNotifyIDs_def RecordRepo_DeleteByNotifyIDs_def split: if_splits)

text \<open>A batch deletes everything, or on an error at most its notifications' rows.\<close>
lemma delete_expired_exact:
  assumes "pg_ok P" and "delete_expired P ids d = (e, d')"
  shows "(e = None \<longrightarrow> d' = without (set ids) d) \<and> without (set ids) d' = without (set ids) d \<and>
     set (t_record d') \<subseteq> set (t_record d)"
proof -
  from assms(2) consider "d' = d" "e \<noteq> None"
    | d1 where "StatusRepo_DeleteByNotifyIDs P ids d = Inr d1" "d' = d1" "e \<noteq> None"
    | d1 where "StatusRepo_DeleteByNotifyIDs P ids d = Inr d1" "RecordRepo_DeleteByNotifyIDs P ids d1 = Inr d'"
    by (auto simp: delete_expired_def split: sum.splits)
  then show ?thesis
    by cases (auto simp: without_def dest!: delete_ids_exact [OF assms(1)])
qed

lemma expired_batch:
  assumes "pg_ok P" and "RecordRepo_ListExpiredNotifyInfos P now notifyCleanupBatchSize d = Inr infos"
  shows "set (map e_NotifyID infos) \<subseteq> expired_ids now d"
    and "length infos = min 500 (length (filter (expired_by now) (t_record d)))"
    and "distinct (map r_NotifyID (t_record d)) \<Longrightarrow> distinct (map e_NotifyID infos)"
proof -
  let ?key = "\<lambda>r. case r_ExpireAt r of None \<Rightarrow> 0 | Some t \<Rightarrow> t"
  from assms(2) obtain rs where rs: "sel_record P (expired_by now) ?key 0 (Some 500) d = Inr rs"
    and infos: "infos = map expired_info_of rs"
    by (auto simp: RecordRepo_ListExpiredNotifyInfos_def notifyCleanupBatchSize_def map_sum_def split: sum.splits)
  from sel_ok(1) [OF assms(1) rs] obtain xs where
    xs: "mset xs = mset (filter (expired_by now) (t_record d))" "rs = take 500 xs"
    by (auto simp: selected_def slice_def)
  have ids: "map e_NotifyID infos = map r_NotifyID rs" by (simp add: infos expired_info_of_def)
  have set_xs: "set xs = {r \<in> set (t_record d). expired_by now r}"
    using mset_eq_setD [OF xs(1)] by simp
  show "set (map e_NotifyID infos) \<subseteq> expired_ids now d"
    unfolding ids xs(2) expired_ids_def set_xs [symmetric] by (auto dest: in_set_takeD)
  show "length infos = min 500 (length (filter (expired_by now) (t_record d)))"
    using mset_eq_length [OF xs(1)] by (simp add: infos xs(2) min.commute)
  assume d: "distinct (map r_NotifyID (t_record d))"
  then have "distinct (map r_NotifyID (filter (expired_by now) (t_record d)))" by (rule distinct_map_filter)
  moreover have "mset (map r_NotifyID xs) = mset (map r_NotifyID (filter (expired_by now) (t_record d)))"
    using xs(1) by simp
  ultimately have "distinct (map r_NotifyID xs)" using mset_eq_imp_distinct_iff by blast
  then have "distinct (take 500 (map r_NotifyID xs))" by (rule distinct_take)
  then show "distinct (map e_NotifyID infos)" unfolding ids xs(2) by (simp add: take_map)
qed

text \<open>A batch that is not the last one leaves fewer records.\<close>
lemma without_shorter:
  assumes "X \<subseteq> r_NotifyID ` set (t_record d)" and "X \<noteq> {}"
  shows "length (t_record (without X d)) < length (t_record d)"
proof -
  obtain r where "r \<in> set (t_record d)" "r_NotifyID r \<in> X" using assms by blast
  then show ?thesis by (auto simp: without_def intro!: length_filter_less)
qed

definition expired_in :: "time \<Rightarrow> db \<Rightarrow> notify_record list" where
  "expired_in now d = filter (expired_by now) (t_record d)"

lemma expired_without:
  assumes "X \<subseteq> expired_ids now d" and "distinct (map r_NotifyID (t_record d))"
  shows "length (expired_in now (without X d)) + card X = length (expired_in now d)"
    and "expired_ids now (without X d) \<union> X = expired_ids now d"
proof -
  let ?xs = "expired_in now d"
  have d: "distinct (map r_NotifyID ?xs)" using assms(2) by (simp add: expired_in_def distinct_map_filter)
  have X: "X \<subseteq> r_NotifyID ` set ?xs" using assms(1) by (simp add: expired_ids_def expired_in_def)
  have "card X = length (filter (\<lambda>r. r_NotifyID r \<in> X) ?xs)"
  proof -
    have "set (map r_NotifyID (filter (\<lambda>r. r_NotifyID r \<in> X) ?xs)) = X" using X by auto
    with distinct_card [OF distinct_map_filter [OF d, of "\<lambda>r. r_NotifyID r \<in> X"]] show ?thesis by simp
  qed
  moreover have "expired_in now (without X d) = filter (\<lambda>r. r_NotifyID r \<notin> X) ?xs"
    by (simp add: expired_in_def without_def conj_commute)
  ultimately show "length (expired_in now (without X d)) + card X = length ?xs"
    using sum_length_filter_compl [of "\<lambda>r. r_NotifyID r \<in> X" ?xs] by simp
  show "expired_ids now (without X d) \<union> X = expired_ids now d"
    using assms(1) by (auto simp: expired_ids_def)
qed

lemma expired_shrinks:
  assumes "set ids \<subseteq> expired_ids now d" and "ids \<noteq> []"
  shows "length (expired_in now (without (set ids) d)) < length (expired_in now d)"
proof -
  obtain i where "i \<in> set ids" using assms(2) by (cases ids) auto
  with assms(1) obtain r where r: "r \<in> set (expired_in now d)" "r_NotifyID r \<in> set ids"
    by (auto simp: expired_ids_def expired_in_def)
  have "expired_in now (without (set ids) d) = filter (\<lambda>r. r_NotifyID r \<notin> set ids) (expired_in now d)"
    by (simp add: expired_in_def without_def conj_commute)
  with r show ?thesis by (auto intro!: length_filter_less)
qed

text \<open>Enough fuel: one more than there are expired notifications.\<close>
lemma loop_terminates:
  assumes "pg_ok (h_pg H)"
  shows "length (expired_in now (hw_db w)) < fuel \<Longrightarrow> RunOnce_loop fuel H cancelled clock now i removed w \<noteq> None"
proof (induction fuel arbitrary: i removed w)
  case (Suc fuel)
  show ?case
  proof (cases "RecordRepo_ListExpiredNotifyInfos (h_pg H) now notifyCleanupBatchSize (hw_db w)")
    case (Inr infos)
    show ?thesis
    proof (cases "delete_expired (h_pg H) (map e_NotifyID infos) (hw_db w)")
      case (Pair e d)
      show ?thesis
      proof (cases "e = None \<and> infos \<noteq> []")
        case True
        with delete_expired_exact [OF assms Pair] have "d = without (set (map e_NotifyID infos)) (hw_db w)" by simp
        with expired_shrinks [OF expired_batch(1) [OF assms Inr]] True Suc.prems
        have "length (expired_in now d) < fuel" by simp
        with Suc.IH show ?thesis by (auto simp: Inr Pair Let_def split: option.splits)
      qed (auto simp: Inr Pair split: option.splits)
    qed
  qed simp
qed simp

text \<open>Whatever fails, nothing but expired notifications and their status rows is ever deleted.\<close>
lemma loop_safe:
  assumes "pg_ok (h_pg H)"
  shows "RunOnce_loop fuel H cancelled clock now i removed w = Some (r, w') \<Longrightarrow> expired_ids now (hw_db w) \<subseteq> X \<Longrightarrow>
     without X (hw_db w') = without X (hw_db w) \<and> set (t_record (hw_db w')) \<subseteq> set (t_record (hw_db w)) \<and>
     hw_broker w' = hw_broker w \<and> hw_pool w' = hw_pool w \<and> hw_jobs w' = hw_jobs w"
proof (induction fuel arbitrary: i removed w)
  case (Suc fuel)
  show ?case
  proof (cases "RecordRepo_ListExpiredNotifyInfos (h_pg H) now notifyCleanupBatchSize (hw_db w)")
    case (Inr infos)
    show ?thesis
    proof (cases "delete_expired (h_pg H) (map e_NotifyID infos) (hw_db w)")
      case (Pair e d)
      let ?ids = "set (map e_NotifyID infos)"
      note del = delete_expired_exact [OF assms Pair]
      have ids: "?ids \<subseteq> X" using expired_batch(1) [OF assms Inr] Suc.prems(2) by blast
      then have "?ids \<union> X = X" by blast
      then have "without X d = without X (without ?ids d)" "without X (hw_db w) = without X (without ?ids (hw_db w))"
        unfolding without_simps by simp_all
      with del have keep: "without X d = without X (hw_db w)" "set (t_record d) \<subseteq> set (t_record (hw_db w))" by simp_all
      then have sub: "expired_ids now d \<subseteq> X" using Suc.prems(2) by (auto simp: expired_ids_def)
      note IH = Suc.IH [of "Suc i" "removed + int (length infos)" "syncUnreadSnapshot H (clock i) infos (w\<lparr>hw_db := d\<rparr>)"]
      from Suc.prems(1) keep sub IH show ?thesis
        by (auto simp: Inr Pair Let_def split: if_splits option.splits)
    qed
  qed (use Suc.prems in \<open>auto split: if_splits\<close>)
qed simp

text \<open>With the database answering and nobody cancelling, the run deletes exactly the expired.\<close>

lemma delete_expired_up:
  assumes "pg_up P"
  shows "delete_expired P ids d = (None, without (set ids) d)"
proof -
  have "\<exists>d1. StatusRepo_DeleteByNotifyIDs P ids d = Inr d1"
    using pg_up_total(6) [OF assms] by (auto simp: StatusRepo_DeleteByNotifyIDs_def)
  then obtain d1 where 1: "StatusRepo_DeleteByNotifyIDs P ids d = Inr d1" by blast
  have "\<exists>d2. RecordRepo_DeleteByNotifyIDs P ids d1 = Inr d2"
    using pg_up_total(5) [OF assms] by (auto simp: RecordRepo_DeleteByNotifyIDs_def)
  then obtain d2 where 2: "RecordRepo_DeleteByNotifyIDs P ids d1 = Inr d2" by blast
  have del: "delete_expired P ids d = (None, d2)" using assms by (simp add: delete_expired_def 1 2 pg_up_def)
  with delete_expired_exact [OF pg_up_ok [OF assms] del] show ?thesis by simp
qed

lemma expired_ids_Nil: "expired_in now d = [] \<Longrightarrow> expired_ids now d = {}"
  by (auto simp: expired_ids_def expired_in_def filter_empty_conv)

text \<open>One round that finds something.\<close>
lemma loop_round:
  assumes "pg_up (h_pg H)" and "\<not> cancelled i" and "infos \<noteq> []"
    and "RecordRepo_ListExpiredNotifyInfos (h_pg H) now notifyCleanupBatchSize (hw_db w) = Inr infos"
    and "w1 = syncUnreadSnapshot H (clock i) infos (w\<lparr>hw_db := without (set (map e_NotifyID infos)) (hw_db w)\<rparr>)"
  shows "RunOnce_loop (Suc fuel) H cancelled clock now i removed w =
      (if length infos < 500 then Some ((None, removed + int (length infos)), w1)
       else RunOnce_loop fuel H cancelled clock now (Suc i) (removed + int (length infos)) w1)"
proof -
  have "int (length infos) < notifyCleanupBatchSize \<longleftrightarrow> length infos < 500" by (simp add: notifyCleanupBatchSize_def)
  with assms show ?thesis by (simp add: delete_expired_up Let_def)
qed

lemma loop_exact:
  assumes up: "pg_up (h_pg H)" and run: "\<forall>i. \<not> cancelled i"
  shows "distinct (map r_NotifyID (t_record (hw_db w))) \<Longrightarrow> length (expired_in now (hw_db w)) div 500 < fuel \<Longrightarrow>
     \<exists>w'. RunOnce_loop fuel H cancelled clock now i removed w = Some ((None, removed + int (length (expired_in now (hw_db w)))), w') \<and>
       hw_db w' = without (expired_ids now (hw_db w)) (hw_db w)"
proof (induction fuel arbitrary: i removed w)
  case (Suc fuel)
  let ?d = "hw_db w" and ?n = "length (expired_in now (hw_db w))"
  obtain infos where l: "RecordRepo_ListExpiredNotifyInfos (h_pg H) now notifyCleanupBatchSize ?d = Inr infos"
    using pg_up_select(1) [OF up, of "expired_by now" _ 0 "Some notifyCleanupBatchSize" ?d]
    unfolding RecordRepo_ListExpiredNotifyInfos_def by (metis map_sum.simps(2))
  note b = expired_batch [OF pg_up_ok [OF up] l]
  have len: "length infos = min 500 ?n" using b(2) by (simp add: expired_in_def)
  show ?case
  proof (cases "infos = []")
    case True
    with len have "?n = 0" by (simp add: min_def split: if_splits)
    with True l run show ?thesis by (simp add: expired_ids_Nil)
  next
    case False
    let ?ids = "map e_NotifyID infos" and ?d1 = "without (set (map e_NotifyID infos)) (hw_db w)"
    have "card (set ?ids) = length infos" using distinct_card [OF b(3) [OF Suc.prems(1)]] by simp
    with expired_without [OF b(1) Suc.prems(1)]
    have n: "length (expired_in now ?d1) + length infos = ?n" and X: "expired_ids now ?d1 \<union> set ?ids = expired_ids now ?d" by simp_all
    let ?w1 = "syncUnreadSnapshot H (clock i) infos (w\<lparr>hw_db := ?d1\<rparr>)"
    have step: "RunOnce_loop (Suc fuel) H cancelled clock now i removed w =
        (if length infos < 500 then Some ((None, removed + int (length infos)), ?w1)
         else RunOnce_loop fuel H cancelled clock now (Suc i) (removed + int (length infos)) ?w1)"
      by (rule loop_round [OF up _ False l refl]) (simp add: run)
    show ?thesis
    proof (cases "length infos < 500")
      case True
      with len n have all: "length infos = ?n" "expired_in now ?d1 = []" by auto
      with X have "set ?ids = expired_ids now ?d" by (simp add: expired_ids_Nil)
      with True all show ?thesis unfolding step by simp
    next
      case False
      with len have 500: "length infos = 500" by simp
      have dist: "distinct (map r_NotifyID (t_record ?d1))" using Suc.prems(1) by (simp add: without_def distinct_map_filter)
      have "length (expired_in now ?d1) div 500 < fuel" using n 500 Suc.prems(2) by simp
      with Suc.IH [of ?w1 "Suc i" "removed + int (length infos)"] dist obtain w' where
        "RunOnce_loop fuel H cancelled clock now (Suc i) (removed + int (length infos)) ?w1 =
          Some ((None, removed + int (length infos) + int (length (expired_in now ?d1))), w')"
        "hw_db w' = without (expired_ids now ?d1) ?d1" by auto
      moreover have "without (expired_ids now ?d1) ?d1 = without (expired_ids now ?d) ?d"
        using X by (simp add: Un_commute)
      moreover have "int (length infos) + int (length (expired_in now ?d1)) = int ?n" using n by simp
      ultimately show ?thesis unfolding step using False by (auto simp: add.assoc)
    qed
  qed
qed simp

section \<open>Properties\<close>

text \<open>
  C35: The cleanup ends and deletes exactly what has expired. \<open>RunOnce\<close> never runs out of the fuel of the
  model: it returns, with or without an error, for every behaviour of the database and every moment of
  cancellation, and whatever it deleted belonged to expired notifications, every other record and
  status row and all watermarks being kept. When the database answers and nobody cancels, it reports
  success, removes exactly the expired notifications with all their status rows, and returns their
  number.
\<close>
theorem cleanup_total_and_exact:
  assumes "pg_ok (h_pg H)"
  shows "\<exists>e n w'. RunOnce H cancelled clock now w = Some ((e, n), w') \<and>
     without (expired_ids now (hw_db w)) (hw_db w') = without (expired_ids now (hw_db w)) (hw_db w) \<and>
     (pg_up (h_pg H) \<and> db_keys_ok (hw_db w) \<and> (\<forall>i. \<not> cancelled i) \<longrightarrow>
        e = None \<and> n = int (length (expired_in now (hw_db w))) \<and>
        hw_db w' = without (expired_ids now (hw_db w)) (hw_db w))"
proof -
  let ?fuel = "Suc (length (t_record (hw_db w)))"
  have len: "length (expired_in now (hw_db w)) < ?fuel" by (simp add: expired_in_def le_imp_less_Suc)
  from loop_terminates [OF assms this, of cancelled clock 0 0] obtain res where
    "RunOnce_loop ?fuel H cancelled clock now 0 0 w = Some res" by blast
  then obtain e n w' where r: "RunOnce_loop ?fuel H cancelled clock now 0 0 w = Some ((e, n), w')"
    by (cases res) auto
  have "length (expired_in now (hw_db w)) div 500 < ?fuel" using len by (meson div_le_dividend order.strict_trans1)
  with loop_exact [of H cancelled w now ?fuel clock 0 0] r loop_safe [OF assms r order.refl] show ?thesis
    by (auto simp: RunOnce_def db_keys_ok_def)
qed

definition old_record :: notify_record where
  "old_record = \<lparr>r_NotifyID = 9, r_Title = ''t'', r_Content = ''c'', r_TargetType = 0, r_SenderType = 0, r_SenderID = ''s'',
     r_EventType = ''e'', r_TenantID = ''T'', r_TargetIDs = [''7''], r_ExpireAt = Some 5, r_CreatedAt = 1\<rparr>"

theorem cleanup_total_and_exact_witness:
  "\<exists>w'. RunOnce demo_hub (\<lambda>_. False) (\<lambda>_. 0) 9 (demo_world\<lparr>hw_db := empty_db\<lparr>t_record := [old_record]\<rparr>\<rparr>) = Some ((None, 1), w') \<and>
     t_record (hw_db w') = []"
proof -
  let ?w = "demo_world\<lparr>hw_db := empty_db\<lparr>t_record := [old_record]\<rparr>\<rparr>"
  have o: "expired_by 9 old_record" "r_NotifyID old_record = 9" by (simp_all add: old_record_def expired_by_def)
  have "{r \<in> set (t_record (hw_db ?w)). expired_by 9 r} = {old_record}" using o(1) by auto
  then have e: "expired_in 9 (hw_db ?w) = [old_record]" "expired_ids 9 (hw_db ?w) = {9}"
    by (simp_all add: expired_in_def expired_ids_def o)
  have k: "db_keys_ok (hw_db ?w)" by (simp add: db_keys_ok_def empty_db_def)
  from cleanup_total_and_exact [OF pg_up_ok [OF demo_up(1)], of "\<lambda>_. False" "\<lambda>_. 0" 9 ?w] e k demo_up(1)
  show ?thesis by (auto simp: without_def empty_db_def o)
qed

text \<open>
  C36: The next run. The delay before the next cleanup is positive and at most a day; when it has passed it
  is three o'clock local time, and it was not three o'clock in between.
\<close>
theorem next_run_bounds:
  shows "0 < untilNextRun zone now \<and> untilNextRun zone now \<le> 24 * time_Hour \<and>
     (now + untilNextRun zone now + zone) mod (24 * time_Hour) = 3 * time_Hour \<and>
     (\<forall>t. now < t \<and> t < now + untilNextRun zone now \<longrightarrow> (t + zone) mod (24 * time_Hour) \<noteq> 3 * time_Hour)"
proof -
  define day where "day = 24 * time_Hour"
  define q where "q = (now + zone) div day"
  have day: "day > 0" "3 * time_Hour < day" "0 < time_Hour" "day = 24 * time_Hour" by (simp_all add: day_def time_Hour_def time_Second_def)
  have now: "q * day \<le> now + zone" "now + zone < q * day + day"
    using pos_mod_bound [OF day(1), of "now + zone"] pos_mod_sign [OF day(1), of "now + zone"] div_mult_mod_eq [of "now + zone" day]
    unfolding q_def by linarith+
  obtain k where k: "now + untilNextRun zone now + zone = k * day + 3 * time_Hour"
    and b: "now + zone < k * day + 3 * time_Hour" "k * day + 3 * time_Hour \<le> now + zone + day"
  proof (cases "now < date_hour zone now 3")
    case True
    then have "now + untilNextRun zone now + zone = q * day + 3 * time_Hour"
      by (simp add: untilNextRun_def date_hour_def notifyCleanupHour_def Let_def q_def day_def)
    moreover have "now + zone < q * day + 3 * time_Hour" using True by (simp add: date_hour_def q_def day_def)
    ultimately show ?thesis using that [of q] now day by linarith
  next
    case False
    then have "now + untilNextRun zone now + zone = (q + 1) * day + 3 * time_Hour"
      by (simp add: untilNextRun_def date_hour_def notifyCleanupHour_def Let_def q_def day_def distrib_right)
    moreover have "q * day + 3 * time_Hour \<le> now + zone" using False by (simp add: date_hour_def q_def day_def)
    ultimately show ?thesis using that [of "q + 1"] now day by (simp add: distrib_right)
  qed
  have at3: "(k * day + 3 * time_Hour) mod day = 3 * time_Hour" using day by simp
  have "(t + zone) mod day \<noteq> 3 * time_Hour" if t: "now < t" "t < now + untilNextRun zone now" for t
  proof
    assume "(t + zone) mod day = 3 * time_Hour"
    then have e: "t + zone = (t + zone) div day * day + 3 * time_Hour" by (metis div_mult_mod_eq)
    define j where "j = (t + zone) div day"
    have "j * day < k * day" "k * day < j * day + day" using e t k b unfolding j_def [symmetric] by linarith+
    then have "j * day < k * day" "k * day < (j + 1) * day" by (simp_all add: distrib_right)
    then have "j < k" "k < j + 1" using day(1) by (simp_all only: mult_less_cancel_right_pos)
    then show False by simp
  qed
  with k b at3 show ?thesis unfolding day_def [symmetric] by (auto simp: algebra_simps)
qed

theorem next_run_bounds_witness:
  "untilNextRun 0 0 \<le> 24 * time_Hour \<and> (1 :: int) mod (24 * time_Hour) \<noteq> 3 * time_Hour"
proof -
  have "untilNextRun 0 0 = 3 * time_Hour"
    by (simp add: untilNextRun_def date_hour_def notifyCleanupHour_def time_Hour_def time_Second_def)
  with next_run_bounds [of 0 0] show ?thesis by (auto simp: time_Hour_def time_Second_def dest: spec [of _ 1])
qed

end
