(* ===== verification/Well_Typed.thy ===== *)
theory Well_Typed
  imports Isolation Cleanup
begin

text \<open>
  Well-typedness of what the services store. A record is addressed the way its target type says and has
  one of the enumerated types (src/internal/model/record.go); a status row has an enumerated status, belongs
  to a stored record and, for a direct one, to one of its addressees. No column constraint says so; it is
  the services that keep it. \<open>db_typed\<close> adds the keys of the three tables, \<open>job_typed\<close> says it of the
  records that goroutines carry, \<open>pool_typed\<close> of the connection registry and its channels.

  Shown: sends, status operations and every batch of the cleanup keep \<open>db_typed\<close>, also those that fail
  half-way, and the goroutines, the dispatcher and the subscriptions keep \<open>pool_typed\<close>.
\<close>

definition direct :: "notify_record \<Rightarrow> bool" where
  "direct r = (r_TargetType r = TargetSingle \<or> r_TargetType r = TargetMultiple)"

definition record_typed :: "notify_record \<Rightarrow> bool" where
  "record_typed r =
     (r_TenantID r \<noteq> [] \<and> r_SenderType r \<in> {SenderTypeUser, SenderTypeTenant} \<and>
      (r_TargetType r = TargetSingle \<and> (\<exists>u. u \<noteq> [] \<and> r_TargetIDs r = [u]) \<or>
       r_TargetType r = TargetMultiple \<and> r_TargetIDs r \<noteq> [] \<or>
       r_TargetType r = TargetBroadcast \<and> r_TargetIDs r = []))"

definition row_typed :: "notify_record list \<Rightarrow> notify_status \<Rightarrow> bool" where
  "row_typed rs s =
     (s_Status s \<in> {NotifyStatusUnread, NotifyStatusRead, NotifyStatusDeleted} \<and>
      (\<exists>r \<in> set rs. r_NotifyID r = s_NotifyID s \<and> (direct r \<longrightarrow> s_TargetUserID s \<in> set (r_TargetIDs r))))"

definition db_typed :: "db \<Rightarrow> bool" where
  "db_typed d =
     (db_keys_ok d \<and> (\<forall>r \<in> set (t_record d). record_typed r) \<and>
      (\<forall>s \<in> set (t_status d). row_typed (t_record d) s))"

fun job_typed :: "job \<Rightarrow> bool" where
  "job_typed (JobSendNotify r) = record_typed r"
| "job_typed (JobBatchOp u t c) = (c = NotifyCategoryUser \<or> c = NotifyCategoryTenant)"
| "job_typed (JobOnceOp r u) = (record_typed r \<and> (direct r \<longrightarrow> u \<in> set (r_TargetIDs r)))"

definition pool_typed :: "hub_pool \<Rightarrow> bool" where
  "pool_typed p = (pool_inv p \<and> chans_bounded p)"

definition world_typed :: "'b world \<Rightarrow> bool" where
  "world_typed w =
     (db_typed (hw_db w) \<and> (\<forall>j \<in> set (hw_jobs w). job_typed j) \<and> pool_typed (hw_pool w))"

lemma row_typed_mono: "row_typed rs s \<Longrightarrow> set rs \<subseteq> set rs' \<Longrightarrow> row_typed rs' s"
  by (auto simp: row_typed_def)

section \<open>Sending\<close>

definition sendable :: "send_prop \<Rightarrow> bool" where
  "sendable prop = (p_TargetType prop \<in> {TargetSingle, TargetMultiple, TargetBroadcast})"

lemma stored_record_typed:
  assumes "validateSendProp prop = None" and "sendable prop"
  shows "record_typed (stored_record now fresh prop)"
  using assms
  by (auto simp: validateSendProp_def validateSenderType_def sendable_def record_typed_def stored_record_def prop_record_def
      code_defs go_int8_id length_Suc_conv split: if_splits)

lemma stored_rows:
  assumes "s \<in> set (stored_statuses now fresh freshs prop)"
  shows "s_NotifyID s = fresh" "s_Status s = NotifyStatusUnread" "s_TargetUserID s \<in> set (p_TargetIDs prop)"
    "p_TargetType prop = TargetSingle \<or> p_TargetType prop = TargetMultiple"
  using assms by (auto simp: stored_statuses_def dest: set_zip_rightD split: if_splits)

lemma stored_rows_typed:
  assumes "s \<in> set (stored_statuses now fresh freshs prop)"
  shows "row_typed (rs @ [stored_record now fresh prop]) s"
  using stored_rows [OF assms]
  by (auto simp: row_typed_def stored_record_def prop_record_def code_defs intro!: bexI [of _ "stored_record now fresh prop"])

lemma store_keys:
  assumes ok: "pg_ok P" and keys: "db_keys_ok d" and e: "store_prop P now fresh freshs prop d = Inr (r, d')"
  shows "db_keys_ok d'"
proof -
  from e obtain d1 where c: "RecordRepo_Create P now fresh (prop_record prop) d = Inr (r, d1)"
    by (auto simp: store_prop_def Let_def split: sum.splits if_splits)
  have "r_NotifyID r \<notin> r_NotifyID ` set (t_record d)"
    using store_prop_fresh [OF ok e] store_prop_exact [OF ok e] by (simp add: stored_record_def)
  with keys RecordRepo_Create_exact [OF ok c] have d1: "db_keys_ok d1" by (simp add: db_keys_ok_def)
  from e c consider "d' = d1" | ss where "ins_status P ss d1 = Inr d'"
    by (auto simp: store_prop_def StatusRepo_CreateBulk_def Let_def split: sum.splits if_splits)
  then show ?thesis
  proof cases
    case 2
    from write_ok(2) [OF ok 2] d1 show ?thesis by (simp add: db_keys_ok_def status_fits_def Int_commute)
  qed (use d1 in simp)
qed

lemma transmit_cases:
  assumes "transmit S cfg now fresh freshs prop w = (out, w')"
  shows "w' = w \<or> (\<exists>r d. validateSendProp prop = None \<and>
      store_prop (h_pg (sd_hub S)) now fresh freshs prop (hw_db w) = Inr (r, d) \<and>
      w' = w\<lparr>hw_db := d, hw_jobs := hw_jobs w @ [JobSendNotify r]\<rparr>)"
  using assms
  by (auto simp: transmit_def Transaction_def SendNotify_def Let_def split: option.splits sum.splits prod.splits)

lemma transmit_typed:
  assumes ok: "pg_ok (h_pg (sd_hub S))" and e: "transmit S cfg now fresh freshs prop w = (out, w')"
    and s: "sendable prop" and t: "world_typed w"
  shows "world_typed w'"
proof (cases "w' = w")
  case True
  with t show ?thesis by simp
next
  case False
  with transmit_cases [OF e] obtain r d where stored: "validateSendProp prop = None"
    "store_prop (h_pg (sd_hub S)) now fresh freshs prop (hw_db w) = Inr (r, d)"
    "w' = w\<lparr>hw_db := d, hw_jobs := hw_jobs w @ [JobSendNotify r]\<rparr>" by blast
  have r: "r = stored_record now fresh prop" and d: "d = (hw_db w)\<lparr>t_record := t_record (hw_db w) @ [r],
      t_status := t_status (hw_db w) @ stored_statuses now fresh freshs prop\<rparr>"
    using store_prop_exact [OF ok stored(2)] by simp_all
  have rt: "record_typed r" using stored_record_typed [OF stored(1) s] by (simp add: r)
  have "db_keys_ok d" using t store_keys [OF ok _ stored(2)] by (simp add: world_typed_def db_typed_def)
  moreover have "row_typed (t_record d) x" if "x \<in> set (t_status d)" for x
    using that t stored_rows_typed [of x now fresh freshs "prop" "t_record (hw_db w)"]
    by (auto simp: world_typed_def db_typed_def d r intro: row_typed_mono)
  ultimately have "db_typed d" using t rt by (auto simp: world_typed_def db_typed_def d)
  with rt show ?thesis using t by (simp add: world_typed_def stored(3))
qed

section \<open>Status operations\<close>

lemma upsert_rows:
  assumes ok: "pg_ok P" and keys: "db_keys_ok d"
    and up: "StatusRepo_UpsertByUserAndNotify P now fresh u n st d = Inr (s, d')" and s': "s' \<in> set (t_status d')"
  shows "s' \<in> set (t_status d) \<or> s_NotifyID s' = n \<and> s_TargetUserID s' = u \<and> s_Status s' = st"
proof (cases rule: FindByUserAndNotify_cases [OF ok, of u n d, case_names fails missing found])
  case (fails e)
  with up show ?thesis by (simp add: StatusRepo_UpsertByUserAndNotify_def)
next
  case missing
  with up have "ins_status P [stamp_status now fresh (new_status n u st)] d = Inr d'"
    by (auto simp: StatusRepo_UpsertByUserAndNotify_def StatusRepo_Create_def Let_def split: sum.splits)
  from write_ok(2) [OF ok this] s' show ?thesis by auto
next
  case (found s0)
  then have s0: "s0 \<in> set (t_status d)" "s_TargetUserID s0 = u" "s_NotifyID s0 = n"
    by (auto simp: pair_rows_def)
  from up found(1) have "StatusRepo_Update P now (s0\<lparr>s_Status := st\<rparr>) d = Inr (s, d')"
    by (simp add: StatusRepo_UpsertByUserAndNotify_def)
  from StatusRepo_Update_exact [OF ok keys s0(1) this] s0 s' show ?thesis by auto
qed

lemma exec_typed:
  assumes ok: "pg_ok (h_pg (sd_hub S))" and t: "world_typed w" and st: "st \<in> {NotifyStatusRead, NotifyStatusDeleted}"
    and e: "execStatusUpdate S U now fresh n u tenant st w = (out, w')"
  shows "world_typed w'"
proof (cases out)
  case (Some err)
  with e t show ?thesis by (auto simp: execStatusUpdate_def split: sum.splits)
next
  case None
  with exec_ok [OF ok] e obtain r s where r: "validateNotifyAccess S U n u tenant (hw_db w) = Inr r"
    and up: "StatusRepo_UpsertByUserAndNotify (h_pg (sd_hub S)) now fresh u (r_NotifyID r) st (hw_db w) = Inr (s, hw_db w')"
    and w': "w' = w\<lparr>hw_db := hw_db w', hw_jobs := hw_jobs w @ [JobOnceOp r u]\<rparr>" by blast
  from t have keys: "db_keys_ok (hw_db w)" by (simp add: world_typed_def db_typed_def)
  note eff = upsert_exact [OF ok keys up]
  from validate_access_exact [OF ok r] have acc: "r \<in> set (t_record (hw_db w))" "direct r \<Longrightarrow> u \<in> set (r_TargetIDs r)"
    by (auto simp: direct_def)
  have "row_typed (t_record (hw_db w')) x" if "x \<in> set (t_status (hw_db w'))" for x
    using upsert_rows [OF ok keys up that] t acc st eff by (auto simp: world_typed_def db_typed_def row_typed_def)
  with t eff have d: "db_typed (hw_db w')" by (auto simp: world_typed_def db_typed_def)
  have "record_typed r" using acc t by (simp add: world_typed_def db_typed_def)
  then have "world_typed (w\<lparr>hw_db := hw_db w', hw_jobs := hw_jobs w @ [JobOnceOp r u]\<rparr>)"
    using d t acc by (simp add: world_typed_def)
  then show ?thesis using w' by simp
qed

lemma marked_typed:
  assumes t: "db_typed d" and st: "st \<in> {NotifyStatusRead, NotifyStatusDeleted}"
  shows "db_typed (marked now u wh st d)"
proof -
  have "map s_StatusNotifyID (t_status (marked now u wh st d)) = map s_StatusNotifyID (t_status d)"
    by (simp add: marked_def)
  moreover have "row_typed (t_record d) x" if "x \<in> set (t_status (marked now u wh st d))" for x
  proof -
    from that obtain s where "s \<in> set (t_status d)" "x = s \<or> x = s\<lparr>s_Status := st, s_UpdateTime := now\<rparr>"
      by (auto simp: marked_def split: if_splits)
    with t st show ?thesis by (auto simp: db_typed_def row_typed_def)
  qed
  moreover have "t_record (marked now u wh st d) = t_record d" "t_watermark (marked now u wh st d) = t_watermark d"
    by (simp_all add: marked_def)
  ultimately show ?thesis using t by (simp add: db_typed_def db_keys_ok_def)
qed

lemma upserted_keys:
  assumes "\<And>w'. same_owner w w' \<Longrightarrow> same_owner w' (f w')" and "distinct (map (\<lambda>w. (w_TenantID w, w_UserID w)) ws)"
  shows "distinct (map (\<lambda>w. (w_TenantID w, w_UserID w)) (upserted w f ws))"
proof (cases "\<exists>w' \<in> set ws. same_owner w w'")
  case True
  have "map (\<lambda>w. (w_TenantID w, w_UserID w)) (upserted w f ws) = map (\<lambda>w. (w_TenantID w, w_UserID w)) ws"
    using True assms(1) by (auto simp: upserted_def same_owner_def)
  with assms(2) show ?thesis by simp
next
  case False
  with assms(2) show ?thesis by (auto simp: upserted_def same_owner_def)
qed

lemma watermark_typed:
  assumes ok: "pg_ok P" and t: "db_typed d"
    and up: "WatermarkRepo_UpsertTenantReadAt P tenant u at d = Inr d' \<or> WatermarkRepo_UpsertTenantClearAt P tenant u at d = Inr d'"
  shows "db_typed d'"
  using up t upserted_keys
  by (auto dest!: write_ok(3) [OF ok] simp: WatermarkRepo_UpsertTenantReadAt_def WatermarkRepo_UpsertTenantClearAt_def
      db_typed_def db_keys_ok_def same_owner_def)

text \<open>A batch operation leaves the world, or writes the database and starts its goroutine.\<close>
lemma batch_shape:
  "(out, w') \<in> {UserBatchMarkRead S now u tenant w, UserBatchDelete S now u tenant w,
      TenantBatchMarkRead S now u tenant w, TenantBatchDelete S now u tenant w} \<Longrightarrow> out = None \<Longrightarrow>
   \<exists>c. w' = w\<lparr>hw_db := hw_db w', hw_jobs := hw_jobs w @ [JobBatchOp u tenant c]\<rparr> \<and>
     (c = NotifyCategoryUser \<or> c = NotifyCategoryTenant)"
  by (auto simp: UserBatchMarkRead_def UserBatchDelete_def TenantBatchMarkRead_def TenantBatchDelete_def
      asyncUpdateBatchOpCacheAndSend_def Let_def split: sum.splits prod.splits)

lemma batch_db_typed:
  assumes ok: "pg_ok (h_pg (sd_hub S))" and d: "db_typed (hw_db w)"
  shows "UserBatchMarkRead S now u tenant w = (None, w') \<Longrightarrow> db_typed (hw_db w')"
    "UserBatchDelete S now u tenant w = (None, w') \<Longrightarrow> db_typed (hw_db w')"
    "TenantBatchMarkRead S now u tenant w = (None, w') \<Longrightarrow> db_typed (hw_db w')"
    "TenantBatchDelete S now u tenant w = (None, w') \<Longrightarrow> db_typed (hw_db w')"
  using d
  by (auto dest!: user_batch_effect [OF ok] tenant_batch_effect [OF ok] intro!: marked_typed
      dest: watermark_typed [OF ok d, OF disjI1] watermark_typed [OF ok d, OF disjI2])

lemma batch_typed:
  assumes ok: "pg_ok (h_pg (sd_hub S))" and t: "world_typed w"
    and e: "(out, w') \<in> {UserBatchMarkRead S now u tenant w, UserBatchDelete S now u tenant w,
      TenantBatchMarkRead S now u tenant w, TenantBatchDelete S now u tenant w}"
  shows "world_typed w'"
proof (cases out)
  case (Some err)
  with e batch_fails_unchanged [of S now u tenant w err w'] t show ?thesis
    unfolding insert_iff empty_iff by metis
next
  case None
  from batch_shape [OF e None] obtain c where w': "w' = w\<lparr>hw_db := hw_db w', hw_jobs := hw_jobs w @ [JobBatchOp u tenant c]\<rparr>"
    "c = NotifyCategoryUser \<or> c = NotifyCategoryTenant" by blast
  have d0: "db_typed (hw_db w)" using t by (simp add: world_typed_def)
  have "db_typed (hw_db w')"
    using e batch_db_typed [OF ok d0, of now u tenant w'] unfolding None insert_iff empty_iff by metis
  then have "world_typed (w\<lparr>hw_db := hw_db w', hw_jobs := hw_jobs w @ [JobBatchOp u tenant c]\<rparr>)"
    using t w'(2) by (auto simp: world_typed_def)
  then show ?thesis using w'(1) by simp
qed

section \<open>Cleaning up\<close>

lemma without_typed: "db_typed d \<Longrightarrow> db_typed (without X d)"
  by (auto simp: db_typed_def db_keys_ok_def row_typed_def without_def distinct_map_filter) (metis (no_types, lifting))

text \<open>The status rows go first, so that no row is ever left without its record.\<close>
lemma delete_expired_typed:
  assumes ok: "pg_ok P" and t: "db_typed d" and e: "delete_expired P ids d = (out, d')"
  shows "db_typed d'"
proof -
  from e consider "d' = d" | "StatusRepo_DeleteByNotifyIDs P ids d = Inr d'"
    | d1 where "StatusRepo_DeleteByNotifyIDs P ids d = Inr d1" "RecordRepo_DeleteByNotifyIDs P ids d1 = Inr d'"
    by (auto simp: delete_expired_def split: sum.splits)
  then show ?thesis
  proof cases
    case 2
    from delete_ids_exact(1) [OF ok 2] t show ?thesis
      by (auto simp: db_typed_def db_keys_ok_def distinct_map_filter)
  next
    case 3
    then have "d' = without (set ids) d" by (auto simp: without_def dest!: delete_ids_exact [OF ok])
    with without_typed [OF t] show ?thesis by simp
  qed (use t in simp)
qed

lemma cleanup_typed:
  assumes ok: "pg_ok (h_pg H)"
  shows "RunOnce_loop fuel H cancelled clock now i removed w = Some (r, w') \<Longrightarrow> world_typed w \<Longrightarrow> world_typed w'"
proof (induction fuel arbitrary: i removed w)
  case (Suc fuel)
  show ?case
  proof (cases "RecordRepo_ListExpiredNotifyInfos (h_pg H) now notifyCleanupBatchSize (hw_db w)")
    case (Inr infos)
    show ?thesis
    proof (cases "delete_expired (h_pg H) (map e_NotifyID infos) (hw_db w)")
      case (Pair e d)
      have "db_typed d" using delete_expired_typed [OF ok _ Pair] Suc.prems(2) by (simp add: world_typed_def)
      then have w1: "world_typed (w\<lparr>hw_db := d\<rparr>)" using Suc.prems(2) by (simp add: world_typed_def)
      then have "world_typed (syncUnreadSnapshot H (clock i) infos (w\<lparr>hw_db := d\<rparr>))" by (simp add: world_typed_def)
      with Suc.prems w1 Suc.IH [of "Suc i" "removed + int (length infos)"] show ?thesis
        by (auto simp: Inr Pair Let_def split: if_splits option.splits)
    qed
  qed (use Suc.prems in \<open>auto split: if_splits\<close>)
qed simp

section \<open>Goroutines\<close>

text \<open>What a goroutine may change: the cache and the broker.\<close>
definition same_core :: "'b world \<Rightarrow> 'b world \<Rightarrow> bool" where
  "same_core w w' = (hw_db w' = hw_db w \<and> hw_pool w' = hw_pool w \<and> hw_jobs w' = hw_jobs w)"

lemma core_refl [simp]: "same_core w w"
  by (simp add: same_core_def)

lemma core_trans: "same_core a b \<Longrightarrow> same_core b c \<Longrightarrow> same_core a c"
  by (simp add: same_core_def)

lemma core_fold: "(\<And>x w. same_core w (f x w)) \<Longrightarrow> same_core w (fold f xs w)"
proof (induction xs arbitrary: w)
  case (Cons x xs)
  from Cons.IH [OF Cons.prems, of "f x w"] Cons.prems [of w x] show ?case by (auto intro: core_trans)
qed simp

lemma core_typed: "same_core w w' \<Longrightarrow> world_typed w \<Longrightarrow> world_typed w'"
  by (simp add: same_core_def world_typed_def)

lemma core_cache: "on_cache f w = (r, w') \<Longrightarrow> same_core w w'"
  by (auto simp: on_cache_def same_core_def split: prod.splits)

lemma core_cache_snd: "same_core w (snd (on_cache f w))"
  by (rule core_cache) (rule prod.collapse [symmetric])

lemma core_send [simp]: "same_core w (Sender_send S t tt us m w)"
  by (auto simp: Sender_send_def same_core_def split: option.split)

lemma core_unread [simp]: "same_core w (SendTenantUnread S t u n w)" "same_core w (SendPersonalUnread S t u n w)"
  by (simp_all add: SendTenantUnread_def SendPersonalUnread_def)

lemma core_push: "same_core w (push_tenant_unread S t u w)" "same_core w (push_personal_unread S t u w)"
  by (auto simp: push_tenant_unread_def push_personal_unread_def dest: core_cache intro: core_trans [OF _ core_unread(1)]
      core_trans [OF _ core_unread(2)] split: prod.split sum.split)

lemma core_bodies: "same_core w (SendNotify_body S now r w)" "same_core w (BatchOp_body S u t c w)" "same_core w (OnceOp_body S r u w)"
proof -
  have "same_core w (sendUnread S r w)" for w
    by (auto simp: sendUnread_def intro!: core_fold core_push)
  then show "same_core w (SendNotify_body S now r w)"
    by (auto simp: SendNotify_body_def Let_def intro: core_trans [OF _ core_send] core_trans [OF core_cache_snd])
  show "same_core w (BatchOp_body S u t c w)"
    by (auto simp: BatchOp_body_def split: prod.split sum.split
        dest!: core_cache intro: core_trans core_trans [OF _ core_unread(1)] core_trans [OF _ core_unread(2)])
  show "same_core w (OnceOp_body S r u w)"
    by (auto simp: OnceOp_body_def Let_def split: prod.split sum.split
        dest!: core_cache intro: core_trans core_trans [OF _ core_unread(1)] core_trans [OF _ core_unread(2)])
qed

lemma job_step_typed:
  assumes t: "world_typed w"
  shows "world_typed (run_job S now j w)"
proof -
  let ?w = "w\<lparr>hw_jobs := remove1 j (hw_jobs w)\<rparr>"
  have "same_core ?w (run_job S now j w)" using core_bodies by (cases j) (simp_all add: run_job_def Let_def)
  moreover have "world_typed ?w" using t by (auto simp: world_typed_def dest: notin_set_remove1)
  ultimately show ?thesis by (rule core_typed)
qed

section \<open>The registry and its channels\<close>

lemma write_bounded: "chans_bounded (snd st) \<Longrightarrow> chans_bounded (snd (write_conn C data r st))"
  by (cases st) (auto simp: write_conn_def chans_bounded_def HubSSEConnection_Write_def split: go_any.split option.split)

lemma process_typed: "pool_typed (snd st) \<Longrightarrow> pool_typed (snd (Dispatcher_process C msg st))"
proof -
  assume t: "pool_typed (snd st)"
  have "chans_bounded (snd (fold (write_conn C data) rs st))" if "chans_bounded (snd st)" for rs data st
    using that by (induction rs arbitrary: st) (simp_all add: write_bounded)
  with t fold_write_pool [of C "m_Payload msg" "recipients (snd st) msg" st] show ?thesis
    by (auto simp: pool_typed_def process_is_fold)
qed

lemma join_typed: "pool_typed p \<Longrightarrow> pool_typed (Dispatcher_Join t u c r p)"
  by (auto simp: pool_typed_def chans_bounded_def Dispatcher_Join_def conns_Register pool_inv_Register split: option.split)

lemma leave_typed: "pool_typed p \<Longrightarrow> pool_typed (Dispatcher_Leave t u c ex p)"
  by (auto simp: pool_typed_def chans_bounded_def Dispatcher_Leave_def conns_Unregister pool_inv_Unregister split: option.split)

lemma register_typed: "pool_typed p \<Longrightarrow> pool_typed (Hub_Register t u c r p)"
  unfolding Hub_Register_def by (rule join_typed) (auto simp: pool_typed_def chans_bounded_def new_hub_conn_def)

lemma return_typed: "pool_typed (su_pool st) \<Longrightarrow> pool_typed (su_pool (sub_return param r st))"
  by (simp add: sub_return_def Hub_Unregister_def leave_typed)

lemma receive_typed:
  "pool_typed p \<Longrightarrow> MessageChan (conns p r) = m # rest \<Longrightarrow>
   pool_typed (p\<lparr>conns := (conns p)(r := (conns p r)\<lparr>MessageChan := rest\<rparr>)\<rparr>)"
  by (auto simp: pool_typed_def chans_bounded_def) (metis Suc_leD length_Cons)

lemma sub_step_typed: "pool_typed (su_pool st) \<Longrightarrow> pool_typed (su_pool (sub_step C M param r e st))"
proof (cases e)
  case (EvReceive ok)
  assume "pool_typed (su_pool st)"
  with EvReceive show ?thesis
    by (auto simp: Let_def WriteEvent_def return_typed receive_typed split: list.split option.split)
next
  case (EvEnv op)
  assume "pool_typed (su_pool st)"
  then show ?thesis by (cases op) (simp_all add: EvEnv process_typed register_typed leave_typed)
qed (simp_all add: WriteEvent_def return_typed)

lemma subscribe_typed: "pool_typed p \<Longrightarrow> pool_typed (su_pool (Subscribe C M param r es p))"
proof -
  have "pool_typed (su_pool (sub_loop C M param r es st))" if "pool_typed (su_pool st)" for st
    using that by (induction es arbitrary: st) (simp_all add: sub_step_typed)
  moreover assume "pool_typed p"
  ultimately show ?thesis by (simp add: Subscribe_def register_typed)
qed

end
