(* ===== verification/Hub_System.thy ===== *)
theory Hub_System
  imports Well_Typed
begin

text \<open>
  The running hub as a transition system: every step the server can take between its start and its end, one
  HTTP request, one gRPC call, one goroutine, one message through the dispatch loop, one cleanup run, one
  sweep of the session store. Steps are atomic; what interleaves with an open event stream is in its events.

  Shown: every reachable state is well-typed, and nothing a reachable database holds ever expires.
\<close>

datatype rpc_call =
    CallSendToUser pb_send_to_user | CallSendToUsers pb_send_to_users | CallSendToAll pb_send_to_all
  | CallMarkRead pb_operate | CallDeleteNotify pb_operate | CallApplyTicket apply_ticket_req
  | CallBatchMarkRead pb_batch_operate | CallBatchDeleteNotify pb_batch_operate
  | CallPersonalInbox pb_inbox_req | CallTenantInbox pb_inbox_req | CallStats bytes bytes | CallConnect

text \<open>What a call does to the world, once the interceptor has admitted it.\<close>
fun rpc_effect :: "('k, 'b) deps \<Rightarrow> (time \<Rightarrow> bytes) \<Rightarrow> inputs \<Rightarrow> rpc_call \<Rightarrow> 'b world \<Rightarrow> 'b world" where
  "rpc_effect D f inp (CallSendToUser q) w = snd (Rpc_SendToUser D f inp q w)"
| "rpc_effect D f inp (CallSendToUsers q) w = snd (Rpc_SendToUsers D f inp q w)"
| "rpc_effect D f inp (CallSendToAll q) w = snd (Rpc_SendToAll D f inp q w)"
| "rpc_effect D f inp (CallMarkRead q) w = snd (Rpc_MarkRead D inp q w)"
| "rpc_effect D f inp (CallDeleteNotify q) w = snd (Rpc_DeleteNotify D inp q w)"
| "rpc_effect D f inp (CallApplyTicket q) w = snd (Rpc_ApplyTicket D f inp q w)"
| "rpc_effect D f inp (CallBatchMarkRead q) w = snd (Rpc_BatchMarkRead D inp q w)"
| "rpc_effect D f inp (CallBatchDeleteNotify q) w = snd (Rpc_BatchDeleteNotify D inp q w)"
| "rpc_effect D f inp (CallPersonalInbox q) w = snd (Rpc_GetPersonalInbox D f q w)"
| "rpc_effect D f inp (CallTenantInbox q) w = snd (Rpc_GetTenantInbox D f q w)"
| "rpc_effect D f inp (CallStats t u) w = snd (Rpc_GetUserNotifyStats D t u w)"
| "rpc_effect D f inp CallConnect w = snd (Rpc_Connect w)"

definition rpc_serve ::
  "('k, 'b) deps \<Rightarrow> 'k auth_env \<Rightarrow> (bytes \<Rightarrow> bytes list) option \<Rightarrow> (time \<Rightarrow> bytes) \<Rightarrow> inputs \<Rightarrow> rpc_call \<Rightarrow> 'b world \<Rightarrow> 'b world" where
  "rpc_serve D E md f inp call w = snd (TokenInterceptor E md (\<lambda>tid w. (Inr (), rpc_effect D f inp call w)) w)"

inductive hub_step ::
  "('k, 'b) web \<Rightarrow> ('b \<Rightarrow> (message \<times> 'b) option) \<Rightarrow> 'b app_state \<Rightarrow> 'b app_state \<Rightarrow> bool" for W recv where
  Http: "hub_step W recv st (snd (serve W inp rq st))"
| Rpc: "hub_step W recv st (st\<lparr>as_world := rpc_serve (wb_deps W) E md f inp call (as_world st)\<rparr>)"
| Goroutine: "j \<in> set (hw_jobs (as_world st)) \<Longrightarrow>
    hub_step W recv st (st\<lparr>as_world := run_job (dp_sender (wb_deps W)) now j (as_world st)\<rparr>)"
| Dispatch: "recv (hw_broker (as_world st)) = Some (msg, b) \<Longrightarrow>
    hub_step W recv st (st\<lparr>as_world := (as_world st)\<lparr>hw_broker := b,
      hw_pool := snd (Dispatcher_process (sd_codec (dp_sender (wb_deps W))) msg (False, hw_pool (as_world st)))\<rparr>\<rparr>)"
| Arrival: "hub_step W recv st (st\<lparr>as_world := (as_world st)\<lparr>hw_broker := b\<rparr>\<rparr>)"
| Clean: "RunOnce (sd_hub (dp_sender (wb_deps W))) cancelled clock now (as_world st) = Some (r, w) \<Longrightarrow>
    hub_step W recv st (st\<lparr>as_world := w\<rparr>)"
| Sweep: "hub_step W recv st (st\<lparr>as_sessions := sweep now (as_sessions st)\<rparr>)"

section \<open>What every step keeps\<close>

definition lasting :: "db \<Rightarrow> bool" where
  "lasting d = (\<forall>r \<in> set (t_record d). r_ExpireAt r = None)"

definition keeps :: "'b world \<Rightarrow> 'b world \<Rightarrow> bool" where
  "keeps w w' = ((world_typed w \<longrightarrow> world_typed w') \<and> (world_typed w \<and> lasting (hw_db w) \<longrightarrow> lasting (hw_db w')))"

lemma keeps_refl [simp]: "keeps w w"
  by (simp add: keeps_def)

lemma keeps_cache [simp]: "keeps w (w\<lparr>hw_cache := s\<rparr>)"
  by (simp add: keeps_def world_typed_def)

lemma keeps_core: "same_core w w' \<Longrightarrow> keeps w w'"
  by (auto simp: keeps_def same_core_def core_typed)

lemma transmit_keeps:
  assumes ok: "pg_ok (h_pg (sd_hub S))" and s: "sendable prop"
  shows "keeps w (snd (transmit S cfg now fresh freshs prop w))"
proof -
  obtain out w' where e: "transmit S cfg now fresh freshs prop w = (out, w')" by fastforce
  have "lasting (hw_db w')" if "lasting (hw_db w)"
    using transmit_cases [OF e] that store_prop_exact [OF ok, of now fresh freshs "prop" "hw_db w"]
    by (fastforce simp: lasting_def stored_record_def prop_record_def)
  with transmit_typed [OF ok e s] show ?thesis by (simp add: e keeps_def)
qed

lemma exec_keeps:
  assumes ok: "pg_ok (h_pg (sd_hub S))" and st: "st \<in> {NotifyStatusRead, NotifyStatusDeleted}"
  shows "keeps w (snd (execStatusUpdate S U now fresh n u t st w))"
proof -
  obtain out w' where e: "execStatusUpdate S U now fresh n u t st w = (out, w')" by fastforce
  have "t_record (hw_db w') = t_record (hw_db w)" if "world_typed w"
    using that exec_untouched [OF ok _ e] by (simp add: world_typed_def db_typed_def untouched_def)
  with exec_typed [OF ok _ st e] show ?thesis by (auto simp: e keeps_def lasting_def)
qed

lemma batch_keeps:
  assumes ok: "pg_ok (h_pg (sd_hub S))"
  shows "keeps w (snd (UserBatchMarkRead S now u t w))" "keeps w (snd (UserBatchDelete S now u t w))"
    "keeps w (snd (TenantBatchMarkRead S now u t w))" "keeps w (snd (TenantBatchDelete S now u t w))"
proof -
  have "keeps w (snd out)" if "out \<in> {UserBatchMarkRead S now u t w, UserBatchDelete S now u t w,
      TenantBatchMarkRead S now u t w, TenantBatchDelete S now u t w}" for out
  proof -
    obtain e w' where out: "out = (e, w')" by fastforce
    have "t_record (hw_db w') = t_record (hw_db w)"
      using that batch_untouched [OF ok, of now u t w e w'] by (auto simp: out untouched_def)
    with batch_typed [OF ok _ that [unfolded out]] show ?thesis by (auto simp: out keeps_def lasting_def)
  qed
  then show "keeps w (snd (UserBatchMarkRead S now u t w))" "keeps w (snd (UserBatchDelete S now u t w))"
    "keeps w (snd (TenantBatchMarkRead S now u t w))" "keeps w (snd (TenantBatchDelete S now u t w))" by blast+
qed

lemma cleanup_keeps:
  assumes ok: "pg_ok (h_pg H)" and e: "RunOnce H cancelled clock now w = Some (r, w')"
  shows "keeps w w'"
  using cleanup_typed [OF ok e [unfolded RunOnce_def]] loop_safe [OF ok e [unfolded RunOnce_def] order_refl]
  by (auto simp: keeps_def lasting_def)

lemma subscribe_keeps: "keeps w (w\<lparr>hw_cache := s, hw_pool := su_pool (Subscribe C M param r es (hw_pool w))\<rparr>)"
  by (simp add: keeps_def world_typed_def subscribe_typed)

section \<open>Requests\<close>

lemma sendable_simps [simp]:
  "sendable (p\<lparr>p_TargetType := TargetSingle\<rparr>)" "sendable (p\<lparr>p_TargetType := TargetMultiple\<rparr>)"
  "sendable (p\<lparr>p_TargetType := TargetBroadcast\<rparr>)"
  by (simp_all add: sendable_def)

lemma send_keeps:
  assumes "pg_ok (h_pg (sd_hub S))"
  shows "keeps w (snd (SendToUser S cfg now fresh freshs p w))" "keeps w (snd (SendToUsers S cfg now fresh freshs p w))"
    "keeps w (snd (SendToAll S cfg now fresh freshs p w))"
  by (simp_all add: SendToUser_def SendToUsers_def SendToAll_def transmit_keeps [OF assms])

lemma single_keeps:
  assumes "pg_ok (h_pg (sd_hub S))"
  shows "keeps w (snd (MarkRead S U now fresh n u t w))" "keeps w (snd (DeleteNotify S U now fresh n u t w))"
  by (simp_all add: MarkRead_def DeleteNotify_def exec_keeps [OF assms])

lemma response_world [simp]:
  "as_world (snd (send_response c msg st out)) = snd out" "as_world (snd (status_response c msg st out')) = snd out'"
  "as_world (snd (page_response c st res)) = as_world st"
  by (auto simp: send_response_def status_response_def page_response_def split: prod.split sum.split option.split)

lemma v1_keeps:
  assumes ok: "pg_ok (h_pg (sd_hub (dp_sender D)))" and h: "(key, h) \<in> set (v1_handlers D inp rq)"
  shows "keeps (as_world st) (as_world (snd (h c tenant st)))"
proof -
  note ops = send_keeps [OF ok] single_keeps [OF ok] batch_keeps [OF ok]
  have "keeps (as_world st) (as_world (snd (Handler_SendToUser D inp rq c tenant st)))"
    "keeps (as_world st) (as_world (snd (Handler_SendToUsers D inp rq c tenant st)))"
    "keeps (as_world st) (as_world (snd (Handler_Broadcast D inp rq c tenant st)))"
    by (simp_all add: Handler_SendToUser_def Handler_SendToUsers_def Handler_Broadcast_def ops split: option.split)
  moreover have "keeps (as_world st) (as_world (snd (Handler_GetPersonalPage D rq c tenant st)))"
    "keeps (as_world st) (as_world (snd (Handler_GetTenantPage D rq c tenant st)))"
    by (simp_all add: Handler_GetPersonalPage_def Handler_GetTenantPage_def split: option.split)
  moreover have "keeps (as_world st) (as_world (snd (Handler_MarkRead D inp rq c tenant st)))"
    "keeps (as_world st) (as_world (snd (Handler_DeleteNotify D inp rq c tenant st)))"
    "keeps (as_world st) (as_world (snd (Handler_BatchMarkRead D inp rq c tenant st)))"
    "keeps (as_world st) (as_world (snd (Handler_BatchDeleteNotify D inp rq c tenant st)))"
    by (simp_all add: Handler_MarkRead_def Handler_DeleteNotify_def Handler_BatchMarkRead_def Handler_BatchDeleteNotify_def
        ops Let_def split: option.split)
  moreover have "keeps (as_world st) (as_world (snd (Handler_ApplyTicket D inp rq c tenant st)))"
    by (simp add: Handler_ApplyTicket_def Let_def split: option.split prod.split sum.split)
  ultimately show ?thesis using h by (auto simp: v1_handlers_def)
qed

lemma subscribe_handler_keeps: "keeps (as_world st) (as_world (snd (Handler_Subscribe D inp rq c tenant st)))"
  by (simp add: Handler_Subscribe_def Let_def subscribe_keeps split: sum.split prod.split)

lemma static_world [simp]: "as_world (snd (serveDashboardStatic W uri c tenant st)) = as_world st"
  by (simp add: serveDashboardStatic_def Let_def split: static_file.split)

lemma guard_world: "(\<And>c tenant. as_world (snd (h c tenant st)) = as_world st) \<Longrightarrow>
    as_world (snd (sessionGuard D inp rq h c tenant st)) = as_world st"
  by (simp add: sessionGuard_def SessionMiddleware_def Let_def)

lemma dashboard_world:
  assumes "(key, h) \<in> set (registerDashboardRoutes W inp rq)"
  shows "as_world (snd (h c tenant st)) = as_world st"
proof -
  let ?D = "wb_deps W"
  have "as_world (snd (Login ?D inp rq c tenant st)) = as_world st" "as_world (snd (Logout rq c tenant st)) = as_world st"
    by (simp_all add: Login_def Logout_def SetCookie_on_def Let_def split: option.split prod.split)
  moreover have "as_world (snd (Handler_Dashboard ?D inp c tenant st)) = as_world st" for c tenant
    by (simp add: Handler_Dashboard_def Let_def)
  ultimately show ?thesis using assms by (auto simp: registerDashboardRoutes_def guard_world)
qed

lemma api_keeps:
  assumes web: "web_ok W" and ok: "pg_ok (h_pg (sd_hub (dp_sender (wb_deps W))))" and h: "(key, h) \<in> set (registerRoutes W inp rq)"
  shows "keeps (as_world st) (as_world (snd (h c tenant st)))"
proof -
  consider (guarded) g where "(key, g) \<in> set (v1_handlers (wb_deps W) inp rq)" "h = wb_cors W rq (auth_guard (wb_deps W) inp rq g)"
    | (subscribe) "h = wb_cors W rq (Handler_Subscribe (wb_deps W) inp rq)"
    using h by (auto simp: registerRoutes_def)
  then show ?thesis
  proof cases
    case guarded
    have "keeps (as_world st) (as_world (snd (auth_guard (wb_deps W) inp rq g c tenant st)))"
      by (simp add: guard_cases v1_keeps [OF ok guarded(1)] split: option.split)
    then show ?thesis
      unfolding guarded(2) by (rule cors_pass [OF web, where P = "\<lambda>out. keeps (as_world st) (as_world (snd out))"]) simp
  next
    case subscribe
    show ?thesis unfolding subscribe
      by (rule cors_pass [OF web, where P = "\<lambda>out. keeps (as_world st) (as_world (snd out))"]) (simp_all add: subscribe_handler_keeps)
  qed
qed

lemma serve_keeps:
  assumes web: "web_ok W" and ok: "pg_ok (h_pg (sd_hub (dp_sender (wb_deps W))))"
  shows "keeps (as_world st) (as_world (snd (serve W inp rq st)))"
proof -
  let ?st = "st\<lparr>as_cookies := []\<rparr>"
  obtain c where s: "serve W inp rq st = find_route W inp rq c None ?st"
    by (simp add: serve_def TraceMiddleware_def Let_def)
  have "keeps (as_world ?st) (as_world (snd (find_route W inp rq c None ?st)))"
  proof (cases "map_of (registerRoutes W inp rq @ registerDashboardRoutes W inp rq) (rq_Method rq, rq_Path rq)")
    case (Some h)
    then have "((rq_Method rq, rq_Path rq), h) \<in> set (registerRoutes W inp rq @ registerDashboardRoutes W inp rq)"
      by (rule map_of_SomeD)
    then have "keeps (as_world ?st) (as_world (snd (h c None ?st)))"
      unfolding set_append by (elim UnE) (simp_all only: api_keeps [OF web ok] dashboard_world keeps_refl)
    moreover have "find_route W inp rq = h" using Some by (simp add: find_route_def del: map_of_append)
    ultimately show ?thesis by (simp only:)
  next
    case None
    then show ?thesis by (simp add: find_route_def del: map_of_append)
  qed
  then show ?thesis by (simp add: s)
qed

lemma pb_world [simp]: "snd (pb_send_result f out) = snd out" "snd (pb_empty out') = snd out'"
  by (auto simp: pb_send_result_def pb_empty_def split: prod.split sum.split option.split)

lemma rpc_keeps:
  assumes ok: "pg_ok (h_pg (sd_hub (dp_sender D)))"
  shows "keeps w (rpc_serve D E md f inp call w)"
proof -
  note ops = send_keeps [OF ok] single_keeps [OF ok] batch_keeps [OF ok]
  have "keeps w (rpc_effect D f inp call w)" for w
    by (cases call)
      (simp_all add: ops Rpc_SendToUser_def Rpc_SendToUsers_def Rpc_SendToAll_def Rpc_MarkRead_def Rpc_DeleteNotify_def
        Rpc_BatchMarkRead_def Rpc_BatchDeleteNotify_def Rpc_ApplyTicket_def Rpc_GetPersonalInbox_def Rpc_GetTenantInbox_def
        Rpc_GetUserNotifyStats_def Rpc_Connect_def split: prod.split sum.split)
  then show ?thesis
    by (simp add: rpc_serve_def TokenInterceptor_def split: option.split list.split sum.split)
qed

lemma goroutine_keeps: "keeps w (run_job S now j w)"
proof -
  let ?w = "w\<lparr>hw_jobs := remove1 j (hw_jobs w)\<rparr>"
  have "same_core ?w (run_job S now j w)" using core_bodies by (cases j) (simp_all add: run_job_def Let_def)
  then have "hw_db (run_job S now j w) = hw_db w" by (simp add: same_core_def)
  then show ?thesis by (simp add: keeps_def job_step_typed)
qed

lemma step_keeps:
  assumes "web_ok W" and ok: "pg_ok (h_pg (sd_hub (dp_sender (wb_deps W))))" and "hub_step W recv st st'"
  shows "keeps (as_world st) (as_world st')"
  using assms(3)
proof cases
  case (Http inp rq)
  then show ?thesis using serve_keeps [OF assms(1,2)] by simp
next
  case (Rpc E md f inp call)
  then show ?thesis using rpc_keeps [OF ok] by simp
next
  case (Clean cancelled clock now r w)
  then show ?thesis using cleanup_keeps [OF ok] by simp
next
  case (Goroutine j now)
  then show ?thesis by (simp add: goroutine_keeps)
qed (simp_all add: keeps_def world_typed_def process_typed)

text \<open>A server over a framework and a database that do as documented.\<close>
definition founded :: "('k, 'b) web \<Rightarrow> bool" where
  "founded W = (web_ok W \<and> pg_ok (h_pg (sd_hub (dp_sender (wb_deps W)))))"

interpretation typed_hub: preserved "hub_step W recv" "\<lambda>st. founded W \<and> world_typed (as_world st)" for W recv
  by unfold_locales (auto simp: founded_def keeps_def dest: step_keeps)

interpretation lasting_hub: preserved "hub_step W recv"
    "\<lambda>st. founded W \<and> world_typed (as_world st) \<and> lasting (hw_db (as_world st))" for W recv
  by unfold_locales (auto simp: founded_def keeps_def dest: step_keeps)

section \<open>Properties\<close>

text \<open>
  C5: Reachable states are well-typed. Whatever requests, calls, goroutines, messages and cleanup runs the
  server executes, in any order and with any of them failing: every stored record is addressed as its
  target type says, every status row has one of the three statuses and belongs to a stored record and, for
  a direct one, to one of its addressees; keys stay unique; goroutines carry such records only; the
  registry has no empty group and no channel exceeds its capacity.
\<close>
theorem reachable_states_typed:
  assumes "web_ok W" and "pg_ok (h_pg (sd_hub (dp_sender (wb_deps W))))" and "world_typed (as_world st)"
    and "(hub_step W recv)\<^sup>*\<^sup>* st st'"
  shows "world_typed (as_world st')"
  using typed_hub.reachable_inv [OF assms(4)] assms(1-3) by (simp add: founded_def)

definition started_app :: "local_broker app_state" where
  "started_app = \<lparr>as_world = demo_world, as_sessions = newStore, as_cookies = []\<rparr>"

lemma demo_typed: "world_typed (as_world started_app)" "lasting (hw_db (as_world started_app))"
  using demo_pool_ok
  by (simp_all add: started_app_def demo_world_def world_typed_def db_typed_def db_keys_ok_def pool_typed_def empty_db_def lasting_def)

text \<open>One notification sent to all of a tenant over gRPC.\<close>
definition sent_app :: "local_broker app_state" where
  "sent_app = started_app\<lparr>as_world := rpc_serve demo_deps demo_env (Some (\<lambda>_. [''Bearer good''])) (\<lambda>_. []) demo_inputs
     (CallSendToAll \<lparr>pb_Title = ''a'', pb_Content = ''b'', pb_TenantId = ''T'', pb_SenderId = ''s'', pb_SenderType = 1,
        pb_EventType = ''e'', pb_TtlSeconds = Some 60\<rparr>) (as_world started_app)\<rparr>"

lemma demo_run: "(hub_step demo_web LocalBroker_Subscribe)\<^sup>*\<^sup>* started_app sent_app"
  unfolding sent_app_def demo_web_ok(2) [symmetric] by (rule r_into_rtranclp) (rule hub_step.Rpc)

theorem reachable_states_typed_witness:
  "world_typed (as_world sent_app) \<and> length (t_record (hw_db (as_world sent_app))) = 1"
proof -
  have "length (t_record (hw_db (as_world sent_app))) = 1"
    by (simp add: sent_app_def rpc_serve_def demo_interceptor started_app_def Rpc_SendToAll_def SendToAll_def transmit_def
        validateSendProp_def validateSenderType_def resolveTTLSeconds_def pb_prop_def toSenderTypeCode_def go_int8_def code_defs
        Transaction_def store_prop_def RecordRepo_Create_def prop_record_def NotifyRecord_BeforeCreate_def demo_web_ok
        demo_sender_def demo_hub_def demo_pg_def record_fits_def demo_world_def empty_db_def SendNotify_def demo_inputs_def Let_def)
  with reachable_states_typed [OF demo_web_ok(1) _ demo_typed(1) demo_run] show ?thesis
    by (simp add: demo_web_ok pg_up_ok [OF demo_sender_ok(2)])
qed

text \<open>
  C26: Nothing expires. The response to a send announces an expiry time, but in every state reachable from a
  database without expiry times no notification has one, so that a cleanup run, at whatever time, ends
  without having removed anything.
\<close>
theorem nothing_ever_expires:
  assumes "web_ok W" and "pg_ok (h_pg (sd_hub (dp_sender (wb_deps W))))" and "world_typed (as_world st)"
    and "lasting (hw_db (as_world st))" and "(hub_step W recv)\<^sup>*\<^sup>* st st'"
  shows "(\<forall>r \<in> set (t_record (hw_db (as_world st'))). r_ExpireAt r = None) \<and>
     (\<exists>e. RunOnce (sd_hub (dp_sender (wb_deps W))) cancelled clock now (as_world st') = Some ((e, 0), as_world st'))"
proof -
  let ?H = "sd_hub (dp_sender (wb_deps W))" and ?w = "as_world st'"
  have l: "lasting (hw_db ?w)" using lasting_hub.reachable_inv [OF assms(5)] assms(1-4) by (simp add: founded_def)
  then have "filter (expired_by now) (t_record (hw_db ?w)) = []"
    by (simp add: filter_empty_conv lasting_def expired_by_def)
  then have "infos = []" if "RecordRepo_ListExpiredNotifyInfos (h_pg ?H) now notifyCleanupBatchSize (hw_db ?w) = Inr infos" for infos
    using expired_batch(2) [OF assms(2) that] by simp
  then have "\<exists>e. RunOnce ?H cancelled clock now ?w = Some ((e, 0), ?w)"
    by (auto simp: RunOnce_def split: sum.split)
  with l show ?thesis by (simp add: lasting_def)
qed

theorem nothing_ever_expires_witness:
  "\<exists>e. RunOnce demo_hub (\<lambda>_. False) (\<lambda>_. 0) 1000 (as_world sent_app) = Some ((e, 0), as_world sent_app)"
proof -
  have "pg_ok (h_pg (sd_hub (dp_sender (wb_deps demo_web))))" by (simp add: demo_web_ok pg_up_ok [OF demo_sender_ok(2)])
  from nothing_ever_expires [OF demo_web_ok(1) this demo_typed demo_run] show ?thesis
    by (simp add: demo_web_ok demo_sender_def)
qed

end
