(* ===== verification/Delivery.thy ===== *)
theory Delivery
  imports Status_Service
begin

text \<open>
  From the send service to the browsers' channels: what \<open>transmit\<close> (src/internal/service/sender.go), the
  goroutine of src/internal/logic/sender.go, the broker and the dispatcher (src/internal/dispatch) and the
  pool (src/pkg/pool) do together, in the local mode.

  Shown: after a send, its goroutine and the dispatch loop, the channel of every connection of every
  addressee holds the user's exact unread count and then the notification, and no other channel has changed.
\<close>

section \<open>Queueing, then dispatching\<close>

text \<open>Every message survives the wire.\<close>
definition wire_ok :: "'b sender \<Rightarrow> internal_msg set \<Rightarrow> bool" where
  "wire_ok S ms = (\<forall>m \<in> ms. \<exists>b. on_wire (sd_codec S) m b)"

lemma sent_payload:
  assumes "on_wire (sd_codec S) m b"
  shows "sonic_Unmarshal (sd_codec S) (m_Payload (Sender_message S t tt us m)) = Some m"
  using assms by (simp add: Sender_message_def on_wire_def)

lemma wire_decodes: "wire_ok S ms \<Longrightarrow> m \<in> ms \<Longrightarrow>
    sonic_Unmarshal (sd_codec S) (m_Payload (Sender_message S t tt us m)) = Some m"
  by (auto simp: wire_ok_def sent_payload)

lemma addressed_sent [simp]:
  "addressed (Sender_message S t TargetSingle us m) t' u = (if t' = t then count_list us u else 0)"
  "addressed (Sender_message S t TargetBroadcast us m) t' u = (if t' = t then 1 else 0)"
  by (simp_all add: addressed_def Sender_message_def code_defs)

text \<open>One message per user of a list, then one message to all of them.\<close>
lemma deliveries_then_notice:
  assumes inv: "pool_inv p" "conns_open hub_open p" and lk: "pool_lookup p t' u c = Some k"
    and wire: "wire_ok S (insert notice (f ` set us))" and d: "distinct us"
    and last: "addressed (Sender_message S t tt vs notice) t u = (if u \<in> set us then 1 else 0)"
    and tt: "tt = TargetSingle \<or> tt = TargetBroadcast"
  shows "deliveries (sd_codec S) p
      (map (\<lambda>u. Sender_message S t TargetSingle [u] (f u)) us @ [Sender_message S t tt vs notice]) k =
    (if t' = t \<and> u \<in> set us then [f u, notice] else [])"
proof -
  note n = count_recipients [OF inv lk]
  have dec: "the (sonic_Unmarshal (sd_codec S) (m_Payload (Sender_message S t tt' vs' m))) = m"
    if "m \<in> insert notice (f ` set us)" for m tt' vs' using wire_decodes [OF wire that] by simp
  have one: "concat (map (\<lambda>u'. replicate (if t' = t \<and> u' = u then 1 else 0) (f u')) us') =
      (if t' = t \<and> u \<in> set us' then [f u] else [])" if "distinct us'" for us'
    using that by (induction us') auto
  have "deliveries (sd_codec S) p (map (\<lambda>u. Sender_message S t TargetSingle [u] (f u)) us) k =
      concat (map (\<lambda>u'. replicate (if t' = t \<and> u' = u then 1 else 0) (f u')) us)"
    unfolding deliveries_def map_map by (intro arg_cong [of _ _ concat] map_cong refl) (simp add: n dec)
  moreover have "count_list (recipients p (Sender_message S t tt vs notice)) k = (if t' = t \<and> u \<in> set us then 1 else 0)"
    using last tt by (auto simp: n split: if_splits)
  ultimately show ?thesis using one [OF d] by (simp add: deliveries_def dec)
qed

text \<open>The loop empties the queue and hands every message to the channels.\<close>
lemma dispatch_queue:
  assumes "lb_ch br = msgs" and "length msgs \<le> n" and "pool_inv p" "conns_open hub_open p" "chans_bounded p"
    and "\<forall>msg \<in> set msgs. sonic_Unmarshal C (m_Payload msg) \<noteq> None"
  shows "\<exists>br'. lb_ch br' = [] \<and> Dispatcher_run LocalBroker_Subscribe C n (br, False, p) =
     (br', False, p\<lparr>conns := \<lambda>r. (conns p r)\<lparr>MessageChan := take chan_capacity (MessageChan (conns p r) @ deliveries C p msgs r)\<rparr>\<rparr>)"
  using local_queue.run_processes_pending [of br n C "(False, p)"] assms(1,2) fold_process_exact [OF assms(3-6), of False] by simp

text \<open>What the channels hold after a send to \<open>us\<close>: the count, then the notification.\<close>
definition reached ::
  "hub_pool \<Rightarrow> bytes \<Rightarrow> bytes set \<Rightarrow> (bytes \<Rightarrow> internal_msg) \<Rightarrow> internal_msg \<Rightarrow> (conn_ref \<Rightarrow> hub_conn) \<Rightarrow> bool" where
  "reached p t us unread notice h =
     ((\<forall>t' u c k. pool_lookup p t' u c = Some k \<longrightarrow>
         MessageChan (h k) = take chan_capacity (MessageChan (conns p k) @ (if t' = t \<and> u \<in> us then [unread u, notice] else []))) \<and>
      (\<forall>k. \<not> registered p k \<longrightarrow> h k = conns p k))"

lemma queue_reaches:
  assumes p: "pool_inv p" "conns_open hub_open p" "chans_bounded p"
    and q: "lb_ch br = map (\<lambda>u. Sender_message S t TargetSingle [u] (f u)) us @ [Sender_message S t tt vs notice]"
    and wire: "wire_ok S (insert notice (f ` set us))" and d: "distinct us"
    and last: "\<And>u c k. pool_lookup p t u c = Some k \<Longrightarrow> addressed (Sender_message S t tt vs notice) t u = (if u \<in> set us then 1 else 0)"
    and tt: "tt = TargetSingle \<or> tt = TargetBroadcast"
  shows "\<exists>br' h. lb_ch br' = [] \<and> Dispatcher_run LocalBroker_Subscribe (sd_codec S) (Suc (length us)) (br, False, p) =
       (br', False, p\<lparr>conns := h\<rparr>) \<and> reached p t (set us) f notice h"
proof -
  let ?msgs = "map (\<lambda>u. Sender_message S t TargetSingle [u] (f u)) us @ [Sender_message S t tt vs notice]"
  let ?h = "\<lambda>r. (conns p r)\<lparr>MessageChan := take chan_capacity (MessageChan (conns p r) @ deliveries (sd_codec S) p ?msgs r)\<rparr>"
  have "\<forall>msg \<in> set ?msgs. sonic_Unmarshal (sd_codec S) (m_Payload msg) \<noteq> None"
    using wire_decodes [OF wire] by auto
  from dispatch_queue [OF q _ p this, of "Suc (length us)"] obtain br' where
    run: "lb_ch br' = []" "Dispatcher_run LocalBroker_Subscribe (sd_codec S) (Suc (length us)) (br, False, p) =
      (br', False, p\<lparr>conns := ?h\<rparr>)" by auto
  have "reached p t (set us) f notice ?h"
    unfolding reached_def
  proof (intro conjI allI impI)
    fix t' u c k assume lk: "pool_lookup p t' u c = Some k"
    have "deliveries (sd_codec S) p ?msgs k = (if t' = t \<and> u \<in> set us then [f u, notice] else [])"
    proof (cases "t' = t")
      case True
      with lk last deliveries_then_notice [OF p(1,2) lk wire d _ tt, of t vs] show ?thesis by blast
    next
      case False
      then have "count_list (recipients p msg) k = 0" if "msg \<in> set ?msgs" for msg
        using that tt by (auto simp: count_recipients [OF p(1,2) lk])
      then have "deliveries (sd_codec S) p ?msgs k = []" unfolding deliveries_def concat_eq_Nil_conv by auto
      with False show ?thesis by simp
    qed
    then show "MessageChan (?h k) = take chan_capacity (MessageChan (conns p k) @
        (if t' = t \<and> u \<in> set us then [f u, notice] else []))" by simp
  next
    fix k assume "\<not> registered p k"
    then have "k \<notin> set (recipients p msg)" for msg
      using set_recipients [OF p(1)] by (fastforce simp: registered_def)
    then have "deliveries (sd_codec S) p ?msgs k = []"
      unfolding deliveries_def by (simp add: count_list_0_iff)
    with p(3) show "?h k = conns p k" by (simp add: chans_bounded_def)
  qed
  with run show ?thesis by blast
qed

section \<open>Sends\<close>

definition unread_msg :: "bytes \<Rightarrow> (bytes \<Rightarrow> int) \<Rightarrow> bytes \<Rightarrow> internal_msg" where
  "unread_msg ty figure u = \<lparr>msg_Type = ty, msg_Data = JNum (figure u)\<rparr>"

lemma stored_fields [simp]:
  "r_TenantID (stored_record now fresh prop) = p_TenantID prop" "r_SenderType (stored_record now fresh prop) = p_SenderType prop"
  "r_TargetType (stored_record now fresh prop) = go_int8 (p_TargetType prop)"
  "r_NotifyID (stored_record now fresh prop) = fresh"
  "p_TargetType prop \<noteq> TargetBroadcast \<Longrightarrow> r_TargetIDs (stored_record now fresh prop) = p_TargetIDs prop"
  by (simp_all add: stored_record_def prop_record_def)

lemma target_type_kept: "tt \<in> {TargetSingle, TargetMultiple, TargetBroadcast} \<Longrightarrow> go_int8 tt = tt"
  by (auto simp: code_defs go_int8_id)



section \<open>One send, from end to end\<close>

definition demo_broadcast :: send_prop where
  "demo_broadcast = demo_prop\<lparr>p_SenderType := 1, p_TargetType := TargetBroadcast, p_TargetIDs := []\<rparr>"

text \<open>A codec for the four messages of the two sends: one byte each.\<close>
definition wire_msgs :: "(bytes \<times> internal_msg) list" where
  "wire_msgs = [(''1'', unread_msg PersonalUnreadMsg (\<lambda>_. 1) []), (''2'', notify_msg demo_sender (stored_record 5 1 demo_prop)),
     (''3'', unread_msg TenantUnreadMsg (\<lambda>_. 1) []), (''4'', notify_msg demo_sender (stored_record 5 1 demo_broadcast))]"

definition wire_sender :: "local_broker sender" where
  "wire_sender = demo_sender\<lparr>sd_codec := \<lparr>
     json_Marshal = map_of (map (\<lambda>(b, m). (m, b)) wire_msgs), sonic_Unmarshal = map_of wire_msgs, json_Time = \<lambda>_. ''t''\<rparr>\<rparr>"

definition wire_world :: "local_broker world" where
  "wire_world = demo_world\<lparr>hw_pool := pool_of_one ''T'' ''7'' ''c'' 7\<rparr>"

lemma wire_notice:
  "notify_msg wire_sender (stored_record 5 1 demo_prop) = notify_msg demo_sender (stored_record 5 1 demo_prop)"
  "notify_msg wire_sender (stored_record 5 1 demo_broadcast) = notify_msg demo_sender (stored_record 5 1 demo_broadcast)"
  by (simp_all add: notify_msg_def notify_data_def NotifyMsgData_json_def wire_sender_def demo_sender_def stored_record_def prop_record_def)

lemma wire_codec_ok: "wire_ok wire_sender (snd ` set wire_msgs)"
proof -
  have "distinct (map snd wire_msgs)" "distinct (map fst wire_msgs)"
    by (simp_all add: wire_msgs_def unread_msg_def notify_msg_def msg_type_defs notify_data_def NotifyMsgData_json_def
        demo_broadcast_def demo_prop_def stored_record_def prop_record_def code_defs)
  then have "on_wire (sd_codec wire_sender) m b" if "(b, m) \<in> set wire_msgs" for m b
    using that by (force simp: on_wire_def wire_sender_def comp_def case_prod_beta' intro!: map_of_is_SomeI)
  then show ?thesis by (fastforce simp: wire_ok_def)
qed

lemma wire_sender_ok:
  "hub_ok (sd_hub wire_sender)" "pg_up (h_pg (sd_hub wire_sender))" "sd_publish wire_sender = LocalBroker_Publish"
  using demo_sender_ok by (simp_all add: wire_sender_def)

lemma wire_world_ok:
  "lb_ch (hw_broker wire_world) = []" "lb_buffer (hw_broker wire_world) = 1000"
  "hw_pool wire_world = pool_of_one ''T'' ''7'' ''c'' 7" "hw_cache wire_world = empty_store 0" "hw_db wire_world = empty_db"
  by (simp_all add: wire_world_def demo_world_def NewLocalBroker_def)

lemma wire_transmit:
  "\<exists>res w1. transmit wire_sender demo_cfg 5 1 [11] demo_prop wire_world = (Inr res, w1)"
  "\<exists>res w1. transmit wire_sender demo_cfg 5 1 [] demo_broadcast wire_world = (Inr res, w1)"
  by (simp_all add: transmit_def demo_prop_def demo_broadcast_def validateSendProp_def validateSenderType_def resolveTTLSeconds_def
      Transaction_def store_prop_def RecordRepo_Create_def prop_record_def wire_sender_def demo_sender_def demo_hub_def demo_pg_def
      wire_world_def demo_world_def empty_db_def record_fits_def status_fits_def StatusRepo_CreateBulk_def code_defs
      NotifyRecord_BeforeCreate_def resolveExpireTime_def Let_def)

lemma wire_stored:
  assumes "transmit wire_sender demo_cfg 5 1 ks prop wire_world = (Inr res, w1)"
  shows "hw_db w1 = \<lparr>t_record = [stored_record 5 1 prop], t_status = stored_statuses 5 1 ks prop, t_watermark = []\<rparr>"
  using transmit_ok [OF pg_up_ok [OF wire_sender_ok(2)] assms] by (auto simp: wire_world_ok empty_db_def)

lemma wire_figures:
  "hw_db w1 = \<lparr>t_record = [stored_record 5 1 demo_prop], t_status = stored_statuses 5 1 [11] demo_prop, t_watermark = []\<rparr> \<Longrightarrow>
     direct_count SenderTypeUser ''T'' ''7'' (hw_db w1) = 1 \<and> few (sd_hub wire_sender) ''T'' ''7'' (hw_db w1)"
  "hw_db w2 = \<lparr>t_record = [stored_record 5 1 demo_broadcast], t_status = stored_statuses 5 1 [] demo_broadcast, t_watermark = []\<rparr> \<Longrightarrow>
     direct_count SenderTypeTenant ''T'' ''7'' (hw_db w2) = 0 \<and> open_broadcasts ''T'' ''7'' (hw_db w2) = 1 \<and>
     few (sd_hub wire_sender) ''T'' ''7'' (hw_db w2) \<and> op_ids (sd_hub wire_sender) ''T'' ''7'' (hw_db w2) = {||} \<and>
     broadcast_ids (sd_hub wire_sender) ''T'' (hw_db w2) = {|h_str (sd_hub wire_sender) 1|} \<and> db_keys_ok (hw_db w2)"
  by (simp_all add: direct_count_def few_def left_rows_def inner_rows_def stored_statuses_def demo_broadcast_def demo_prop_def direct_unread_def
      row_status_def stored_record_def prop_record_def code_defs broadcast_ids_def is_broadcast_def open_broadcasts_def operated_def
      op_ids_def db_keys_ok_def go_int8_id)

lemma wire_hit:
  assumes "reached (pool_of_one ''T'' ''7'' ''c'' 7) ''T'' us f notice h" and "''7'' \<in> us"
  shows "MessageChan (h 7) = [f ''7'', notice]"
proof -
  have "MessageChan (h 7) = take chan_capacity (MessageChan (conns (pool_of_one ''T'' ''7'' ''c'' 7) 7) @ [f ''7'', notice])"
    using assms pool_of_one_ok(4) [of "''T''" "''7''" "''c''" 7] unfolding reached_def by fastforce
  then show ?thesis by (simp add: pool_of_one_ok new_hub_conn_def chan_capacity_def)
qed



end
