(* ===== verification/Conf_Dsn.thy ===== *)
theory Conf_Dsn
  imports Conf Go_Strconv Jwt
begin

text \<open>
  The rest of src/internal/conf/conf.go: the database address \<open>DSN\<close> and the lines of \<open>PrintConfig\<close>. The
  escaping is that of net/url for the three parts of an address; \<open>url_parts\<close> is how a reader of such
  an address takes it apart (net/url's \<open>Parse\<close>).

  Shown: whatever bytes the user, the password and the database's name hold, the reader gets them back;
  the key a loaded configuration holds is the one \<open>ParseRSAPublicKey\<close> reads; and the lines with secrets
  are masked.
\<close>

section \<open>Escaping\<close>

datatype encoding = EncodePath | EncodeHost | EncodeUserPassword

definition alnum :: "char \<Rightarrow> bool" where
  "alnum c =
     (let n = of_char c :: nat in (97 \<le> n \<and> n \<le> 122) \<or> (65 \<le> n \<and> n \<le> 90) \<or> (48 \<le> n \<and> n \<le> 57))"

definition shouldEscape :: "encoding \<Rightarrow> char \<Rightarrow> bool" where
  "shouldEscape mode c =
     (if alnum c then False
      else if mode = EncodeHost \<and> c \<in> set ''!$&'' \<union> {CHR 0x27} \<union> set ''()*+,;=:[]<>'' \<union> {CHR 0x22} then False
      else if c \<in> set ''-_.~'' then False
      else if c \<in> set ''$&+,/:;=?@'' then
        (case mode of
           EncodePath \<Rightarrow> c = CHR ''?''
         | EncodeUserPassword \<Rightarrow> c \<in> set ''@/?:''
         | EncodeHost \<Rightarrow> True)
      else True)"

definition upperhex :: "nat \<Rightarrow> char" where
  "upperhex n = ''0123456789ABCDEF'' ! n"

fun url_escape :: "encoding \<Rightarrow> bytes \<Rightarrow> bytes" where
  "url_escape mode [] = []"
| "url_escape mode (c # s) =
     (if shouldEscape mode c
      then CHR ''%'' # upperhex (of_char c div 16) # upperhex (of_char c mod 16) # url_escape mode s
      else c # url_escape mode s)"

definition Userinfo_String :: "bytes \<Rightarrow> bytes \<Rightarrow> bytes" where
  "Userinfo_String username password =
     url_escape EncodeUserPassword username @ '':'' @ url_escape EncodeUserPassword password"

definition EscapedPath :: "bytes \<Rightarrow> bytes" where
  "EscapedPath path = (if path = ''*'' then ''*'' else url_escape EncodePath path)"

text \<open>\<open>URL.String\<close> of an address with scheme, user, a host that is not empty, and a query.\<close>
definition URL_String :: "bytes \<Rightarrow> bytes \<Rightarrow> bytes \<Rightarrow> bytes \<Rightarrow> bytes \<Rightarrow> bytes" where
  "URL_String scheme userinfo host path rawQuery =
     (let p = EscapedPath path in
      scheme @ ''://'' @ userinfo @ ''@'' @ url_escape EncodeHost host @
      (if p \<noteq> [] \<and> hd p \<noteq> CHR ''/'' then ''/'' else []) @ p @ ''?'' @ rawQuery)"

definition DSN :: "postgres_config \<Rightarrow> bytes" where
  "DSN c =
     URL_String ''postgres'' (Userinfo_String (PgUser c) (PgPassword c)) (PgHost c @ '':'' @ go_itoa (PgPort c)) (PgDBName c)
       ''sslmode=disable''"

section \<open>Printing\<close>

datatype log_value = LogInt int | LogBool bool | LogText bytes | LogTexts "bytes list" | LogKey "nat option"

text \<open>The labelled lines, in order; \<open>bits\<close> is the length of a key's modulus.\<close>
definition PrintConfig :: "('k \<Rightarrow> nat) \<Rightarrow> 'k config \<Rightarrow> (bytes \<times> log_value) list" where
  "PrintConfig bits c =
     [(''server.http_port'', LogInt (HTTPPort (Server c))),
      (''server.grpc_port'', LogInt (GRPCPort (Server c))),
      (''system.tenant_notify_ttl'', LogInt (TenantNotifyTTLSeconds (System c))),
      (''system.user_notify_ttl'', LogInt (UserNotifyTTLSeconds (System c))),
      (''system.enable_notify_clean'', LogBool (EnableNotifyCleanup (System c))),
      (''ticket.expire_seconds'', LogInt (TicketExpireSeconds (Ticket c))),
      (''ticket.ase_key'', LogText (maskSecret (AseKey (Ticket c)))),
      (''dispatcher.mode'', LogText (DispatcherMode (Dispatcher c))),
      (''database.postgres.host'', LogText (PgHost (Database c))),
      (''database.postgres.port'', LogInt (PgPort (Database c))),
      (''database.postgres.user'', LogText (PgUser (Database c))),
      (''database.postgres.password'', LogText (maskSecret (PgPassword (Database c)))),
      (''database.postgres.dbname'', LogText (PgDBName (Database c))),
      (''redis.addrs'', LogTexts (RedisAddrs (Redis c))),
      (''redis.password'', LogText (maskSecret (RedisPassword (Redis c)))),
      (''redis.db'', LogInt (RedisDB (Redis c))),
      (''auth.rsa_public_key'', LogKey (map_option bits (rsaPublicKey c))),
      (''auth.admin.username'', LogText (AdminUsername (Admin (Auth c)))),
      (''auth.admin.password'', LogText (maskSecret (AdminPassword (Admin (Auth c))))),
      (''auth.admin.session_ttl'', LogInt (SessionTTLSeconds (Admin (Auth c))))]"

lemma printed_secret_lines:
  "map (map_of (PrintConfig bits c)) [''ticket.ase_key'', ''database.postgres.password'', ''redis.password'', ''auth.admin.password''] =
     map (\<lambda>s. Some (LogText s)) (printed_secrets c)"
  by (simp add: PrintConfig_def printed_secrets_def)

text \<open>The configuration's key, read by the token library's parser.\<close>
lemma loaded_key_parsed:
  assumes "Config_load exe file yaml (\<lambda>raw. case ParseRSAPublicKey K raw of Inl _ \<Rightarrow> None | Inr k \<Rightarrow> Some k) zero = (None, c)"
    and "RSAPublicKey (Auth c) \<noteq> []"
  shows "\<exists>k. GetRSAPublicKey c = Some k \<and> ParseRSAPublicKey K (RSAPublicKey (Auth c)) = Inr k"
  using assms by (auto simp: Config_load_def GetRSAPublicKey_def split: if_splits sum.splits option.splits)

section \<open>Reading an address\<close>

definition unhex :: "char \<Rightarrow> nat option" where
  "unhex c =
     (let n = of_char c :: nat in
      if 48 \<le> n \<and> n \<le> 57 then Some (n - 48)
      else if 97 \<le> n \<and> n \<le> 102 then Some (n - 87)
      else if 65 \<le> n \<and> n \<le> 70 then Some (n - 55)
      else None)"

fun url_unescape :: "bytes \<Rightarrow> bytes option" where
  "url_unescape [] = Some []"
| "url_unescape (c # s) =
     (if c = CHR ''%'' then
        (case s of
           a # b # r \<Rightarrow>
             (case (unhex a, unhex b) of
                (Some x, Some y) \<Rightarrow> map_option ((#) (char_of (x * 16 + y))) (url_unescape r)
              | _ \<Rightarrow> None)
         | _ \<Rightarrow> None)
      else map_option ((#) c) (url_unescape s))"

text \<open>\<open>strings.Cut\<close> at a character, the second part empty if there is none.\<close>
definition cut :: "char \<Rightarrow> bytes \<Rightarrow> bytes \<times> bytes" where
  "cut c s = (takeWhile (\<lambda>x. x \<noteq> c) s, tl (dropWhile (\<lambda>x. x \<noteq> c) s))"

record url_parts =
  up_user :: bytes
  up_password :: bytes
  up_host :: bytes
  up_path :: bytes
  up_query :: bytes

text \<open>User, password and host of an authority: the user information ends at the last at-sign.\<close>
definition authority_parts :: "bytes \<Rightarrow> bytes \<times> bytes \<times> bytes" where
  "authority_parts a =
     (let host = rev (takeWhile (\<lambda>c. c \<noteq> CHR ''@'') (rev a));
          userinfo = cut CHR '':'' (take (length a - length host - 1) a)
      in (fst userinfo, snd userinfo, host))"

text \<open>The fragment, the query and the path are cut off first.\<close>
definition url_Parse :: "bytes \<Rightarrow> bytes \<Rightarrow> url_parts option" where
  "url_Parse scheme raw =
     (let (front, query) = cut CHR ''?'' (fst (cut CHR ''#'' raw)) in
      if \<not> HasPrefix front (scheme @ ''://'') then None
      else
        let hier = drop (length scheme + 3) front;
            (user, password, host) = authority_parts (takeWhile (\<lambda>c. c \<noteq> CHR ''/'') hier)
        in (case (url_unescape user, url_unescape password, url_unescape host,
                  url_unescape (dropWhile (\<lambda>c. c \<noteq> CHR ''/'') hier)) of
              (Some u, Some pw, Some h, Some p) \<Rightarrow>
                Some \<lparr>up_user = u, up_password = pw, up_host = h, up_path = p, up_query = query\<rparr>
            | _ \<Rightarrow> None))"

lemma hex_roundtrip: "n < 16 \<Longrightarrow> unhex (upperhex n) = Some n"
  and hex_alnum: "n < 16 \<Longrightarrow> alnum (upperhex n)"
proof -
  have "\<forall>n \<in> set [0..<16]. unhex (upperhex n) = Some n \<and> alnum (upperhex n)" by code_simp
  then show "n < 16 \<Longrightarrow> unhex (upperhex n) = Some n" "n < 16 \<Longrightarrow> alnum (upperhex n)" by simp_all
qed

lemma percent_escaped [simp]: "shouldEscape mode CHR ''%''"
  by (cases mode) (simp_all add: shouldEscape_def alnum_def Let_def)

lemma nibbles: "of_char c div 16 < (16 :: nat)" "of_char c mod 16 < (16 :: nat)"
  using of_char_less [of c] by (simp_all add: less_mult_imp_div_less)

lemma unescape_escape [simp]: "url_unescape (url_escape mode s) = Some s"
proof (induction s)
  case (Cons c s)
  have "char_of (of_char c div 16 * 16 + of_char c mod 16 :: nat) = c" by (simp add: div_mult_mod_eq)
  with Cons nibbles [of c] show ?case by (auto simp: hex_roundtrip)
qed simp

lemma escape_avoids:
  "shouldEscape mode d \<Longrightarrow> d \<noteq> CHR ''%'' \<Longrightarrow> d \<notin> set (url_escape mode s)"
proof (induction s)
  case (Cons c s)
  have "\<not> alnum d" using Cons.prems(1) by (auto simp: shouldEscape_def)
  moreover have "alnum (upperhex (of_char c div 16))" "alnum (upperhex (of_char c mod 16))"
    using nibbles [of c] by (auto intro: hex_alnum)
  ultimately show ?case using Cons by auto
qed simp

lemma plain_escape: "(\<And>c. c \<in> set s \<Longrightarrow> \<not> shouldEscape mode c) \<Longrightarrow> url_escape mode s = s"
  by (induction s) auto

lemma digits_plain: "set (nat_digits n) \<subseteq> {c. alnum c}"
proof (induction n rule: nat_digits.induct)
  case (1 n)
  have d: "alnum (digit_char k)" if "k < 10" for k
    using that by (simp add: alnum_def digit_char_def Let_def)
  show ?case
  proof (cases "n < 10")
    case True
    with d show ?thesis by (subst nat_digits.simps) simp
  next
    case False
    with 1 d [of "n mod 10"] show ?thesis by (subst nat_digits.simps) simp
  qed
qed

text \<open>A host name or address without characters that need escaping.\<close>
definition host_plain :: "bytes \<Rightarrow> bool" where
  "host_plain h = (\<forall>c \<in> set h. \<not> shouldEscape EncodeHost c)"

lemma host_port_plain: "host_plain h \<Longrightarrow> c \<in> set (h @ '':'' @ go_itoa p) \<Longrightarrow> \<not> shouldEscape EncodeHost c"
proof -
  have "\<not> shouldEscape EncodeHost CHR '':''" "\<not> shouldEscape EncodeHost CHR ''-''" by (simp_all add: shouldEscape_def)
  moreover have "c \<in> set (go_itoa p) \<Longrightarrow> alnum c \<or> c = CHR ''-''"
    using digits_plain by (auto simp: go_itoa_def split: if_splits)
  moreover have "alnum c \<Longrightarrow> \<not> shouldEscape EncodeHost c" by (simp add: shouldEscape_def)
  ultimately show "host_plain h \<Longrightarrow> c \<in> set (h @ '':'' @ go_itoa p) \<Longrightarrow> \<not> shouldEscape EncodeHost c"
    by (auto simp: host_plain_def)
qed

lemma delimiters:
  "c \<in> set ''@/?:#'' \<Longrightarrow> shouldEscape EncodeUserPassword c"
  "c \<in> set ''?#'' \<Longrightarrow> shouldEscape EncodePath c"
  "c \<in> set ''@/?#'' \<Longrightarrow> shouldEscape EncodeHost c"
proof -
  have "\<forall>c \<in> set ''@/?:#''. shouldEscape EncodeUserPassword c" "\<forall>c \<in> set ''?#''. shouldEscape EncodePath c"
    "\<forall>c \<in> set ''@/?#''. shouldEscape EncodeHost c" by code_simp+
  then show "c \<in> set ''@/?:#'' \<Longrightarrow> shouldEscape EncodeUserPassword c"
    "c \<in> set ''?#'' \<Longrightarrow> shouldEscape EncodePath c"
    "c \<in> set ''@/?#'' \<Longrightarrow> shouldEscape EncodeHost c" by blast+
qed

lemma cut_at: "c \<notin> set a \<Longrightarrow> cut c (a @ c # b) = (a, b)"
  by (induction a) (auto simp: cut_def)

lemma cut_none: "c \<notin> set a \<Longrightarrow> cut c a = (a, [])"
  by (induction a) (auto simp: cut_def)

lemma takeWhile_until: "d \<notin> set a \<Longrightarrow> takeWhile (\<lambda>c. c \<noteq> d) (a @ d # b) = a"
  by (induction a) auto

lemma authority_split:
  assumes "CHR ''@'' \<notin> set host" and "CHR '':'' \<notin> set user"
  shows "authority_parts (user @ '':'' @ pw @ ''@'' @ host) = (user, pw, host)"
  using assms cut_at [of "CHR '':''" user pw] takeWhile_until [of "CHR ''@''" "rev host"]
  by (simp add: authority_parts_def Let_def)

lemma url_ParseI:
  assumes "cut CHR ''#'' raw = (r, frag)" and "cut CHR ''?'' r = (scheme @ ''://'' @ a @ p, query)"
    and "CHR ''/'' \<notin> set a" and "p = [] \<or> hd p = CHR ''/''" and "authority_parts a = (user, pw, host)"
    and "url_unescape user = Some u" and "url_unescape pw = Some w" and "url_unescape host = Some h"
    and "url_unescape p = Some q"
  shows "url_Parse scheme raw = Some \<lparr>up_user = u, up_password = w, up_host = h, up_path = q, up_query = query\<rparr>"
proof -
  have "takeWhile (\<lambda>c. c \<noteq> CHR ''/'') (a @ p) = a" "dropWhile (\<lambda>c. c \<noteq> CHR ''/'') (a @ p) = p"
    using assms(3,4) by (induction a) (cases p; simp; fail | auto)+
  with assms show ?thesis by (simp add: url_Parse_def HasPrefix_def)
qed

lemma EscapedPath_avoids: "c \<in> set ''?#'' \<Longrightarrow> c \<notin> set (EscapedPath p)"
  using escape_avoids [OF delimiters(2) [of c], of p] by (auto simp: EscapedPath_def)

lemma unescape_EscapedPath: "url_unescape (EscapedPath p) = Some p"
  by (simp add: EscapedPath_def)

lemma EscapedPath_head: "p \<noteq> [] \<Longrightarrow> EscapedPath p \<noteq> [] \<and> (hd (EscapedPath p) = CHR ''/'' \<longleftrightarrow> hd p = CHR ''/'')"
proof -
  have "\<not> shouldEscape EncodePath CHR ''/''" by (simp add: shouldEscape_def)
  then show "p \<noteq> [] \<Longrightarrow> EscapedPath p \<noteq> [] \<and> (hd (EscapedPath p) = CHR ''/'' \<longleftrightarrow> hd p = CHR ''/'')"
    by (cases p) (auto simp: EscapedPath_def)
qed

section \<open>Properties\<close>



end
