(* ===== verification/Startup.thy ===== *)
theory Startup
  imports Routes Conf_Dsn
begin

text \<open>
  The process-wide state main builds before it listens: src/internal/app/initialize.go with the singletons it
  sets (src/pkg/redis/redis.go, src/pkg/db/db.go, the global dispatcher of src/internal/dispatch), each behind a
  \<open>sync.Once\<close>, and the filtering logger of src/internal/logger. Opening a connection is the library's:
  \<open>connector\<close> says whether the ping answers, what \<open>gorm.Open\<close> returns and whether the migration succeeds.

  Shown: the start-up as \<open>Routes\<close> states it is what this state machine does from a fresh process; after it
  every getter finds its singleton and one dispatch loop runs; a failed connection is reported once and
  forgotten by the next call; and the logger loses nothing but noise reported as errors, on the sinks \<open>Init\<close>
  sets up.
\<close>

section \<open>Singletons\<close>

record dispatcher_obj =
  do_broker :: any_broker
  do_pool :: hub_pool
  do_ran :: bool
  do_loops :: nat

record 'h process =
  ps_redis :: "redis_config option"
  ps_redis_once :: bool
  ps_db :: "'h option"
  ps_db_once :: bool
  ps_dispatcher :: "dispatcher_obj option"
  ps_dispatcher_once :: bool

record 'h connector =
  cn_Ping :: "redis_config \<Rightarrow> bool"
  cn_Open :: "bytes \<Rightarrow> 'h option \<times> bool"
  cn_AutoMigrate :: "'h option \<Rightarrow> bool"

definition fresh_process :: "'h process" where
  "fresh_process = \<lparr>ps_redis = None, ps_redis_once = False, ps_db = None, ps_db_once = False,
     ps_dispatcher = None, ps_dispatcher_once = False\<rparr>"

text \<open>The flag is the absence of an error. The client is kept whatever the ping says.\<close>
definition InitRedis :: "'h connector \<Rightarrow> redis_config \<Rightarrow> 'h process \<Rightarrow> bool \<times> 'h process" where
  "InitRedis N cfg ps =
     (if ps_redis_once ps then (True, ps)
      else (cn_Ping N cfg, ps\<lparr>ps_redis := Some cfg, ps_redis_once := True\<rparr>))"

text \<open>\<open>None\<close> is \<open>log.Fatal\<close>, or the panic, of a getter called too early.\<close>
definition GetClient :: "'h process \<Rightarrow> redis_config option" where
  "GetClient ps = ps_redis ps"

definition InitDB :: "'h connector \<Rightarrow> postgres_config \<Rightarrow> 'h process \<Rightarrow> bool \<times> 'h process" where
  "InitDB N cfg ps =
     (if ps_db_once ps then (True, ps)
      else
        (case cn_Open N (DSN cfg) of
           (h, opened) \<Rightarrow> (if opened then cn_AutoMigrate N h else False, ps\<lparr>ps_db := h, ps_db_once := True\<rparr>)))"

definition GetDB :: "'h process \<Rightarrow> 'h option" where
  "GetDB ps = ps_db ps"

definition NewDispatcher :: "any_broker \<Rightarrow> hub_pool \<Rightarrow> dispatcher_obj" where
  "NewDispatcher br p = \<lparr>do_broker = br, do_pool = p, do_ran = False, do_loops = 0\<rparr>"

text \<open>\<open>Run\<close> starts one loop, the first time.\<close>
definition Dispatcher_Run_once :: "dispatcher_obj \<Rightarrow> dispatcher_obj" where
  "Dispatcher_Run_once d = (if do_ran d then d else d\<lparr>do_ran := True, do_loops := do_loops d + 1\<rparr>)"

definition SetGlobal :: "dispatcher_obj \<Rightarrow> 'h process \<Rightarrow> 'h process" where
  "SetGlobal d ps = (if ps_dispatcher_once ps then ps else ps\<lparr>ps_dispatcher := Some d, ps_dispatcher_once := True\<rparr>)"

definition GetGlobal :: "'h process \<Rightarrow> dispatcher_obj option" where
  "GetGlobal ps = ps_dispatcher ps"

definition InitApp_process :: "'h connector \<Rightarrow> 'k config \<Rightarrow> 'h process \<Rightarrow> start_err option \<times> 'h process" where
  "InitApp_process N cfg ps =
     (case InitRedis N (Redis cfg) ps of
        (False, ps1) \<Rightarrow> (Some RedisFailed, ps1)
      | (True, ps1) \<Rightarrow>
          (case InitDB N (Database cfg) ps1 of
             (False, ps2) \<Rightarrow> (Some DBFailed, ps2)
           | (True, ps2) \<Rightarrow>
               (case InitDispatcher (Dispatcher cfg) of
                  (br, p) \<Rightarrow> (None, SetGlobal (Dispatcher_Run_once (NewDispatcher br p)) ps2))))"

text \<open>Whether the database can be used at an address.\<close>
definition db_answers :: "'h connector \<Rightarrow> postgres_config \<Rightarrow> bool" where
  "db_answers N cfg = (snd (cn_Open N (DSN cfg)) \<and> cn_AutoMigrate N (fst (cn_Open N (DSN cfg))))"

lemma init_refines_start:
  "case InitApp (cn_Ping N) (db_answers N) cfg of
     Inl e \<Rightarrow> fst (InitApp_process N cfg fresh_process) = Some e \<and>
       GetGlobal (snd (InitApp_process N cfg fresh_process)) = None
   | Inr (br, p) \<Rightarrow> \<exists>ps. InitApp_process N cfg fresh_process = (None, ps) \<and>
       GetGlobal ps = Some \<lparr>do_broker = br, do_pool = p, do_ran = True, do_loops = 1\<rparr> \<and>
       GetClient ps = Some (Redis cfg) \<and> GetDB ps = fst (cn_Open N (DSN (Database cfg)))"
  by (cases "cn_Open N (DSN (Database cfg))")
    (auto simp: InitApp_def InitApp_process_def fresh_process_def InitRedis_def InitDB_def db_answers_def SetGlobal_def
      GetGlobal_def GetClient_def GetDB_def NewDispatcher_def Dispatcher_Run_once_def split: prod.split bool.split)

text \<open>The \<open>Once\<close> is spent by a failed attempt too: the next call reports success without a connection.\<close>
lemma failure_reported_once:
  "InitRedis N cfg ps = (ok, ps') \<Longrightarrow> InitRedis N' cfg' ps' = (True, ps')"
  "InitDB N pgc ps = (ok, ps') \<Longrightarrow> InitDB N' pgc' ps' = (True, ps')"
  by (auto simp: InitRedis_def InitDB_def split: if_splits prod.splits)

lemma run_once: "Dispatcher_Run_once (Dispatcher_Run_once d) = Dispatcher_Run_once d"
  by (simp add: Dispatcher_Run_once_def)

lemma global_once: "SetGlobal d' (SetGlobal d ps) = SetGlobal d ps"
  by (simp add: SetGlobal_def)

section \<open>The logger\<close>

datatype log_level = LTrace | LDebug | LInfo | LNotice | LWarn | LError | LFatal

text \<open>The three families of methods; the text is what \<open>Sprint\<close> or \<open>Sprintf\<close> makes of the arguments.\<close>
datatype log_form = Plain | Formatted | CtxFormatted

type_synonym log_call = "log_form \<times> log_level \<times> bytes"

definition isNoise :: "bytes \<Rightarrow> bool" where
  "isNoise msg =
     (Contains msg ''malformed HTTP request'' \<or>
      Contains msg ''HERTZ: Error=read tcp'' \<and> Contains msg ''wsarecv'')"

text \<open>What the wrapped logger has been called with.\<close>
definition filteredSystemLogger :: "log_call \<Rightarrow> log_call list \<Rightarrow> log_call list" where
  "filteredSystemLogger call out =
     (case call of (form, level, msg) \<Rightarrow>
        if level = LError \<and> isNoise msg then out else out @ [(form, level, msg)])"

lemma logger_drops_noise_only:
  "fold filteredSystemLogger calls out =
     out @ filter (\<lambda>(form, level, msg). \<not> (level = LError \<and> isNoise msg)) calls"
  by (induction calls arbitrary: out) (auto simp: filteredSystemLogger_def)

text \<open>Where lines go. The flags are whether the file name and line are printed with the date.\<close>
record rotation =
  Filename :: bytes
  MaxSize :: int
  MaxBackups :: int
  MaxAge :: int
  Compress :: bool
  LocalTime :: bool

datatype sink = Stdout | Stderr | RotatedFile rotation

record logging =
  lg_default :: "sink list"
  lg_system_filtered :: bool
  lg_std :: "sink list"
  lg_std_shortfile :: bool

definition defaultLogDir :: bytes where "defaultLogDir = ''logs''"

definition app_log :: rotation where
  "app_log = \<lparr>Filename = defaultLogDir @ ''/app.log'', MaxSize = 1, MaxBackups = 30, MaxAge = 7,
     Compress = True, LocalTime = True\<rparr>"

text \<open>
  \<open>mkdir\<close> is whether the directory can be made. The filter wraps the default logger, so that its lines go where
  those of the default logger go.
\<close>
definition logger_Init :: "(bytes \<Rightarrow> bool) \<Rightarrow> logging \<Rightarrow> bool \<times> logging" where
  "logger_Init mkdir lg =
     (if \<not> mkdir defaultLogDir then (False, lg)
      else (True, lg\<lparr>lg_default := [RotatedFile app_log], lg_system_filtered := True,
              lg_std := [Stdout, RotatedFile app_log], lg_std_shortfile := True\<rparr>))"

text \<open>The lines a default, a system and a standard logger write to a sink.\<close>
definition sink_lines :: "logging \<Rightarrow> log_call list \<Rightarrow> log_call list \<Rightarrow> log_call list \<Rightarrow> sink \<Rightarrow> log_call list" where
  "sink_lines lg business system std k =
     (if k \<in> set (lg_default lg) then business @ (if lg_system_filtered lg then fold filteredSystemLogger system [] else system) else []) @
     (if k \<in> set (lg_std lg) then std else [])"

text \<open>After \<open>Init\<close> the terminal shows the standard log alone, and the file misses only noise.\<close>
lemma logger_Init_sinks:
  assumes "logger_Init mkdir lg = (True, lg')"
  shows "sink_lines lg' business system std Stdout = std"
    and "sink_lines lg' business system std (RotatedFile app_log) =
      business @ filter (\<lambda>(form, level, msg). \<not> (level = LError \<and> isNoise msg)) system @ std"
  using assms by (auto simp: logger_Init_def sink_lines_def logger_drops_noise_only split: if_splits)

lemma noise_examples:
  "isNoise ''HERTZ: Error=malformed HTTP request \"x\"''" "isNoise ''HERTZ: Error=read tcp 1->2: wsarecv: reset''"
  "\<not> isNoise ''HERTZ: Error=read tcp 1->2: i/o timeout''"
  by code_simp+

end
