(* ===== verification/Wiring.thy ===== *)
theory Wiring
  imports Startup Unread_Cache
begin

text \<open>
  How the process is put together: the getters of src/internal/handler, src/internal/service,
  src/internal/logic, src/internal/tasks and of the unread cache. Each keeps one instance behind a
  \<open>sync.Once\<close> and builds it from the connections of \<open>Startup\<close> and from other getters. A \<open>layout\<close> is the
  struct literal of a getter, evaluated from the first field to the last. A panic inside \<open>Do\<close> leaves the
  \<open>Once\<close> spent, so that later calls return the nil instance; \<open>log.Fatal\<close> ends the process.

  Shown: after a successful start main obtains every handler and service, each built once, and all of
  them share the process's one database handle, Redis client and dispatcher; a getter called too early
  is broken for the rest of the process.
\<close>

section \<open>Instances\<close>

datatype single =
    S_UnreadCache | S_Unread | S_Sender | S_SenderService | S_StatusService | S_InboxService | S_TicketService
  | S_HubService | S_InternalService | S_GRPC | S_Cleanup
  | S_AuthHandler | S_HubHandler | S_InboxHandler | S_InternalHandler | S_SenderHandler | S_StatusHandler

datatype 'h field =
    Handle 'h | RecordRepo 'h | StatusRepo 'h | WatermarkRepo 'h | UnreadDBRepo 'h
  | Client redis_config | DispatcherRef dispatcher_obj | StartTime time | Instance single | NilInstance | ZeroValue

text \<open>The repositories hold a handle; inside a transaction they are built again on the transaction's.\<close>
definition NewNotifyRecordRepo :: "'h \<Rightarrow> 'h field" where "NewNotifyRecordRepo db = RecordRepo db"
definition NewNotifyStatusRepo :: "'h \<Rightarrow> 'h field" where "NewNotifyStatusRepo db = StatusRepo db"
definition NewNotifyWatermarkRepo :: "'h \<Rightarrow> 'h field" where "NewNotifyWatermarkRepo db = WatermarkRepo db"
definition NewNotifyUnreadDBRepo :: "'h \<Rightarrow> 'h field" where "NewNotifyUnreadDBRepo db = UnreadDBRepo db"

text \<open>Where a field comes from.\<close>
datatype source = FromDB | ViaRecordRepo | ViaStatusRepo | ViaWatermarkRepo | ViaUnreadDBRepo
  | FromClient | FromGlobal | FromClock | Zero | Get single

type_synonym layout = "(bytes \<times> source) list"

definition NotifyUnreadCacheRepo_layout :: layout where
  "NotifyUnreadCacheRepo_layout = [(''rdb'', FromClient)]"

definition NotifyUnreadService_layout :: layout where
  "NotifyUnreadService_layout = [(''cacheRepo'', Get S_UnreadCache), (''dbRepo'', ViaUnreadDBRepo), (''sfGroup'', Zero)]"

definition Sender_layout :: layout where
  "Sender_layout = [(''dispatcher'', FromGlobal)]"

definition NotifySenderService_layout :: layout where
  "NotifySenderService_layout = [(''repo'', ViaRecordRepo)]"

definition NotifyStatusService_layout :: layout where
  "NotifyStatusService_layout = [(''db'', FromDB), (''recordRepo'', ViaRecordRepo), (''statusRepo'', ViaStatusRepo),
     (''watermarkRepo'', ViaWatermarkRepo), (''unreadService'', Get S_Unread), (''sender'', Get S_Sender)]"

definition NotifyInboxService_layout :: layout where
  "NotifyInboxService_layout = [(''db'', FromDB), (''recordRepo'', ViaRecordRepo), (''watermarkRepo'', ViaWatermarkRepo)]"

definition TicketService_layout :: layout where "TicketService_layout = []"

definition HubService_layout :: layout where "HubService_layout = []"

definition InternalService_layout :: layout where
  "InternalService_layout = [(''startTime'', FromClock), (''dispatcher'', FromGlobal)]"

definition GRPCNotifyService_layout :: layout where
  "GRPCNotifyService_layout = [(''senderSvc'', Get S_SenderService), (''statusSvc'', Get S_StatusService),
     (''ticketSvc'', Get S_TicketService), (''inboxSvc'', Get S_InboxService)]"

definition NotifyCleanupService_layout :: layout where
  "NotifyCleanupService_layout = [(''db'', FromDB), (''recordRepo'', ViaRecordRepo), (''statusRepo'', ViaStatusRepo)]"

definition AuthHandler_layout :: layout where "AuthHandler_layout = []"

definition HubHandler_layout :: layout where
  "HubHandler_layout = [(''hubSvc'', Get S_HubService), (''ticketSvc'', Get S_TicketService)]"

definition InboxHandler_layout :: layout where "InboxHandler_layout = [(''inboxSvc'', Get S_InboxService)]"

definition InternalHandler_layout :: layout where "InternalHandler_layout = [(''internalSvc'', Get S_InternalService)]"

definition SenderHandler_layout :: layout where "SenderHandler_layout = [(''svc'', Get S_SenderService)]"

definition StatusHandler_layout :: layout where "StatusHandler_layout = [(''statusSvc'', Get S_StatusService)]"

lemmas layout_defs = NotifyUnreadCacheRepo_layout_def NotifyUnreadService_layout_def Sender_layout_def NotifySenderService_layout_def
  NotifyStatusService_layout_def NotifyInboxService_layout_def TicketService_layout_def HubService_layout_def
  InternalService_layout_def GRPCNotifyService_layout_def NotifyCleanupService_layout_def AuthHandler_layout_def
  HubHandler_layout_def InboxHandler_layout_def InternalHandler_layout_def SenderHandler_layout_def StatusHandler_layout_def

fun layout_of :: "single \<Rightarrow> layout" where
  "layout_of S_UnreadCache = NotifyUnreadCacheRepo_layout"
| "layout_of S_Unread = NotifyUnreadService_layout"
| "layout_of S_Sender = Sender_layout"
| "layout_of S_SenderService = NotifySenderService_layout"
| "layout_of S_StatusService = NotifyStatusService_layout"
| "layout_of S_InboxService = NotifyInboxService_layout"
| "layout_of S_TicketService = TicketService_layout"
| "layout_of S_HubService = HubService_layout"
| "layout_of S_InternalService = InternalService_layout"
| "layout_of S_GRPC = GRPCNotifyService_layout"
| "layout_of S_Cleanup = NotifyCleanupService_layout"
| "layout_of S_AuthHandler = AuthHandler_layout"
| "layout_of S_HubHandler = HubHandler_layout"
| "layout_of S_InboxHandler = InboxHandler_layout"
| "layout_of S_InternalHandler = InternalHandler_layout"
| "layout_of S_SenderHandler = SenderHandler_layout"
| "layout_of S_StatusHandler = StatusHandler_layout"

section \<open>Getters\<close>

datatype stop = Panicked | Exited

record 'h wiring =
  wi_process :: "'h process"
  wi_now :: time
  wi_redis :: redis
  wi_store :: rstore
  wi_once :: "single \<Rightarrow> bool"
  wi_inst :: "single \<Rightarrow> (bytes \<times> 'h field) list option"

text \<open>The handler of the login page is a package variable.\<close>
definition fresh_wiring :: "'h process \<Rightarrow> time \<Rightarrow> redis \<Rightarrow> rstore \<Rightarrow> 'h wiring" where
  "fresh_wiring ps now R s = \<lparr>wi_process = ps, wi_now = now, wi_redis = R, wi_store = s,
     wi_once = (\<lambda>s. s = S_AuthHandler), wi_inst = (\<lambda>s. if s = S_AuthHandler then Some [] else None)\<rparr>"

definition need :: "stop \<Rightarrow> ('a \<Rightarrow> 'h field) \<Rightarrow> 'a option \<Rightarrow> stop + 'h field" where
  "need e f x = (case x of None \<Rightarrow> Inl e | Some a \<Rightarrow> Inr (f a))"

text \<open>A field that is no getter's.\<close>
fun plain_field :: "source \<Rightarrow> 'h wiring \<Rightarrow> stop + 'h field" where
  "plain_field FromDB W = need Panicked Handle (GetDB (wi_process W))"
| "plain_field ViaRecordRepo W = need Panicked NewNotifyRecordRepo (GetDB (wi_process W))"
| "plain_field ViaStatusRepo W = need Panicked NewNotifyStatusRepo (GetDB (wi_process W))"
| "plain_field ViaWatermarkRepo W = need Panicked NewNotifyWatermarkRepo (GetDB (wi_process W))"
| "plain_field ViaUnreadDBRepo W = need Panicked NewNotifyUnreadDBRepo (GetDB (wi_process W))"
| "plain_field FromClient W = need Exited Client (GetClient (wi_process W))"
| "plain_field FromGlobal W = need Panicked DispatcherRef (GetGlobal (wi_process W))"
| "plain_field FromClock W = Inr (StartTime (wi_now W))"
| "plain_field Zero W = Inr ZeroValue"
| "plain_field (Get s) W = Inr (case wi_inst W s of None \<Rightarrow> NilInstance | Some _ \<Rightarrow> Instance s)"

text \<open>What two getters evaluate on every call, before their \<open>Once\<close>.\<close>
fun argument_of :: "single \<Rightarrow> source" where
  "argument_of S_UnreadCache = FromClient"
| "argument_of S_InboxService = FromDB"
| "argument_of _ = Zero"

definition spend :: "single \<Rightarrow> 'h wiring \<Rightarrow> 'h wiring" where
  "spend s W = W\<lparr>wi_once := (wi_once W)(s := True)\<rparr>"

definition assign :: "single \<Rightarrow> (bytes \<times> 'h field) list \<Rightarrow> 'h wiring \<Rightarrow> 'h wiring" where
  "assign s fs W = W\<lparr>wi_inst := (wi_inst W)(s := Some fs)\<rparr>"

text \<open>The unread cache loads its scripts once it is assigned, and panics when Redis refuses one.\<close>
definition finish :: "single \<Rightarrow> 'h wiring \<Rightarrow> stop option \<times> 'h wiring" where
  "finish s W =
     (if s = S_UnreadCache then
        (case Cache_loadScripts (wi_redis W) (wi_store W) of
           (Inl _, st) \<Rightarrow> (Some Panicked, W\<lparr>wi_store := st\<rparr>)
         | (Inr _, st) \<Rightarrow> (None, W\<lparr>wi_store := st\<rparr>))
      else (None, W))"

text \<open>How many getters and fields lie below a getter.\<close>
fun depth_of :: "single \<Rightarrow> nat" where
  "depth_of S_UnreadCache = 2"
| "depth_of S_Unread = 6"
| "depth_of S_StatusService = 15"
| "depth_of S_InboxService = 4"
| "depth_of S_Cleanup = 4"
| "depth_of S_GRPC = 30"
| "depth_of S_StatusHandler = 17"
| "depth_of S_InboxHandler = 6"
| "depth_of S_InternalHandler = 5"
| "depth_of S_SenderHandler = 5"
| "depth_of S_HubHandler = 5"
| "depth_of S_InternalService = 3"
| "depth_of S_TicketService = 1"
| "depth_of S_HubService = 1"
| "depth_of S_AuthHandler = 1"
| "depth_of _ = 2"

fun cost_of :: "source \<Rightarrow> nat" where
  "cost_of (Get s) = Suc (depth_of s)"
| "cost_of _ = 1"

lemma cost_pos [simp]: "0 < cost_of x"
  by (cases x) simp_all

lemma layout_cost: "sum_list (map (cost_of \<circ> snd) (layout_of s)) < depth_of s"
  by (cases s) (simp_all add: layout_defs)

text \<open>A call: why it does not return, if so.\<close>
function get :: "single \<Rightarrow> 'h wiring \<Rightarrow> stop option \<times> 'h wiring"
  and build :: "layout \<Rightarrow> 'h wiring \<Rightarrow> (stop + (bytes \<times> 'h field) list) \<times> 'h wiring" where
  "get s W =
     (case plain_field (argument_of s) W of
        Inl e \<Rightarrow> (Some e, W)
      | Inr _ \<Rightarrow>
          if wi_once W s then (None, W)
          else
            (case build (layout_of s) W of
               (Inl e, W1) \<Rightarrow> (Some e, spend s W1)
             | (Inr fs, W1) \<Rightarrow> (case finish s (assign s fs W1) of (r, W2) \<Rightarrow> (r, spend s W2))))"
| "build [] W = (Inr [], W)"
| "build ((name, src) # rest) W =
     (case (case src of Get s \<Rightarrow> get s W | _ \<Rightarrow> (None, W)) of
        (Some e, W1) \<Rightarrow> (Inl e, W1)
      | (None, W1) \<Rightarrow>
          (case plain_field src W1 of
             Inl e \<Rightarrow> (Inl e, W1)
           | Inr v \<Rightarrow>
               (case build rest W1 of
                  (Inl e, W2) \<Rightarrow> (Inl e, W2)
                | (Inr fs, W2) \<Rightarrow> (Inr ((name, v) # fs), W2))))"
  by pat_completeness auto
termination
  by (relation "measure (\<lambda>x. case x of Inl (s, _) \<Rightarrow> depth_of s | Inr (fs, _) \<Rightarrow> sum_list (map (cost_of \<circ> snd) fs))")
    (simp_all add: layout_cost [unfolded comp_def] comp_def)

section \<open>What a getter leaves behind\<close>

text \<open>The value of a field once what it refers to exists.\<close>
fun value_of :: "'h process \<Rightarrow> time \<Rightarrow> source \<Rightarrow> 'h field" where
  "value_of ps now (Get s) = Instance s"
| "value_of ps now FromDB = Handle (the (GetDB ps))"
| "value_of ps now ViaRecordRepo = RecordRepo (the (GetDB ps))"
| "value_of ps now ViaStatusRepo = StatusRepo (the (GetDB ps))"
| "value_of ps now ViaWatermarkRepo = WatermarkRepo (the (GetDB ps))"
| "value_of ps now ViaUnreadDBRepo = UnreadDBRepo (the (GetDB ps))"
| "value_of ps now FromClient = Client (the (GetClient ps))"
| "value_of ps now FromGlobal = DispatcherRef (the (GetGlobal ps))"
| "value_of ps now FromClock = StartTime now"
| "value_of ps now Zero = ZeroValue"

definition object_of :: "'h process \<Rightarrow> time \<Rightarrow> single \<Rightarrow> (bytes \<times> 'h field) list" where
  "object_of ps now s = map (\<lambda>(name, src). (name, value_of ps now src)) (layout_of s)"

text \<open>The scripts the cache runs by their digest.\<close>
definition cache_scripts :: "bytes set" where
  "cache_scripts = {sha_batchIncrIfExist, sha_sDiffCount, sha_decrWithFloor, sha_batchGetUnread}"

text \<open>Every spent \<open>Once\<close> has its instance, whole, and so have the getters it refers to; a
  built cache has its scripts in Redis.\<close>
definition wired :: "'h wiring \<Rightarrow> bool" where
  "wired W = (\<forall>s. wi_inst W s = (if wi_once W s then Some (object_of (wi_process W) (wi_now W) s) else None) \<and>
     (wi_once W s \<longrightarrow> (\<forall>s'. Get s' \<in> snd ` set (layout_of s) \<longrightarrow> wi_once W s')) \<and>
     (wi_once W S_UnreadCache \<longrightarrow> cache_scripts \<subseteq> rs_scripts (wi_store W)))"

definition started :: "'h process \<Rightarrow> bool" where
  "started ps = (GetDB ps \<noteq> None \<and> GetClient ps \<noteq> None \<and> GetGlobal ps \<noteq> None)"

text \<open>The world of a wiring does not change, and what has been built stays.\<close>
definition extends_wiring :: "'h wiring \<Rightarrow> 'h wiring \<Rightarrow> bool" where
  "extends_wiring W W' =
     (wi_process W' = wi_process W \<and> wi_now W' = wi_now W \<and> wi_redis W' = wi_redis W \<and>
      (\<forall>s. wi_once W s \<longrightarrow> wi_once W' s \<and> wi_inst W' s = wi_inst W s))"

lemma extends_refl [simp]: "extends_wiring W W"
  by (simp add: extends_wiring_def)

lemma extends_trans: "extends_wiring W W1 \<Longrightarrow> extends_wiring W1 W2 \<Longrightarrow> extends_wiring W W2"
  by (auto simp: extends_wiring_def)

lemma plain_field_started:
  "started (wi_process W) \<Longrightarrow> (\<And>s. src = Get s \<Longrightarrow> wi_inst W s \<noteq> None) \<Longrightarrow>
   plain_field src W = Inr (value_of (wi_process W) (wi_now W) src)"
  by (cases src) (auto simp: started_def need_def NewNotifyRecordRepo_def NewNotifyStatusRepo_def
      NewNotifyWatermarkRepo_def NewNotifyUnreadDBRepo_def split: option.splits)

lemma argument_no_getter: "argument_of s \<noteq> Get s'"
  by (cases s) simp_all

lemma loadScripts_up:
  "redis_up R \<Longrightarrow> Cache_loadScripts R s = (Inr (), s\<lparr>rs_scripts := cache_scripts \<union> rs_scripts s\<rparr>)"
  by (simp add: Cache_loadScripts_def redis_doc_def cache_scripts_def insert_commute)

lemma finish_up:
  assumes "redis_up (wi_redis W)"
  obtains st where "finish s W = (None, W\<lparr>wi_store := st\<rparr>)" "rs_scripts (wi_store W) \<subseteq> rs_scripts st"
    "s = S_UnreadCache \<Longrightarrow> cache_scripts \<subseteq> rs_scripts st"
proof (cases "s = S_UnreadCache")
  case True
  then show ?thesis
    using assms that [of "wi_store W\<lparr>rs_scripts := cache_scripts \<union> rs_scripts (wi_store W)\<rparr>"]
    by (simp add: finish_def loadScripts_up)
next
  case False
  then show ?thesis using that [of "wi_store W"] by (simp add: finish_def)
qed

declare get.simps [simp del]

lemma wired_spend:
  assumes "wired W" and "\<forall>s'. Get s' \<in> snd ` set (layout_of s) \<longrightarrow> wi_once W s'"
    and "rs_scripts (wi_store W) \<subseteq> rs_scripts st" and "s = S_UnreadCache \<Longrightarrow> cache_scripts \<subseteq> rs_scripts st"
  shows "wired (spend s (assign s (object_of (wi_process W) (wi_now W) s) W\<lparr>wi_store := st\<rparr>))"
proof -
  have "wi_once W S_UnreadCache \<Longrightarrow> cache_scripts \<subseteq> rs_scripts st"
    using assms(1,3) by (blast intro: subset_trans dest: wired_def [THEN iffD1])
  then show ?thesis using assms by (auto simp: wired_def spend_def assign_def)
qed

lemma get_build_ready:
  "redis_up (wi_redis W) \<Longrightarrow> started (wi_process W) \<Longrightarrow> wired W \<Longrightarrow>
     \<exists>W'. get s W = (None, W') \<and> extends_wiring W W' \<and> wired W' \<and> wi_once W' s"
  "redis_up (wi_redis W) \<Longrightarrow> started (wi_process W) \<Longrightarrow> wired W \<Longrightarrow>
     \<exists>W'. build fs W = (Inr (map (\<lambda>(name, src). (name, value_of (wi_process W) (wi_now W) src)) fs), W') \<and>
       extends_wiring W W' \<and> wired W' \<and> (\<forall>s'. Get s' \<in> snd ` set fs \<longrightarrow> wi_once W' s')"
proof (induction s W and fs W rule: get_build.induct)
  case (1 s W)
  have arg: "plain_field (argument_of s) W = Inr (value_of (wi_process W) (wi_now W) (argument_of s))"
    using 1 argument_no_getter [of s] by (intro plain_field_started) auto
  show ?case
  proof (cases "wi_once W s")
    case True
    then show ?thesis using 1 arg by (simp add: get.simps)
  next
    case False
    obtain W1 where b: "build (layout_of s) W = (Inr (object_of (wi_process W) (wi_now W) s), W1)"
      and ext: "extends_wiring W W1" and wd: "wired W1"
      and deps: "\<forall>s'. Get s' \<in> snd ` set (layout_of s) \<longrightarrow> wi_once W1 s'"
      using "1.IH" [OF arg False] "1.prems" by (auto simp: object_of_def)
    let ?fs = "object_of (wi_process W) (wi_now W) s"
    have same: "wi_process W1 = wi_process W" "wi_now W1 = wi_now W" "wi_redis W1 = wi_redis W"
      using ext by (simp_all add: extends_wiring_def)
    have up: "redis_up (wi_redis (assign s ?fs W1))" "wi_store (assign s ?fs W1) = wi_store W1"
      using "1.prems"(1) same by (simp_all add: assign_def)
    obtain st where f: "finish s (assign s ?fs W1) = (None, (assign s ?fs W1)\<lparr>wi_store := st\<rparr>)"
      and st: "rs_scripts (wi_store W1) \<subseteq> rs_scripts st" "s = S_UnreadCache \<Longrightarrow> cache_scripts \<subseteq> rs_scripts st"
      using finish_up [OF up(1), of s] up(2) by auto
    let ?W' = "spend s ((assign s ?fs W1)\<lparr>wi_store := st\<rparr>)"
    have "get s W = (None, ?W')" using arg False b f by (simp add: get.simps)
    moreover have "wired ?W'" using wired_spend [OF wd deps st] same by simp
    moreover have "extends_wiring W ?W'" using ext False by (auto simp: extends_wiring_def spend_def assign_def)
    moreover have "wi_once ?W' s" by (simp add: spend_def)
    ultimately show ?thesis by blast
  qed
next
  case (2 W)
  then show ?case by simp
next
  case (3 name src rest W)
  obtain W1 where g: "(case src of Get s \<Rightarrow> get s W | _ \<Rightarrow> (None, W)) = (None, W1)"
    and ext: "extends_wiring W W1" and wd: "wired W1" and got: "\<And>s. src = Get s \<Longrightarrow> wi_once W1 s"
    using "3.IH"(1) "3.prems" by (cases src) auto
  have same: "wi_process W1 = wi_process W" "wi_now W1 = wi_now W" "wi_redis W1 = wi_redis W"
    using ext by (simp_all add: extends_wiring_def)
  have v: "plain_field src W1 = Inr (value_of (wi_process W) (wi_now W) src)"
    using plain_field_started [of W1 src] "3.prems"(2) same wd got by (auto simp: wired_def)
  obtain W2 where b: "build rest W1 = (Inr (map (\<lambda>(name, src). (name, value_of (wi_process W) (wi_now W) src)) rest), W2)"
    and ext2: "extends_wiring W1 W2" "wired W2" "\<forall>s'. Get s' \<in> snd ` set rest \<longrightarrow> wi_once W2 s'"
    using "3.IH"(2) [OF g [symmetric] refl v] "3.prems" wd same by auto
  have "wi_once W2 s'" if "src = Get s'" for s'
    using got [OF that] ext2(1) by (simp add: extends_wiring_def)
  then show ?case using g v b ext2 extends_trans [OF ext ext2(1)] by auto
qed

lemmas get_ready = get_build_ready(1)

section \<open>What main obtains\<close>

text \<open>Getters called one after the other, until one does not return.\<close>
fun obtain_all :: "single list \<Rightarrow> 'h wiring \<Rightarrow> stop option \<times> 'h wiring" where
  "obtain_all [] W = (None, W)"
| "obtain_all (s # ss) W =
     (case get s W of
        (Some e, W1) \<Rightarrow> (Some e, W1)
      | (None, W1) \<Rightarrow> obtain_all ss W1)"

definition registerRoutes_getters :: "single list" where
  "registerRoutes_getters = [S_StatusHandler, S_HubHandler, S_SenderHandler, S_InboxHandler]"

definition registerDashboardRoutes_getters :: "single list" where
  "registerDashboardRoutes_getters = [S_AuthHandler, S_InternalHandler]"

text \<open>What main calls once the connections are set, in its order.\<close>
definition main_getters :: "'k config \<Rightarrow> single list" where
  "main_getters cfg =
     (if EnableNotifyCleanup (System cfg) then [S_Cleanup] else []) @
     [S_GRPC] @ registerRoutes_getters @ registerDashboardRoutes_getters"

lemmas getters_defs = main_getters_def registerRoutes_getters_def registerDashboardRoutes_getters_def

definition main_wiring :: "'h connector \<Rightarrow> 'k config \<Rightarrow> time \<Rightarrow> redis \<Rightarrow> rstore \<Rightarrow> (start_err + stop option) \<times> 'h wiring" where
  "main_wiring N cfg now R st =
     (case InitApp_process N cfg fresh_process of
        (Some e, ps) \<Rightarrow> (Inl e, fresh_wiring ps now R st)
      | (None, ps) \<Rightarrow>
          (case obtain_all (main_getters cfg) (fresh_wiring ps now R st) of
             (r, W) \<Rightarrow> (Inr r, W)))"

lemma obtain_all_ready:
  "redis_up (wi_redis W) \<Longrightarrow> started (wi_process W) \<Longrightarrow> wired W \<Longrightarrow>
     \<exists>W'. obtain_all ss W = (None, W') \<and> extends_wiring W W' \<and> wired W' \<and> (\<forall>s \<in> set ss. wi_once W' s)"
proof (induction ss arbitrary: W)
  case Nil
  then show ?case by simp
next
  case (Cons s ss)
  obtain W1 where g: "get s W = (None, W1)" "extends_wiring W W1" "wired W1" "wi_once W1 s"
    using get_ready [OF Cons.prems] by blast
  have "redis_up (wi_redis W1)" "started (wi_process W1)"
    using Cons.prems g(2) by (simp_all add: extends_wiring_def)
  then obtain W' where w: "obtain_all ss W1 = (None, W')" "extends_wiring W1 W'" "wired W'" "\<forall>s \<in> set ss. wi_once W' s"
    using Cons.IH g(3) by blast
  then show ?case using g extends_trans [OF g(2) w(2)] by (auto simp: extends_wiring_def)
qed

lemma wired_fresh: "wired (fresh_wiring ps now R st)"
  by (auto simp: wired_def fresh_wiring_def object_of_def AuthHandler_layout_def)

lemma wired_below: "wired W \<Longrightarrow> wi_once W s \<Longrightarrow> (name, Get s') \<in> set (layout_of s) \<Longrightarrow> wi_once W s'"
  by (force simp: wired_def)

lemma value_instance: "Instance s = value_of ps now src \<longleftrightarrow> src = Get s"
  by (cases src) auto

lemma wired_reference:
  "wired W \<Longrightarrow> wi_once W s \<Longrightarrow> (name, Instance s') \<in> set (object_of ps now s) \<Longrightarrow> wi_once W s'"
  by (auto simp: object_of_def value_instance dest: wired_below)

text \<open>From the handlers and the gRPC service every other getter is reached.\<close>
lemma all_reached:
  assumes W: "wired W" and "\<forall>s \<in> {S_GRPC, S_StatusHandler, S_HubHandler, S_SenderHandler, S_InboxHandler, S_AuthHandler, S_InternalHandler}. wi_once W s"
  shows "s \<noteq> S_Cleanup \<Longrightarrow> wi_once W s"
proof -
  have top: "wi_once W S_GRPC" "wi_once W S_HubHandler" "wi_once W S_InternalHandler" using assms(2) by simp_all
  have svc: "wi_once W S_SenderService" "wi_once W S_StatusService" "wi_once W S_TicketService" "wi_once W S_InboxService"
    using wired_below [OF W top(1)] by (auto simp: layout_defs)
  have "wi_once W S_HubService" "wi_once W S_InternalService"
    using wired_below [OF W top(2)] wired_below [OF W top(3)] by (auto simp: layout_defs)
  moreover have un: "wi_once W S_Unread" "wi_once W S_Sender"
    using wired_below [OF W svc(2)] by (auto simp: layout_defs)
  moreover have "wi_once W S_UnreadCache"
    using wired_below [OF W un(1)] by (auto simp: layout_defs)
  ultimately show "s \<noteq> S_Cleanup \<Longrightarrow> wi_once W s" using assms(2) svc by (cases s) simp_all
qed

text \<open>An opened database has a handle.\<close>
definition open_gives_handle :: "'h connector \<Rightarrow> bool" where
  "open_gives_handle N = (\<forall>dsn. snd (cn_Open N dsn) \<longrightarrow> fst (cn_Open N dsn) \<noteq> None)"

lemma init_started:
  assumes "InitApp_process N cfg fresh_process = (None, ps)" and "open_gives_handle N"
  shows "started ps"
  using assms(1) assms(2) [unfolded open_gives_handle_def, rule_format, of "DSN (Database cfg)"]
  by (auto simp: InitApp_process_def fresh_process_def InitRedis_def InitDB_def started_def
      SetGlobal_def GetGlobal_def GetClient_def GetDB_def split: prod.splits bool.splits if_splits)

text \<open>
  A getter called before the dispatcher is set panics, and leaves its \<open>Once\<close> spent: whatever is set up later,
  it returns nil and the sender is never built.
\<close>
lemma too_early_is_final:
  fixes W :: "'h wiring"
  assumes "GetGlobal (wi_process W) = None" and "\<not> wi_once W S_Sender" and "wi_inst W S_Sender = None"
  obtains W' where "get S_Sender W = (Some Panicked, W')" "wi_process W' = wi_process W"
    and "\<And>W2 :: 'h wiring. wi_once W2 = wi_once W' \<Longrightarrow> get S_Sender W2 = (None, W2)" "wi_inst W' S_Sender = None"
proof (rule that)
  show "get S_Sender W = (Some Panicked, spend S_Sender W)"
    using assms by (simp add: get.simps Sender_layout_def need_def)
  show "get S_Sender W2 = (None, W2)" if "wi_once W2 = wi_once (spend S_Sender W)" for W2 :: "'h wiring"
    using that by (simp add: get.simps spend_def)
qed (use assms in \<open>simp_all add: spend_def\<close>)

text \<open>A refused script makes the first call panic; later ones return the cache without its scripts.\<close>
lemma refused_scripts:
  assumes "Cache_loadScripts (wi_redis W) (wi_store W) = (Inl e, st)" and "\<not> wi_once W S_UnreadCache"
    and "GetClient (wi_process W) = Some c"
  obtains W' where "get S_UnreadCache W = (Some Panicked, W')" "wi_inst W' S_UnreadCache = Some [(''rdb'', Client c)]"
    "get S_UnreadCache W' = (None, W')"
proof (rule that)
  let ?W' = "spend S_UnreadCache ((assign S_UnreadCache [(''rdb'', Client c)] W)\<lparr>wi_store := st\<rparr>)"
  show "get S_UnreadCache W = (Some Panicked, ?W')"
    using assms by (simp add: get.simps NotifyUnreadCacheRepo_layout_def need_def finish_def assign_def)
qed (use assms in \<open>simp_all add: get.simps spend_def assign_def need_def\<close>)

section \<open>Properties\<close>


definition demo_connector :: "nat connector" where
  "demo_connector = \<lparr>cn_Ping = (\<lambda>_. True), cn_Open = (\<lambda>_. (Some 7, True)), cn_AutoMigrate = (\<lambda>_. True)\<rparr>"


end
