(* ===== verification/Spec2Isabelle.thy ===== *)
theory Spec2Isabelle
  imports Pool_Race Hub_System Delivery Wiring
begin

text \<open>
  A verification development of bs-notify-hub, a notification service in Go (src/). Services of a tenant
  send notifications over HTTP or gRPC; the hub stores them in PostgreSQL, keeps unread counters in Redis and
  pushes notifications and counters to browsers over server-sent events. Users list, read and delete them;
  a daily task deletes the expired ones.

  \<^bold>\<open>How the parts interact.\<close> A request passes a guard (src/internal/middleware) that finds the tenant of its
  token or session, is bound to a body (src/internal/handler, src/internal/dto) and runs a service
  (src/internal/service). A service reads and writes the database through the repositories
  (src/internal/repository), answers, and starts a goroutine that brings the unread cache in step
  (src/internal/logic/unread.go) and publishes messages (src/internal/logic/sender.go) to a broker
  (src/internal/dispatch). The dispatch loop takes them from the broker and writes them into the channels of
  the target's connections, which the pool (src/pkg/pool) holds by tenant, user and connection id; the
  subscription of each connection (src/internal/service/hub.go) sends its channel to the browser.

  \<^bold>\<open>Theories.\<close>
  \<^item> \<open>Hub_Prelude\<close>: Go's integer widths, strings and slices. \<open>Go_Strconv\<close>, \<open>Go_Base64\<close>: decimal numbers and
    base64. \<open>Hub_Constants\<close>: src/internal/constant, src/pkg/httpcode, Redis keys, business errors. \<open>Hub_Dto\<close>:
    the pushed messages and their codec.
  \<^item> \<open>Conn_Pool\<close>: src/pkg/pool over a heap of groups and connections, its invariant \<open>pool_inv\<close>, the
    refinement to a map and the locale of a connection type, interpreted on \<open>HubSSEConnection\<close>.
    \<open>Pool_Race\<close>: subscribers as threads, one step per critical section, with the invariant of all
    interleavings and the run that loses a registration.
  \<^item> \<open>Dispatch\<close>: both brokers, the consumer's retry loop and the dispatcher; the locale \<open>broker\<close>, interpreted
    on both. \<open>Hub_Service\<close>: the subscribe loop, interleaved with the rest of the hub.
  \<^item> \<open>Store\<close>: the rows of src/internal/model and the database as a parameter. \<open>Repository\<close>: record.go,
    status.go, watermark.go and unread_db.go of src/internal/repository.
  \<^item> \<open>Redis_Store\<close>: Redis as a parameter. \<open>Unread_Cache\<close>: unread_cache.go and the Lua scripts. \<open>Unread\<close>:
    src/internal/logic/unread.go.
  \<^item> \<open>Conf\<close>, \<open>Conf_Dsn\<close>: src/internal/conf. \<open>Session\<close>, \<open>Jwt\<close>, \<open>Ticket\<close>: src/pkg/session, src/pkg/jwtutil and
    src/internal/service/ticket.go. \<open>Http\<close>, \<open>Middleware\<close>: requests, responses and guards.
  \<^item> \<open>Sender\<close>, \<open>Status_Service\<close>, \<open>Inbox\<close>, \<open>Dashboard\<close>: the services of the same names (the dashboard's is
    internal.go) with their goroutines (\<open>hw_jobs\<close>); \<open>Cleanup\<close>: src/internal/tasks.
  \<^item> \<open>Handlers\<close>, \<open>Routes\<close>, \<open>Grpc_Service\<close>: every HTTP handler, both route tables of src/main.go, every gRPC
    call. \<open>Startup\<close>: the process-wide singletons, src/internal/app, src/internal/logger. \<open>Wiring\<close>: the getters of
    handlers, services, tasks and the unread cache, each behind its \<open>sync.Once\<close>.
  \<^item> \<open>Delivery\<close>: a send from the service through the goroutine, the broker, the dispatcher and the pool.
  \<^item> \<open>Isolation\<close>, \<open>Well_Typed\<close>, \<open>Hub_System\<close>: what holds across the components. \<open>Hub_System\<close> is the
    transition system of the whole hub.

  A Go struct is a record, an interface value or an error a datatype, a map a partial function or an
  association list where its order is visible, an error result the left side of a sum; a service takes the
  state (\<open>db\<close>, \<open>rstore\<close>, \<open>hub_pool\<close> or the \<open>world\<close> of all of them) and returns it. Function and field names are
  the source's; a method carries its receiver's name (\<open>Manager_Register\<close>, \<open>RecordRepo_Create\<close>).

  \<^bold>\<open>What is shown.\<close>
  \<^item> Delivery: a message reaches exactly the addressed connections, in order, up to a full channel; no
    interleaving writes to a closed channel; a subscriber sees its channel in order and leaves the pool. From end
    to end, a send or broadcast puts each recipient's exact count and then the notification into every one of its
    connections.
  \<^item> Storage: a send is all or nothing; status changes touch one user's rows only; pages list the visible
    notifications exactly once; pages, statistics, batched and single counts agree.
  \<^item> Cache: counters never become negative, sets are replaced atomically, and after each goroutine or
    reconciliation the cache holds the database's figures, also when it pushes them.
  \<^item> Access: guarded handlers need a genuine token or a live session; HTTP requests stay within the tenant of
    their credential, and gRPC calls do not; tickets are used once; sessions live as long as promised.
  \<^item> Whole system: every reachable state is well-typed, the cleanup terminates and removes exactly the expired,
    and in every reachable state nothing ever expires; a successful start builds every handler and service once,
    over the same connections.

  \<^bold>\<open>Parameters.\<close> PostgreSQL through gorm (\<open>pg\<close>, relied on through \<open>pg_ok\<close>), Redis (\<open>redis\<close>, through
  \<open>redis_faithful\<close>), the JSON and YAML codecs, the JWT library and key parsers, AES-GCM, the uuid library, the web
  framework (binding, cross-origin guard, unknown routes) and the operating system's clock and randomness.
  Each is an argument of the definitions that use it, its documented behaviour a named hypothesis, and a concrete
  instance (\<open>demo_pg\<close>, \<open>demo_redis\<close>, ...) satisfies the hypothesis; the witnesses run on these instances.

  \<^bold>\<open>Simplifications.\<close> Times are nanoseconds, and an operation reads the clock once where the code reads it
  several times in a row; a zone is a fixed offset. A failing statement or command fails as a function of its
  arguments and state. A database statement that fails has no effect; a Redis command may fail with or without its
  effect. Context timeouts appear only as failures, and a recovered panic is a value. \<open>singleflight\<close> merges equal concurrent calls and is
  left out. Steps of the whole system are whole operations; the finer interleavings are in \<open>Pool_Race\<close>,
  \<open>Hub_Service\<close> and the lemmas on prefixes of Redis pipelines. The dashboard's uptime is in whole seconds and its
  memory in hundredths of a megabyte. A route matches an exact path or one of the three asset prefixes.

  \<^bold>\<open>Fuel.\<close> \<open>RunOnce\<close> loops while a batch is full. Every full batch of a successful round removes records, so one
  round more than there are records is enough, and \<open>cleanup_total_and_exact\<close> proves it. Every other loop is
  structural or has a measure.

  \<^bold>\<open>Not modelled.\<close> The generated gRPC code (src/api/proto), the listeners and the exit prompt of main, writing and
  rotating log files, and the browser's pages.
\<close>

end
